(* ===== verification/Prelude.thy ===== *)
theory Prelude
  imports Main "HOL-Library.Word" "HOL-Library.AList" "HOL-Library.Sublist"
begin

text \<open>
  Shared vocabulary of the development: the parts of Go and of its standard library that the
  sources under src/ use (byte strings, \<open>strings.Trim\<close>, \<open>strings.Split\<close>, \<open>strings.ToLower\<close>,
  \<open>%\<close> on \<open>int\<close>, decimal and hexadecimal printing, Go maps as association lists) with the generic
  lemmas the components share. A Go \<open>string\<close> is a sequence of bytes, and so is an Isabelle
  \<open>string\<close>: \<open>length\<close> and indexing count bytes on both sides.
\<close>

unbundle bit_operations_syntax

named_theorems go_string_simps \<open>rewrite rules for the Go string functions\<close>
named_theorems alist_simps \<open>rewrite rules for Go maps kept as association lists\<close>

type_synonym byte = "8 word"

section \<open>Go strings\<close>

definition has_prefix :: "string \<Rightarrow> string \<Rightarrow> bool" where
  "has_prefix s p \<longleftrightarrow> take (length p) s = p"

definition has_suffix :: "string \<Rightarrow> string \<Rightarrow> bool" where
  "has_suffix s p \<longleftrightarrow> length p \<le> length s \<and> drop (length s - length p) s = p"

definition backslash :: char where "backslash = char_of (92 :: int)"

definition trim_prefix :: "string \<Rightarrow> string \<Rightarrow> string" where
  "trim_prefix s p = (if has_prefix s p then drop (length p) s else s)"

definition trim_left :: "(char \<Rightarrow> bool) \<Rightarrow> string \<Rightarrow> string" where
  "trim_left P s = dropWhile P s"

definition trim_right :: "(char \<Rightarrow> bool) \<Rightarrow> string \<Rightarrow> string" where
  "trim_right P s = rev (dropWhile P (rev s))"

text \<open>\<open>strings.Trim(s, "/")\<close>: all leading and trailing slashes are cut.\<close>

definition trim_slashes :: "string \<Rightarrow> string" where
  "trim_slashes s = trim_right (\<lambda>c. c = CHR ''/'') (trim_left (\<lambda>c. c = CHR ''/'') s)"

text \<open>\<open>strings.Join\<close>.\<close>

fun join_with :: "string \<Rightarrow> string list \<Rightarrow> string" where
  "join_with sep [] = []"
| "join_with sep [x] = x"
| "join_with sep (x # y # ys) = x @ sep @ join_with sep (y # ys)"

text \<open>\<open>strings.Split(s, sep)\<close> for a one-byte separator: always at least one piece.\<close>

fun split_on :: "char \<Rightarrow> string \<Rightarrow> string list" where
  "split_on c [] = [[]]"
| "split_on c (x # xs) =
     (if x = c then [] # split_on c xs
      else (case split_on c xs of [] \<Rightarrow> [[x]] | w # ws \<Rightarrow> (x # w) # ws))"

fun str_contains :: "string \<Rightarrow> string \<Rightarrow> bool" where
  "str_contains [] sub = (sub = [])"
| "str_contains (x # xs) sub = (has_prefix (x # xs) sub \<or> str_contains xs sub)"

text \<open>
  \<open>strings.ToLower\<close>. An ASCII string is lowered bytewise; a string with a byte above 127 goes
  through Go's Unicode tables, which are the parameter \<open>uni\<close> (the function
  \<open>strings.Map(unicode.ToLower, s)\<close>).
\<close>

definition ascii_upper :: "char \<Rightarrow> bool" where
  "ascii_upper c \<longleftrightarrow> 65 \<le> (of_char c :: nat) \<and> of_char c \<le> (90 :: nat)"

definition lower_char :: "char \<Rightarrow> char" where
  "lower_char c = (if ascii_upper c then char_of (of_char c + 32 :: nat) else c)"

definition upper_char :: "char \<Rightarrow> char" where
  "upper_char c =
     (if 97 \<le> (of_char c :: nat) \<and> of_char c \<le> (122 :: nat) then char_of (of_char c - 32 :: nat) else c)"

definition is_ascii :: "string \<Rightarrow> bool" where
  "is_ascii s \<longleftrightarrow> list_all (\<lambda>c. of_char c < (128 :: nat)) s"

definition to_lower :: "(string \<Rightarrow> string) \<Rightarrow> string \<Rightarrow> string" where
  "to_lower uni s = (if is_ascii s then map lower_char s else uni s)"

text \<open>
  \<open>strings.TrimSpace\<close>: the byte sequences of the white-space code points (the six ASCII ones and
  the UTF-8 encodings of U+0085, U+00A0, U+1680, U+2000 to U+200A, U+2028, U+2029, U+202F,
  U+205F and U+3000) are removed from both ends.
\<close>

definition space_seqs :: "string list" where
  "space_seqs = map (map char_of)
     ([[9], [10], [11], [12], [13], [32],
       [194, 133], [194, 160], [225, 154, 128],
       [226, 128, 168], [226, 128, 169], [226, 128, 175], [226, 129, 159], [227, 128, 128]]
      @ map (\<lambda>k. [226, 128, k]) [128, 129, 130, 131, 132, 133, 134, 135, 136, 137, 138 :: int])"

function trim_left_seqs :: "string list \<Rightarrow> string \<Rightarrow> string" where
  "trim_left_seqs qs s =
     (case find (\<lambda>q. q \<noteq> [] \<and> has_prefix s q) qs of
        None \<Rightarrow> s
      | Some q \<Rightarrow> trim_left_seqs qs (drop (length q) s))"
  by pat_completeness auto
termination
proof (relation "measure (\<lambda>(qs, s). length s)", goal_cases)
  case (2 qs s q)
  then have q: "q \<noteq> []" "has_prefix s q"
    by (auto simp: find_Some_iff)
  then have "s \<noteq> []"
    by (auto simp: has_prefix_def)
  with q show ?case
    by (cases q; cases s) auto
qed simp

declare trim_left_seqs.simps [simp del]

definition trim_space :: "string \<Rightarrow> string" where
  "trim_space s =
     rev (trim_left_seqs (map rev space_seqs) (rev (trim_left_seqs space_seqs s)))"

lemma has_prefix_iff: "has_prefix s p \<longleftrightarrow> (\<exists>t. s = p @ t)"
  by (metis append_eq_conv_conj append_take_drop_id has_prefix_def)

lemma has_prefix_append [simp, go_string_simps]: "has_prefix (p @ t) p"
  by (simp add: has_prefix_def)

lemma has_prefix_Nil [simp, go_string_simps]: "has_prefix s []"
  by (simp add: has_prefix_def)

lemma has_prefix_self [simp]: "has_prefix s s"
  by (simp add: has_prefix_def)

lemma has_prefix_Cons [simp, go_string_simps]:
  "has_prefix (c # s) (d # p) \<longleftrightarrow> c = d \<and> has_prefix s p"
  by (auto simp: has_prefix_def)

lemma has_prefix_Nil_left [simp]: "has_prefix [] p \<longleftrightarrow> p = []"
  by (auto simp: has_prefix_def)

lemma has_prefix_length: "has_prefix s p \<Longrightarrow> length p \<le> length s"
  by (auto simp: has_prefix_iff)

lemma has_prefix_same_length:
  "has_prefix s p \<Longrightarrow> has_prefix s q \<Longrightarrow> length p = length q \<Longrightarrow> p = q"
  by (metis has_prefix_def)

lemma str_contains_iff: "str_contains s sub \<longleftrightarrow> (\<exists>a b. s = a @ sub @ b)"
proof (induction s)
  case Nil
  then show ?case by simp
next
  case (Cons x xs)
  show ?case
  proof
    assume "str_contains (x # xs) sub"
    then show "\<exists>a b. x # xs = a @ sub @ b"
      by (metis Cons.IH append_Cons append_Nil has_prefix_iff str_contains.simps(2))
  next
    assume "\<exists>a b. x # xs = a @ sub @ b"
    then obtain a b where eq: "x # xs = a @ sub @ b" by blast
    show "str_contains (x # xs) sub"
    proof (cases a)
      case Nil
      with eq show ?thesis
        by (metis append_Nil has_prefix_append str_contains.simps(2))
    next
      case (Cons y ys)
      with eq have "xs = ys @ sub @ b" by simp
      with Cons.IH show ?thesis by auto
    qed
  qed
qed

lemma split_on_not_Nil [simp]: "split_on c s \<noteq> []"
  by (induction s) (auto split: list.split)

lemma split_on_no_sep: "w \<in> set (split_on c s) \<Longrightarrow> c \<notin> set w"
proof (induction s arbitrary: w)
  case (Cons x xs)
  show ?case
  proof (cases "split_on c xs")
    case Nil
    then show ?thesis by simp
  next
    case (Cons v vs)
    with Cons.IH have "c \<notin> set v" "\<And>u. u \<in> set vs \<Longrightarrow> c \<notin> set u"
      by (metis list.set_intros(1), metis list.set_intros(2))
    with Cons Cons.prems show ?thesis
      by (auto split: if_splits)
  qed
qed simp

lemma split_on_atom [simp]: "c \<notin> set w \<Longrightarrow> split_on c w = [w]"
  by (induction w) auto

lemma split_on_append [go_string_simps]:
  "c \<notin> set w \<Longrightarrow> split_on c (w @ c # s) = w # split_on c s"
  by (induction w) auto

lemma trim_left_hd: "trim_left P s = c # cs \<Longrightarrow> \<not> P c"
  unfolding trim_left_def by (metis dropWhile_eq_Cons_conv)

lemma trim_slashes_no_leading: "trim_slashes s = c # cs \<Longrightarrow> c \<noteq> CHR ''/''"
proof -
  define l where "l = trim_left (\<lambda>c. c = CHR ''/'') s"
  assume *: "trim_slashes s = c # cs"
  then have r: "trim_right (\<lambda>c. c = CHR ''/'') l = c # cs"
    by (simp add: trim_slashes_def l_def)
  have "prefix (trim_right (\<lambda>c. c = CHR ''/'') l) l"
    unfolding trim_right_def
    by (metis rev_rev_ident suffix_dropWhile suffix_to_prefix)
  with r obtain t where "l = c # t"
    by (auto simp: prefix_def)
  then show ?thesis
    using trim_left_hd [of "\<lambda>c. c = CHR ''/''" s] by (simp add: l_def)
qed

lemma trim_slashes_Nil [simp]: "trim_slashes [] = []"
  by (simp add: trim_slashes_def trim_left_def trim_right_def)

lemma trim_slashes_slash [simp]: "trim_slashes (CHR ''/'' # s) = trim_slashes s"
  by (simp add: trim_slashes_def trim_left_def)

lemma to_lower_ascii: "is_ascii s \<Longrightarrow> to_lower uni s = map lower_char s"
  by (simp add: to_lower_def)

section \<open>Integers\<close>

text \<open>Go's \<open>%\<close> truncates towards zero: the result has the sign of the dividend.\<close>

definition go_rem :: "int \<Rightarrow> int \<Rightarrow> int" where
  "go_rem a b = sgn a * (\<bar>a\<bar> mod \<bar>b\<bar>)"

lemma go_rem_nonneg: "0 \<le> a \<Longrightarrow> 0 < b \<Longrightarrow> go_rem a b = a mod b"
  by (cases "a = 0") (auto simp: go_rem_def sgn_if)

fun dec_of_nat :: "nat \<Rightarrow> string" where
  "dec_of_nat n =
     (if n < 10 then [char_of (48 + n)]
      else dec_of_nat (n div 10) @ [char_of (48 + n mod 10)])"

declare dec_of_nat.simps [simp del]

definition dec_of_int :: "int \<Rightarrow> string" where
  "dec_of_int i = (if i < 0 then ''-'' @ dec_of_nat (nat (- i)) else dec_of_nat (nat i))"

text \<open>\<open>strconv.Atoi\<close>: an optional sign and decimal digits, within 64 bits.\<close>

definition dec_digit :: "char \<Rightarrow> bool" where
  "dec_digit c \<longleftrightarrow> 48 \<le> (of_char c :: int) \<and> of_char c \<le> (57 :: int)"

definition dec_value :: "string \<Rightarrow> int" where
  "dec_value s = foldl (\<lambda>v c. v * 10 + (of_char c - 48)) 0 s"

definition go_atoi :: "string \<Rightarrow> int option" where
  "go_atoi s =
     (let neg = (s \<noteq> [] \<and> hd s = CHR ''-''); pos = (s \<noteq> [] \<and> hd s = CHR ''+'');
          ds = (if neg \<or> pos then tl s else s); v = (if neg then - dec_value ds else dec_value ds)
      in if ds = [] \<or> \<not> list_all dec_digit ds then None
         else if - (2 ^ 63) \<le> v \<and> v < 2 ^ 63 then Some v else None)"

section \<open>Bytes\<close>

definition hex_digit :: "nat \<Rightarrow> char" where
  "hex_digit n = ''0123456789abcdef'' ! (n mod 16)"

definition hex_byte :: "byte \<Rightarrow> string" where
  "hex_byte b = [hex_digit (unat b div 16), hex_digit (unat b)]"

text \<open>\<open>hex.EncodeToString\<close>.\<close>

definition hex_encode :: "byte list \<Rightarrow> string" where
  "hex_encode bs = concat (map hex_byte bs)"

lemma hex_digit_inj: "m < 16 \<Longrightarrow> n < 16 \<Longrightarrow> hex_digit m = hex_digit n \<Longrightarrow> m = n"
proof -
  have d: "distinct ''0123456789abcdef''" and l: "length ''0123456789abcdef'' = 16"
    by simp_all
  assume "m < 16" "n < 16" "hex_digit m = hex_digit n"
  then show "m = n"
    using nth_eq_iff_index_eq [OF d] l by (metis hex_digit_def mod_less)
qed

lemma hex_byte_inj: "hex_byte a = hex_byte b \<Longrightarrow> a = b"
proof -
  assume "hex_byte a = hex_byte b"
  then have h: "hex_digit (unat a div 16) = hex_digit (unat b div 16)"
    and l: "hex_digit (unat a mod 16) = hex_digit (unat b mod 16)"
    by (simp_all add: hex_byte_def hex_digit_def)
  have a: "unat a < 256" and b: "unat b < 256"
    using unsigned_less [of a, where ?'a = nat] unsigned_less [of b, where ?'a = nat] by simp_all
  from h a b have "unat a div 16 = unat b div 16"
    by (intro hex_digit_inj) auto
  moreover from l have "unat a mod 16 = unat b mod 16"
    by (intro hex_digit_inj) auto
  ultimately have "unat a = unat b"
    by (metis div_mult_mod_eq)
  then show "a = b" by (rule unsigned_word_eqI)
qed

lemma hex_byte_length [simp]: "length (hex_byte b) = 2"
  by (simp add: hex_byte_def)

lemma hex_encode_length [simp]: "length (hex_encode bs) = 2 * length bs"
  by (induction bs) (auto simp: hex_encode_def)

lemma hex_encode_inj: "hex_encode as = hex_encode bs \<Longrightarrow> as = bs"
proof (induction as arbitrary: bs)
  case Nil
  then show ?case
    by (cases bs) (auto simp: hex_encode_def hex_byte_def)
next
  case (Cons a as)
  then obtain b bs' where bs: "bs = b # bs'"
    by (cases bs) (auto simp: hex_encode_def hex_byte_def)
  with Cons.prems have "hex_byte a @ hex_encode as = hex_byte b @ hex_encode bs'"
    by (simp add: hex_encode_def)
  then have "hex_byte a = hex_byte b" "hex_encode as = hex_encode bs'"
    by simp_all
  with bs show ?case
    using Cons.IH hex_byte_inj by blast
qed

text \<open>The eight bytes of a 64-bit counter, most significant first: \<open>byte(val >> 56)\<close> and so on.\<close>

definition be_bytes64 :: "64 word \<Rightarrow> byte list" where
  "be_bytes64 v = map (\<lambda>k. ucast (drop_bit k v)) [56, 48, 40, 32, 24, 16, 8, 0]"

lemma be_bytes64_length [simp]: "length (be_bytes64 v) = 8"
  by (simp add: be_bytes64_def)

lemma be_bytes64_bit:
  assumes "be_bytes64 v = be_bytes64 w" "n < 64"
  shows "bit v n = bit w n"
proof -
  let ?k = "8 * (n div 8)" and ?i = "n mod 8"
  have n: "n = ?k + ?i" and i: "?i < 8" by simp_all
  have "n div 8 = 0 \<or> n div 8 = 1 \<or> n div 8 = 2 \<or> n div 8 = 3 \<or> n div 8 = 4
      \<or> n div 8 = 5 \<or> n div 8 = 6 \<or> n div 8 = 7"
    using assms(2) by linarith
  then have "?k \<in> set [56, 48, 40, 32, 24, 16, 8, 0]"
    by (elim disjE) (simp_all only: list.set insert_iff, simp_all)
  with assms(1) have "(ucast (drop_bit ?k v) :: byte) = ucast (drop_bit ?k w)"
    unfolding be_bytes64_def map_eq_conv by blast
  then have "bit (ucast (drop_bit ?k v) :: byte) ?i = bit (ucast (drop_bit ?k w) :: byte) ?i"
    by simp
  with i have "bit v (?k + ?i) = bit w (?k + ?i)"
    by (simp add: bit_ucast_iff bit_drop_bit_eq)
  with n show ?thesis by metis
qed

lemma be_bytes64_inj: "be_bytes64 v = be_bytes64 w \<Longrightarrow> v = w"
  by (rule bit_word_eqI) (rule be_bytes64_bit, simp_all)

section \<open>Go maps as association lists\<close>

text \<open>
  A Go map that is iterated or whose length is read is an association list with distinct keys;
  its order is the order one particular \<open>range\<close> loop visits the entries in, which Go leaves
  open. \<open>AList.update\<close> is \<open>m[k] = v\<close>, \<open>AList.delete\<close> is \<open>delete(m, k)\<close>, \<open>map_of\<close> is the lookup.
\<close>

abbreviation map_ok :: "('k \<times> 'v) list \<Rightarrow> bool" where
  "map_ok m \<equiv> distinct (map fst m)"

lemmas alist_lookup [simp, alist_simps] = update_conv' delete_conv'

lemma map_ok_update [simp, alist_simps]: "map_ok m \<Longrightarrow> map_ok (AList.update k v m)"
  by (rule distinct_update)

lemma map_ok_delete [simp, alist_simps]: "map_ok m \<Longrightarrow> map_ok (AList.delete k m)"
  by (rule distinct_delete)

lemma update_not_Nil [simp]: "AList.update k v m \<noteq> []"
  by (cases m) auto

lemma map_of_None_delete: "map_of m k = None \<Longrightarrow> AList.delete k m = m"
  by (simp add: delete_idem map_of_eq_None_iff)

lemma delete_update_fresh: "map_of m k = None \<Longrightarrow> AList.delete k (AList.update k v m) = m"
  by (induction m) (auto simp: AList.delete_eq split: if_splits)

lemma update_same: "map_of m k = Some v \<Longrightarrow> AList.update k v m = m"
  by (induction m) (auto split: if_splits)

lemma update_twice: "AList.update k v (AList.update k w m) = AList.update k v m"
  by (induction m) auto

lemma map_of_Some_in_set: "map_of m k = Some v \<Longrightarrow> (k, v) \<in> set m"
  by (rule map_of_SomeD)

lemma map_ok_in_set: "map_ok m \<Longrightarrow> (k, v) \<in> set m \<longleftrightarrow> map_of m k = Some v"
  by (auto dest: map_of_SomeD)

lemma set_update_cases:
  "(a, b) \<in> set (AList.update k v m) \<Longrightarrow> (a = k \<and> b = v) \<or> (a, b) \<in> set m"
  by (induction m) (auto split: if_splits)

lemma set_delete_subset: "(a, b) \<in> set (AList.delete k m) \<Longrightarrow> (a, b) \<in> set m \<and> a \<noteq> k"
  by (auto simp: AList.delete_eq)

section \<open>Lists\<close>

lemma take_length_le: "take (length xs) ys = xs \<Longrightarrow> length xs \<le> length ys"
  by (metis length_take min.cobounded1)

lemma take_length_nth: "take (length xs) ys = xs \<Longrightarrow> i < length xs \<Longrightarrow> ys ! i = xs ! i"
  by (metis nth_take)

lemma take_length_trans:
  "take (length xs) ys = xs \<Longrightarrow> take (length ys) zs = ys \<Longrightarrow> take (length xs) zs = xs"
  by (metis min.absorb1 take_length_le take_take)

section \<open>Invariants of transition systems\<close>

text \<open>What every step keeps is kept by every run.\<close>

locale kept_by_steps =
  fixes step :: "'s \<Rightarrow> 's \<Rightarrow> bool" and inv :: "'s \<Rightarrow> bool"
  assumes step_keeps: "step s s' \<Longrightarrow> inv s \<Longrightarrow> inv s'"
begin

lemma steps_keep: "step\<^sup>*\<^sup>* s s' \<Longrightarrow> inv s \<Longrightarrow> inv s'"
  by (induction rule: rtranclp_induct) (blast intro: step_keeps)+

end

text \<open>The same for a deterministic step per operation, folded over the operations of a run.\<close>

locale kept_by_ops =
  fixes step :: "'s \<Rightarrow> 'o \<Rightarrow> 's" and admissible :: "'o \<Rightarrow> bool" and inv :: "'s \<Rightarrow> bool"
  assumes op_keeps: "admissible op \<Longrightarrow> inv s \<Longrightarrow> inv (step s op)"
begin

lemma run_keeps: "\<forall>op \<in> set ops. admissible op \<Longrightarrow> inv s \<Longrightarrow> inv (foldl step s ops)"
  by (induction ops arbitrary: s) (simp_all add: op_keeps)

end

sublocale kept_by_ops \<subseteq> kept_by_steps "\<lambda>s s'. \<exists>op. admissible op \<and> s' = step s op" inv
  by unfold_locales (auto intro: op_keeps)

end
