(* ===== verification/Route_Trie.thy ===== *)
theory Route_Trie
  imports Prelude
begin

text \<open>
  The routing table at the level of values: \<open>RouteTarget\<close>, the segments of a route prefix and of
  a request path, and the trie as an immutable tree with its lookup, insertion and removal. The
  tree is the middle layer of the refinement: \<open>Route_Heap\<close> relates the nodes of
  src/pkg/router/trie.go to it, and this theory relates it to a finite map from segment lists to
  targets.
\<close>

section \<open>Targets and segments\<close>

text \<open>
  A parsed \<open>*url.URL\<close>. URLs are never changed after parsing, so the text \<open>u.String()\<close> returns
  is kept as a field beside the two components the sources read.
\<close>

record gurl =
  u_scheme :: string
  u_host :: string
  u_string :: string

record route_target =
  rt_target :: gurl
  rt_strip_prefix :: bool
  rt_prefix :: string
  rt_timeout_ms :: int

abbreviation slash :: char where "slash \<equiv> CHR ''/''"

text \<open>\<open>clean := strings.Trim(prefix, "/")\<close> and its split, as \<open>Add\<close> and \<open>Remove\<close> compute them.\<close>

definition route_segments :: "string \<Rightarrow> string list" where
  "route_segments pre =
     (let clean = trim_slashes pre in if clean \<noteq> [] then split_on slash clean else [])"

text \<open>The non-empty pieces of a request path: what the scanning loop of \<open>Match\<close> walks over.\<close>

definition path_segments :: "string \<Rightarrow> string list" where
  "path_segments path = filter (\<lambda>s. s \<noteq> []) (split_on slash path)"

lemma path_segments_Nil [simp]: "path_segments [] = []"
  by (simp add: path_segments_def)

lemma path_segments_slash [simp]: "path_segments (slash # s) = path_segments s"
  by (simp add: path_segments_def)

lemma path_segments_drop_slashes [simp]:
  "path_segments (dropWhile (\<lambda>c. c = slash) s) = path_segments s"
  by (induction s) auto

lemma split_on_takeWhile:
  "split_on c s = takeWhile (\<lambda>x. x \<noteq> c) s #
     (case dropWhile (\<lambda>x. x \<noteq> c) s of [] \<Rightarrow> [] | _ # t \<Rightarrow> split_on c t)"
  by (induction s) auto

lemma path_segments_step:
  assumes "s \<noteq> []" "hd s \<noteq> slash"
  shows "path_segments s = takeWhile (\<lambda>c. c \<noteq> slash) s #
           path_segments (dropWhile (\<lambda>c. c = slash) (dropWhile (\<lambda>c. c \<noteq> slash) s))"
proof -
  let ?w = "takeWhile (\<lambda>c. c \<noteq> slash) s" and ?r = "dropWhile (\<lambda>c. c \<noteq> slash) s"
  have w: "?w \<noteq> []" using assms by (cases s) auto
  show ?thesis
  proof (cases ?r)
    case Nil
    have "split_on slash s = [?w]"
      by (subst split_on_takeWhile) (simp only: Nil list.case)
    then show ?thesis
      unfolding path_segments_def Nil using w by simp
  next
    case (Cons c t)
    with hd_dropWhile [of "\<lambda>c. c \<noteq> slash" s] have "c = slash" by simp
    have "split_on slash s = ?w # split_on slash t"
      by (subst split_on_takeWhile) (simp only: Cons list.case)
    then have "path_segments s = ?w # path_segments t"
      using w by (simp add: path_segments_def)
    with Cons \<open>c = slash\<close> show ?thesis
      by (simp only: dropWhile.simps simp_thms if_True path_segments_drop_slashes)
  qed
qed

section \<open>The abstract routing table: longest registered prefix\<close>

text \<open>
  \<open>longest_route M segs\<close> is the longest prefix of \<open>segs\<close> registered in \<open>M\<close>, as its length and
  its target.
\<close>

fun longest_route :: "(string list \<Rightarrow> 'a option) \<Rightarrow> string list \<Rightarrow> (nat \<times> 'a) option" where
  "longest_route M [] = map_option (\<lambda>t. (0, t)) (M [])"
| "longest_route M (s # ss) =
     (case longest_route (\<lambda>p. M (s # p)) ss of
        Some (n, t) \<Rightarrow> Some (Suc n, t)
      | None \<Rightarrow> map_option (\<lambda>t. (0, t)) (M []))"

lemma longest_route_empty [simp]: "longest_route (\<lambda>_. None) segs = None"
  by (induction segs) auto

lemma all_between_Suc:
  "(\<forall>m. Suc k < m \<and> m \<le> Suc n \<longrightarrow> P m) \<longleftrightarrow> (\<forall>m. k < m \<and> m \<le> n \<longrightarrow> P (Suc m))"
proof (intro iffI allI impI)
  fix m
  assume "\<forall>m. k < m \<and> m \<le> n \<longrightarrow> P (Suc m)" "Suc k < m \<and> m \<le> Suc n"
  then show "P m" by (cases m) auto
qed auto

lemma all_upto_Suc: "(\<forall>m \<le> Suc n. P m) \<longleftrightarrow> P 0 \<and> (\<forall>m \<le> n. P (Suc m))"
proof (intro iffI allI impI)
  fix m
  assume "P 0 \<and> (\<forall>m \<le> n. P (Suc m))" "m \<le> Suc n"
  then show "P m" by (cases m) auto
qed auto

lemma all_pos_upto_Suc: "(\<forall>m. 0 < m \<and> m \<le> Suc n \<longrightarrow> P m) \<longleftrightarrow> (\<forall>m \<le> n. P (Suc m))"
proof (intro iffI allI impI)
  fix m
  assume "\<forall>m \<le> n. P (Suc m)" "0 < m \<and> m \<le> Suc n"
  then show "P m" by (cases m) auto
qed auto

lemma longest_route_None:
  "longest_route M segs = None \<longleftrightarrow> (\<forall>n \<le> length segs. M (take n segs) = None)"
proof (induction segs arbitrary: M)
  case (Cons s ss)
  have "(\<forall>n \<le> length (s # ss). M (take n (s # ss)) = None) \<longleftrightarrow>
        M [] = None \<and> (\<forall>n \<le> length ss. M (s # take n ss) = None)"
    using all_upto_Suc [of "length ss" "\<lambda>n. M (take n (s # ss)) = None"] by simp
  with Cons.IH [of "\<lambda>p. M (s # p)"] show ?case
    by (auto split: option.splits)
qed simp

lemma longest_route_Some:
  "longest_route M segs = Some (n, t) \<longleftrightarrow>
     n \<le> length segs \<and> M (take n segs) = Some t
     \<and> (\<forall>m. n < m \<and> m \<le> length segs \<longrightarrow> M (take m segs) = None)"
proof (induction segs arbitrary: M n)
  case (Cons s ss)
  show ?case
  proof (cases n)
    case 0
    have *: "(\<forall>m. 0 < m \<and> m \<le> length (s # ss) \<longrightarrow> M (take m (s # ss)) = None) \<longleftrightarrow>
          (\<forall>m \<le> length ss. M (s # take m ss) = None)"
      using all_pos_upto_Suc [of "length ss" "\<lambda>m. M (take m (s # ss)) = None"] by simp
    show ?thesis
      unfolding 0 * using longest_route_None [of "\<lambda>p. M (s # p)" ss]
      by (auto split: option.splits)
  next
    case (Suc k)
    have *: "(\<forall>m. Suc k < m \<and> m \<le> length (s # ss) \<longrightarrow> M (take m (s # ss)) = None) \<longleftrightarrow>
          (\<forall>m. k < m \<and> m \<le> length ss \<longrightarrow> M (s # take m ss) = None)"
      using all_between_Suc [of k "length ss" "\<lambda>m. M (take m (s # ss)) = None"] by simp
    have "longest_route M (s # ss) = Some (Suc k, t) \<longleftrightarrow>
          longest_route (\<lambda>p. M (s # p)) ss = Some (k, t)"
      by (auto split: option.splits)
    also have "\<dots> \<longleftrightarrow> k \<le> length ss \<and> M (s # take k ss) = Some t
        \<and> (\<forall>m. k < m \<and> m \<le> length ss \<longrightarrow> M (s # take m ss) = None)"
      by (rule Cons.IH)
    finally show ?thesis
      unfolding Suc * by (simp del: longest_route.simps)
  qed
qed auto

lemma longest_route_cong:
  assumes "\<And>n. n \<le> length segs \<Longrightarrow> M (take n segs) = M' (take n segs)"
  shows "longest_route M segs = longest_route M' segs"
  using assms
proof (induction segs arbitrary: M M')
  case Nil
  from Nil [of 0] show ?case by simp
next
  case (Cons s ss)
  from Cons.prems [of 0] have "M [] = M' []" by simp
  moreover have "longest_route (\<lambda>p. M (s # p)) ss = longest_route (\<lambda>p. M' (s # p)) ss"
    by (rule Cons.IH) (use Cons.prems [of "Suc _"] in simp)
  ultimately show ?case by (simp only: longest_route.simps)
qed

section \<open>The trie as a tree\<close>

datatype trie = Trie (trie_children: "(string \<times> trie) list")
                     (trie_target: "route_target option") (trie_end: bool)

definition empty_trie :: trie where
  "empty_trie = Trie [] None False"

definition trie_dead :: "trie \<Rightarrow> bool" where
  "trie_dead t \<longleftrightarrow> trie_children t = [] \<and> \<not> trie_end t"

fun trie_lookup :: "trie \<Rightarrow> string list \<Rightarrow> route_target option" where
  "trie_lookup (Trie cs t e) [] = (if e then t else None)"
| "trie_lookup (Trie cs t e) (s # ss) =
     (case map_of cs s of None \<Rightarrow> None | Some c \<Rightarrow> trie_lookup c ss)"

fun trie_add :: "string list \<Rightarrow> route_target \<Rightarrow> trie \<Rightarrow> trie" where
  "trie_add [] rt (Trie cs t e) = Trie cs (Some rt) True"
| "trie_add (s # ss) rt (Trie cs t e) =
     Trie (AList.update s
             (trie_add ss rt (case map_of cs s of None \<Rightarrow> empty_trie | Some c \<Rightarrow> c)) cs) t e"

fun trie_remove :: "string list \<Rightarrow> trie \<Rightarrow> trie option" where
  "trie_remove [] (Trie cs t e) = (if e then Some (Trie cs None False) else None)"
| "trie_remove (s # ss) (Trie cs t e) =
     (case map_of cs s of
        None \<Rightarrow> None
      | Some c \<Rightarrow>
          (case trie_remove ss c of
             None \<Rightarrow> None
           | Some c' \<Rightarrow>
               Some (Trie (if trie_dead c' then AList.delete s cs else AList.update s c' cs) t e)))"

text \<open>
  Well-formed tries: no key twice, a target exactly at the nodes that end a route, and no dead
  node below the root (a leaf that ends no route).
\<close>

inductive trie_ok :: "trie \<Rightarrow> bool" where
  trie_okI: "map_ok cs \<Longrightarrow> (e \<longleftrightarrow> t \<noteq> None) \<Longrightarrow>
     (\<And>k c. (k, c) \<in> set cs \<Longrightarrow> trie_ok c \<and> \<not> trie_dead c) \<Longrightarrow> trie_ok (Trie cs t e)"

inductive_simps trie_ok_Trie [simp]: "trie_ok (Trie cs t e)"

lemma trie_ok_empty [simp]: "trie_ok empty_trie"
  by (simp add: empty_trie_def)

lemma trie_lookup_empty [simp]: "trie_lookup empty_trie ss = None"
  by (cases ss) (simp_all add: empty_trie_def)

lemma trie_dead_iff: "trie_dead t \<longleftrightarrow> (case t of Trie cs _ e \<Rightarrow> cs = [] \<and> \<not> e)"
  by (cases t) (simp add: trie_dead_def)

lemma trie_dead_lookup: "trie_dead t \<Longrightarrow> trie_lookup t ss = None"
  by (cases t; cases ss) (auto simp: trie_dead_def)

lemma trie_add_not_dead [simp]: "\<not> trie_dead (trie_add ss rt t)"
  by (cases t; cases ss) (auto simp: trie_dead_def)

lemma trie_lookup_add:
  "trie_lookup (trie_add ss rt t) qs = (if qs = ss then Some rt else trie_lookup t qs)"
proof (induction ss arbitrary: t qs)
  case Nil
  then show ?case by (cases t; cases qs) auto
next
  case (Cons s ss)
  obtain cs tt e where t: "t = Trie cs tt e" by (cases t)
  show ?case
    unfolding t
    by (cases qs) (auto simp: Cons.IH split: option.splits)
qed

lemma trie_remove_None:
  "trie_ok t \<Longrightarrow> trie_remove ss t = None \<longleftrightarrow> trie_lookup t ss = None"
proof (induction ss arbitrary: t)
  case Nil
  then show ?case by (cases t) auto
next
  case (Cons s ss)
  obtain cs tt e where t: "t = Trie cs tt e" by (cases t)
  show ?case
  proof (cases "map_of cs s")
    case (Some c)
    with Cons.prems t have "trie_ok c" by (auto dest: map_of_SomeD)
    with Cons.IH [of c] Some t show ?thesis by (auto split: option.splits)
  qed (simp add: t)
qed

lemma trie_lookup_remove:
  assumes "trie_ok t" "trie_remove ss t = Some t'"
  shows "trie_lookup t' qs = (if qs = ss then None else trie_lookup t qs)"
  using assms
proof (induction ss arbitrary: t t' qs)
  case Nil
  then show ?case by (cases t; cases qs) (auto split: if_splits)
next
  case (Cons s ss)
  obtain cs tt e where t: "t = Trie cs tt e" by (cases t)
  from Cons.prems(2) t obtain c c' where c: "map_of cs s = Some c" "trie_remove ss c = Some c'"
    and t': "t' = Trie (if trie_dead c' then AList.delete s cs else AList.update s c' cs) tt e"
    by (auto split: option.splits)
  from Cons.prems(1) t c(1) have "trie_ok c" by (auto dest: map_of_SomeD)
  note IH = Cons.IH [OF this c(2)]
  show ?case
  proof (cases qs)
    case Nil
    with t t' show ?thesis by simp
  next
    case (Cons q qs')
    show ?thesis
      using IH [of qs'] trie_dead_lookup [of c' qs'] c(1)
      by (auto simp: t t' Cons)
  qed
qed

lemma trie_ok_add: "trie_ok t \<Longrightarrow> trie_ok (trie_add ss rt t)"
proof (induction ss arbitrary: t)
  case Nil
  then show ?case by (cases t) auto
next
  case (Cons s ss)
  obtain cs tt e where t: "t = Trie cs tt e" by (cases t)
  let ?c = "case map_of cs s of None \<Rightarrow> empty_trie | Some c \<Rightarrow> c"
  have "trie_ok ?c"
    using Cons.prems t by (auto split: option.splits dest: map_of_SomeD)
  then have "trie_ok (trie_add ss rt ?c)" by (rule Cons.IH)
  with Cons.prems show ?case
    by (auto simp: t dest!: set_update_cases)
qed

lemma trie_ok_remove:
  assumes "trie_ok t" "trie_remove ss t = Some t'"
  shows "trie_ok t'"
  using assms
proof (induction ss arbitrary: t t')
  case Nil
  then show ?case by (cases t) (auto split: if_splits)
next
  case (Cons s ss)
  obtain cs tt e where t: "t = Trie cs tt e" by (cases t)
  from Cons.prems(2) t obtain c c' where c: "map_of cs s = Some c" "trie_remove ss c = Some c'"
    and t': "t' = Trie (if trie_dead c' then AList.delete s cs else AList.update s c' cs) tt e"
    by (auto split: option.splits)
  from Cons.prems(1) t c(1) have "trie_ok c" by (auto dest: map_of_SomeD)
  then have "trie_ok c'" using c(2) by (rule Cons.IH)
  with Cons.prems(1) t t' show ?case
    by (auto dest!: set_update_cases set_delete_subset)
qed

text \<open>Adding a new route and removing it again restores the very tree there was before.\<close>

lemma trie_remove_add:
  assumes "trie_ok t" "trie_lookup t ss = None"
  shows "trie_remove ss (trie_add ss rt t) = Some t"
  using assms
proof (induction ss arbitrary: t)
  case Nil
  then show ?case by (cases t) (auto split: if_splits)
next
  case (Cons s ss)
  obtain cs tt e where t: "t = Trie cs tt e" by (cases t)
  show ?case
  proof (cases "map_of cs s")
    case None
    have "trie_remove ss (trie_add ss rt empty_trie) = Some empty_trie"
      by (rule Cons.IH) simp_all
    with None show ?thesis
      by (simp add: t delete_update_fresh) (simp add: empty_trie_def trie_dead_def)
  next
    case (Some c)
    with Cons.prems t have c: "trie_ok c" "\<not> trie_dead c" "trie_lookup c ss = None"
      by (auto dest: map_of_SomeD)
    with Cons.IH [of c] Some show ?thesis
      by (simp add: t update_twice update_same)
  qed
qed

text \<open>Without dead nodes, every branch of the tree leads to a route.\<close>

lemma trie_not_dead_route:
  "trie_ok t \<Longrightarrow> \<not> trie_dead t \<Longrightarrow> \<exists>ss rt. trie_lookup t ss = Some rt"
proof (induction rule: trie_ok.induct)
  case (trie_okI cs e t)
  show ?case
  proof (cases e)
    case True
    with trie_okI(2) obtain rt where "t = Some rt" by auto
    with True have "trie_lookup (Trie cs t e) [] = Some rt" by simp
    then show ?thesis by blast
  next
    case False
    with trie_okI.prems obtain k c cs' where cs: "cs = (k, c) # cs'"
      by (cases cs) (auto simp: trie_dead_def)
    with trie_okI(3) [of k c] obtain ss rt where "trie_lookup c ss = Some rt" by auto
    with cs have "trie_lookup (Trie cs t e) (k # ss) = Some rt" by simp
    then show ?thesis by blast
  qed
qed

end
