(* ===== verification/Route_Heap.thy ===== *)
theory Route_Heap
  imports Route_Trie
begin

text \<open>
  The router of src/pkg/router/trie.go at the level of the code: nodes are cells of a heap, child
  maps hold addresses, \<open>clone\<close> allocates, and \<open>Add\<close> and \<open>Remove\<close> write to the fresh copies
  along one path before the root pointer is stored. The theory shows that the operations refine
  insertion and removal of the tree of \<open>Route_Trie\<close> (and with it updates of a finite map), and
  that no cell which existed before an operation is ever written, so a reader that loaded the old
  root keeps seeing the old routes.
\<close>

section \<open>Nodes and the heap\<close>

record trie_node =
  tn_children :: "(string \<times> nat) list"
  tn_target :: "route_target option"
  tn_is_end :: bool

text \<open>An address is a position of the heap; allocation appends.\<close>

type_synonym trie_heap = "trie_node list"

record router =
  rt_heap :: trie_heap
  rt_root :: "nat option"

definition fresh_node :: trie_node where
  "fresh_node = \<lparr>tn_children = [], tn_target = None, tn_is_end = False\<rparr>"

definition alloc :: "trie_heap \<Rightarrow> trie_node \<Rightarrow> trie_heap \<times> nat" where
  "alloc h n = (h @ [n], length h)"

text \<open>\<open>(*TrieNode).clone\<close>, nil receiver included.\<close>

definition node_clone :: "trie_heap \<Rightarrow> nat option \<Rightarrow> trie_heap \<times> nat" where
  "node_clone h n =
     (case n of
        None \<Rightarrow> alloc h fresh_node
      | Some a \<Rightarrow> alloc h \<lparr>tn_children = tn_children (h ! a), tn_target = tn_target (h ! a),
                          tn_is_end = tn_is_end (h ! a)\<rparr>)"

definition new_router :: "trie_heap \<Rightarrow> router" where
  "new_router h = (let (h1, root) = alloc h fresh_node in \<lparr>rt_heap = h1, rt_root = Some root\<rparr>)"

section \<open>Adding a route\<close>

text \<open>The loop over the segments: clone or create the child, link it, descend.\<close>

fun add_walk :: "trie_heap \<Rightarrow> nat \<Rightarrow> string list \<Rightarrow> trie_heap \<times> nat" where
  "add_walk h cur [] = (h, cur)"
| "add_walk h cur (seg # segs) =
     (let (h1, next_node) = node_clone h (map_of (tn_children (h ! cur)) seg);
          h2 = h1[cur := (h1 ! cur)\<lparr>tn_children :=
                  AList.update seg next_node (tn_children (h1 ! cur))\<rparr>]
      in add_walk h2 next_node segs)"

definition add_with_timeout :: "router \<Rightarrow> string \<Rightarrow> gurl \<Rightarrow> bool \<Rightarrow> int \<Rightarrow> router" where
  "add_with_timeout r pre target_url strip timeout_ms =
     (let clean = trim_slashes pre;
          segments = (if clean \<noteq> [] then split_on slash clean else []);
          (h1, new_root) = node_clone (rt_heap r) (rt_root r);
          (h2, cur) = add_walk h1 new_root segments;
          h3 = h2[cur := (h2 ! cur)\<lparr>
                 tn_target := Some \<lparr>rt_target = target_url, rt_strip_prefix = strip,
                                   rt_prefix = slash # clean, rt_timeout_ms = timeout_ms\<rparr>,
                 tn_is_end := True\<rparr>]
      in \<lparr>rt_heap = h3, rt_root = Some new_root\<rparr>)"

definition add_route :: "router \<Rightarrow> string \<Rightarrow> gurl \<Rightarrow> bool \<Rightarrow> router" where
  "add_route r pre target_url strip = add_with_timeout r pre target_url strip 0"

section \<open>Removing a route\<close>

text \<open>
  The walk down: \<open>Inl\<close> is the early \<open>return false\<close> for a missing segment; the cloned path is a
  stack with the last step first.
\<close>

fun remove_walk ::
  "trie_heap \<Rightarrow> nat \<Rightarrow> string list \<Rightarrow> (nat \<times> string) list
     \<Rightarrow> trie_heap + trie_heap \<times> nat \<times> (nat \<times> string) list" where
  "remove_walk h cur [] path = Inr (h, cur, path)"
| "remove_walk h cur (seg # segs) path =
     (case map_of (tn_children (h ! cur)) seg of
        None \<Rightarrow> Inl h
      | Some child \<Rightarrow>
          (let (h1, new_child) = node_clone h (Some child);
               h2 = h1[cur := (h1 ! cur)\<lparr>tn_children :=
                       AList.update seg new_child (tn_children (h1 ! cur))\<rparr>]
           in remove_walk h2 new_child segs ((new_child, seg) # path)))"

text \<open>The loop that prunes dead nodes bottom-up and stops at the first live one.\<close>

fun prune_path :: "trie_heap \<Rightarrow> (nat \<times> string) list \<Rightarrow> trie_heap" where
  "prune_path h ((n, seg) # (parent, pseg) # path) =
     (if tn_children (h ! n) = [] \<and> \<not> tn_is_end (h ! n)
      then prune_path (h[parent := (h ! parent)\<lparr>tn_children :=
                           AList.delete seg (tn_children (h ! parent))\<rparr>]) ((parent, pseg) # path)
      else h)"
| "prune_path h _ = h"

definition remove_route :: "router \<Rightarrow> string \<Rightarrow> bool \<times> router" where
  "remove_route r pre =
     (let clean = trim_slashes pre;
          segments = (if clean \<noteq> [] then split_on slash clean else [])
      in case rt_root r of
           None \<Rightarrow> (False, r)
         | Some old_root \<Rightarrow>
             (let (h1, new_root) = node_clone (rt_heap r) (Some old_root)
              in case remove_walk h1 new_root segments [(new_root, [])] of
                   Inl h2 \<Rightarrow> (False, r\<lparr>rt_heap := h2\<rparr>)
                 | Inr (h2, cur, path) \<Rightarrow>
                     if \<not> tn_is_end (h2 ! cur) then (False, r\<lparr>rt_heap := h2\<rparr>)
                     else (let h3 = h2[cur := (h2 ! cur)\<lparr>tn_is_end := False, tn_target := None\<rparr>]
                           in (True, \<lparr>rt_heap = prune_path h3 path, rt_root = Some new_root\<rparr>))))"

section \<open>What a heap represents\<close>

text \<open>
  \<open>repr h a t\<close>: the cells reachable from address \<open>a\<close> unfold to the tree \<open>t\<close>. Cells may be shared
  between several trees; that is the point of path copying.
\<close>

inductive repr :: "trie_heap \<Rightarrow> nat \<Rightarrow> trie \<Rightarrow> bool" for h where
  reprI: "a < length h \<Longrightarrow>
     list_all2 (\<lambda>ka kt. fst ka = fst kt \<and> repr h (snd ka) (snd kt)) (tn_children (h ! a)) cs \<Longrightarrow>
     repr h a (Trie cs (tn_target (h ! a)) (tn_is_end (h ! a)))"

inductive_simps repr_Trie: "repr h a (Trie cs t e)"

text \<open>All child addresses of the cells below \<open>b\<close> lie below \<open>b\<close>.\<close>

definition closed_below :: "trie_heap \<Rightarrow> nat \<Rightarrow> bool" where
  "closed_below h b \<longleftrightarrow> b \<le> length h \<and>
     (\<forall>a < b. \<forall>ka \<in> set (tn_children (h ! a)). snd ka < b)"

text \<open>\<open>h'\<close> agrees with \<open>h\<close> on all cells below \<open>b\<close>, except possibly at \<open>c\<close>.\<close>

definition frame :: "nat \<Rightarrow> nat \<Rightarrow> trie_heap \<Rightarrow> trie_heap \<Rightarrow> bool" where
  "frame c b h h' \<longleftrightarrow> length h \<le> length h' \<and> (\<forall>a < b. a \<noteq> c \<longrightarrow> h' ! a = h ! a)"

fun heap_lookup :: "trie_heap \<Rightarrow> nat \<Rightarrow> string list \<Rightarrow> route_target option" where
  "heap_lookup h a [] = (if tn_is_end (h ! a) then tn_target (h ! a) else None)"
| "heap_lookup h a (s # ss) =
     (case map_of (tn_children (h ! a)) s of None \<Rightarrow> None | Some b \<Rightarrow> heap_lookup h b ss)"

text \<open>The routing table a router stands for, as a finite map from segment lists to targets.\<close>

definition router_routes :: "router \<Rightarrow> string list \<Rightarrow> route_target option" where
  "router_routes r segs =
     (case rt_root r of None \<Rightarrow> None | Some a \<Rightarrow> heap_lookup (rt_heap r) a segs)"

definition router_inv :: "router \<Rightarrow> bool" where
  "router_inv r \<longleftrightarrow> (\<exists>a t. rt_root r = Some a \<and> repr (rt_heap r) a t \<and> trie_ok t
     \<and> closed_below (rt_heap r) (length (rt_heap r)))"

lemma repr_bound: "repr h a t \<Longrightarrow> a < length h"
  by (cases rule: repr.cases)

lemma list_all2_map_of:
  assumes "list_all2 (\<lambda>ka kt. fst ka = fst kt \<and> P (snd ka) (snd kt)) as ts"
  shows "rel_option P (map_of as k) (map_of ts k)"
  using assms by (induction rule: list_all2_induct) (auto split: prod.splits)

lemma repr_lookup: "repr h a t \<Longrightarrow> heap_lookup h a ss = trie_lookup t ss"
proof (induction ss arbitrary: a t)
  case Nil
  then show ?case by (cases t) (auto simp: repr_Trie)
next
  case (Cons s ss)
  obtain cs tt e where t: "t = Trie cs tt e" by (cases t)
  have "rel_option (repr h) (map_of (tn_children (h ! a)) s) (map_of cs s)"
    using Cons.prems unfolding t repr_Trie by (intro list_all2_map_of) auto
  with Cons.IH t show ?case
    by (auto simp: option_rel_Some1 split: option.splits elim!: option.rel_cases)
qed

lemma repr_frame:
  assumes "repr h a t" "a < b" "closed_below h b" "\<And>x. x < b \<Longrightarrow> h' ! x = h ! x"
    and "b \<le> length h'"
  shows "repr h' a t"
  using assms(1,2)
proof (induction rule: repr.induct)
  case (reprI a cs)
  have child: "snd ka < b" if "ka \<in> set (tn_children (h ! a))" for ka
    using assms(3) reprI.prems that by (auto simp: closed_below_def)
  have "list_all2 (\<lambda>ka kt. fst ka = fst kt \<and> repr h' (snd ka) (snd kt)) (tn_children (h ! a)) cs"
    using reprI.IH by (rule list.rel_mono_strong) (use child in auto)
  moreover have "h' ! a = h ! a" "a < length h'"
    using assms(4,5) reprI.prems by auto
  ultimately show ?case
    using repr.reprI [of a h' cs] by simp
qed

lemma list_all2_update:
  assumes "list_all2 (\<lambda>ka kt. fst ka = fst kt \<and> P (snd ka) (snd kt)) as ts" "P a t"
  shows "list_all2 (\<lambda>ka kt. fst ka = fst kt \<and> P (snd ka) (snd kt))
           (AList.update k a as) (AList.update k t ts)"
  using assms by (induction rule: list_all2_induct) auto

lemma list_all2_delete:
  assumes "list_all2 (\<lambda>ka kt. fst ka = fst kt \<and> P (snd ka) (snd kt)) as ts"
  shows "list_all2 (\<lambda>ka kt. fst ka = fst kt \<and> P (snd ka) (snd kt))
           (AList.delete k as) (AList.delete k ts)"
  using assms by (induction rule: list_all2_induct) (auto simp: AList.delete_eq)

lemma closed_belowD:
  "closed_below h b \<Longrightarrow> a < b \<Longrightarrow> (k, x) \<in> set (tn_children (h ! a)) \<Longrightarrow> x < b"
  unfolding closed_below_def by (metis snd_conv)

lemma closed_below_update:
  assumes "closed_below h b" "\<forall>ka \<in> set (tn_children x). snd ka < b"
  shows "closed_below (h[c := x]) b"
  unfolding closed_below_def
proof (intro conjI allI impI)
  fix a
  assume "a < b"
  moreover have "h[c := x] ! a = h ! a \<or> h[c := x] ! a = x"
    by (cases "a = c"; cases "c < length h") (auto simp: list_update_beyond)
  ultimately show "\<forall>ka \<in> set (tn_children (h[c := x] ! a)). snd ka < b"
    using assms by (metis closed_below_def)
qed (use assms in \<open>simp add: closed_below_def\<close>)

lemma closed_below_update_above: "closed_below h b \<Longrightarrow> b \<le> c \<Longrightarrow> closed_below (h[c := x]) b"
  by (simp add: closed_below_def)

section \<open>Fresh copies\<close>

text \<open>
  \<open>owned h b c t\<close>: cell \<open>c\<close> is a private copy (at or above \<open>b\<close>) that represents \<open>t\<close>, and its
  children are still the shared cells below \<open>b\<close>.
\<close>

definition owned :: "trie_heap \<Rightarrow> nat \<Rightarrow> nat \<Rightarrow> trie \<Rightarrow> bool" where
  "owned h b c t \<longleftrightarrow> b \<le> c \<and> c < length h \<and> closed_below h b \<and> closed_below h (length h)
     \<and> (\<forall>ka \<in> set (tn_children (h ! c)). snd ka < b) \<and> repr h c t"

definition shared_child :: "trie_heap \<Rightarrow> nat \<Rightarrow> nat option \<Rightarrow> trie option \<Rightarrow> bool" where
  "shared_child h b co ct \<longleftrightarrow> rel_option (\<lambda>a t. a < b \<and> repr h a t) co ct"

lemma node_clone_addr [simp]: "snd (node_clone h co) = length h"
  by (simp add: node_clone_def alloc_def split: option.split)

lemma node_clone_eqD: "node_clone h co = (h1, n) \<Longrightarrow> n = length h"
  by (metis node_clone_addr snd_conv)

lemma node_clone_owned:
  assumes "shared_child h b co ct" "closed_below h b" "closed_below h (length h)"
  shows "fst (node_clone h co) = h @ [fst (node_clone h co) ! length h]"
    and "owned (fst (node_clone h co)) b (length h) (case ct of None \<Rightarrow> empty_trie | Some t \<Rightarrow> t)"
proof -
  show "fst (node_clone h co) = h @ [fst (node_clone h co) ! length h]"
    by (auto simp: node_clone_def alloc_def split: option.splits)
  show "owned (fst (node_clone h co)) b (length h) (case ct of None \<Rightarrow> empty_trie | Some t \<Rightarrow> t)"
  proof (cases co)
    case None
    with assms show ?thesis
      by (auto simp: shared_child_def node_clone_def alloc_def owned_def fresh_node_def
          closed_below_def nth_append empty_trie_def repr_Trie less_Suc_eq)
  next
    case (Some a)
    with assms obtain t where ct: "ct = Some t" and a: "a < b" "repr h a t"
      by (auto simp: shared_child_def option_rel_Some1)
    obtain cs tt e where t: "t = Trie cs tt e" by (cases t)
    let ?h' = "h @ [h ! a]"
    have ch: "snd ka < b" if "ka \<in> set (tn_children (h ! a))" for ka
      using assms(2) a that by (auto simp: closed_below_def)
    have fr: "repr ?h' x u" if "repr h x u" "x < b" for x u
      using that(1,2) assms(2) by (rule repr_frame) (use assms(2) in \<open>auto simp: closed_below_def nth_append\<close>)
    from a(2) t have "list_all2 (\<lambda>ka kt. fst ka = fst kt \<and> repr h (snd ka) (snd kt))
        (tn_children (h ! a)) cs" "tt = tn_target (h ! a)" "e = tn_is_end (h ! a)"
      by (auto simp: repr_Trie)
    moreover from this(1) have "list_all2 (\<lambda>ka kt. fst ka = fst kt \<and> repr ?h' (snd ka) (snd kt))
        (tn_children (h ! a)) cs"
      by (rule list.rel_mono_strong) (use ch fr in auto)
    ultimately have "repr ?h' (length h) t"
      by (simp add: t repr_Trie)
    moreover have "closed_below ?h' b" "closed_below ?h' (length ?h')"
      using assms(2,3) ch by (auto simp: closed_below_def nth_append less_Suc_eq)
        (meson ch less_le_trans less_SucI)+
    moreover have "node_clone h (Some a) = (?h', length h)"
      by (simp add: node_clone_def alloc_def)
    ultimately show ?thesis
      using Some ct ch assms(2) by (auto simp: owned_def closed_below_def nth_append)
  qed
qed

lemma owned_update_other:
  assumes "owned h b n t" "b \<le> c" "c \<noteq> n"
    and "\<forall>ka \<in> set (tn_children x). snd ka < length h"
  shows "owned (h[c := x]) b n t"
proof -
  have "closed_below (h[c := x]) b" "closed_below (h[c := x]) (length (h[c := x]))"
    using assms closed_below_update [of h "length h" x c]
    by (auto simp: owned_def intro: closed_below_update_above)
  moreover have "repr (h[c := x]) n t"
  proof -
    obtain cs tt e where t: "t = Trie cs tt e" by (cases t)
    have "repr (h[c := x]) y u" if "repr h y u" "y < b" for y u
      using that(1,2) _ by (rule repr_frame) (use assms in \<open>auto simp: owned_def closed_below_def\<close>)
    with assms(1,3) show ?thesis
      unfolding t owned_def repr_Trie
      by (auto elim!: list.rel_mono_strong)
  qed
  ultimately show ?thesis
    using assms by (auto simp: owned_def)
qed

lemma owned_child:
  assumes "owned h b c (Trie cs t e)"
  shows "shared_child h b (map_of (tn_children (h ! c)) s) (map_of cs s)"
proof -
  have "list_all2 (\<lambda>ka kt. fst ka = fst kt \<and> snd ka < b \<and> repr h (snd ka) (snd kt))
      (tn_children (h ! c)) cs"
    using assms unfolding owned_def repr_Trie
    by (auto elim!: list.rel_mono_strong)
  then show ?thesis
    unfolding shared_child_def by (rule list_all2_map_of)
qed

text \<open>
  One step of either walk: the child is copied and the copy is linked into the private parent.
\<close>

definition descend :: "trie_heap \<Rightarrow> nat \<Rightarrow> string \<Rightarrow> trie_heap" where
  "descend h c s =
     (let (h1, n) = node_clone h (map_of (tn_children (h ! c)) s)
      in h1[c := (h1 ! c)\<lparr>tn_children := AList.update s n (tn_children (h1 ! c))\<rparr>])"

lemma descend_owned:
  assumes own: "owned h b c (Trie cs t e)"
  shows "owned (descend h c s) b (length h) (case map_of cs s of None \<Rightarrow> empty_trie | Some u \<Rightarrow> u)"
    and "length (descend h c s) = Suc (length h)"
    and "descend h c s ! c = (h ! c)\<lparr>tn_children := AList.update s (length h) (tn_children (h ! c))\<rparr>"
    and "frame c (length h) h (descend h c s)"
    and "closed_below (descend h c s) b"
proof -
  let ?co = "map_of (tn_children (h ! c)) s"
  have c: "b \<le> c" "c < length h" "closed_below h b" "closed_below h (length h)"
    "\<forall>ka \<in> set (tn_children (h ! c)). snd ka < b"
    using own by (auto simp: owned_def)
  note cl = node_clone_owned [OF owned_child [OF own] c(3,4), of s]
  define x where "x = fst (node_clone h ?co) ! length h"
  have eq: "node_clone h ?co = (h @ [x], length h)"
    using cl(1) unfolding x_def by (metis node_clone_addr prod.collapse)
  let ?n = "(h ! c)\<lparr>tn_children := AList.update s (length h) (tn_children (h ! c))\<rparr>"
  have d: "descend h c s = (h @ [x])[c := ?n]"
    using c by (simp add: descend_def eq nth_append)
  have "\<forall>ka \<in> set (tn_children ?n). snd ka < length (h @ [x])"
    using c by (auto dest!: set_update_cases)
  with cl(2) c show "owned (descend h c s) b (length h)
      (case map_of cs s of None \<Rightarrow> empty_trie | Some u \<Rightarrow> u)"
    unfolding d eq fst_conv by (intro owned_update_other) auto
  then show "closed_below (descend h c s) b"
    by (simp add: owned_def)
  show "length (descend h c s) = Suc (length h)" "descend h c s ! c = ?n"
    "frame c (length h) h (descend h c s)"
    using c by (simp_all add: d frame_def nth_append)
qed

lemma add_walk_Cons: "add_walk h c (s # ss) = add_walk (descend h c s) (length h) ss"
  by (auto simp: descend_def Let_def dest: node_clone_eqD split: prod.split)

lemma frame_trans:
  "frame c b h h' \<Longrightarrow> frame d b' h' h'' \<Longrightarrow> b \<le> b' \<Longrightarrow> b \<le> d \<Longrightarrow> frame c b h h''"
  by (auto simp: frame_def)

text \<open>The children that were shared before stay represented in a heap that frames them.\<close>

lemma owned_children_frame:
  assumes "owned h b c (Trie cs t e)" "frame c (length h) h h'"
  shows "list_all2 (\<lambda>ka kt. fst ka = fst kt \<and> repr h' (snd ka) (snd kt)) (tn_children (h ! c)) cs"
proof -
  have "repr h' y u" if "repr h y u" "y < b" for y u
    using that(1,2) _ by (rule repr_frame) (use assms in \<open>auto simp: owned_def closed_below_def frame_def\<close>)
  with assms(1) show ?thesis
    unfolding owned_def repr_Trie by (auto elim!: list.rel_mono_strong)
qed

definition add_at :: "trie_heap \<Rightarrow> nat \<Rightarrow> string list \<Rightarrow> route_target \<Rightarrow> trie_heap" where
  "add_at h c segs rt =
     (let (h2, cur) = add_walk h c segs
      in h2[cur := (h2 ! cur)\<lparr>tn_target := Some rt, tn_is_end := True\<rparr>])"

lemma add_at_refines:
  assumes "owned h b c t"
  shows "repr (add_at h c segs rt) c (trie_add segs rt t)
    \<and> frame c (length h) h (add_at h c segs rt)
    \<and> closed_below (add_at h c segs rt) (length (add_at h c segs rt))"
  using assms
proof (induction segs arbitrary: h c t)
  case Nil
  obtain cs tt e where t: "t = Trie cs tt e" by (cases t)
  let ?x = "(h ! c)\<lparr>tn_target := Some rt, tn_is_end := True\<rparr>"
  have eq: "add_at h c [] rt = h[c := ?x]" by (simp add: add_at_def)
  have fr: "frame c (length h) h (h[c := ?x])" by (simp add: frame_def)
  have "closed_below (h[c := ?x]) (length h)"
    using Nil by (intro closed_below_update) (auto simp: owned_def closed_below_def)
  with owned_children_frame [OF Nil [unfolded t] fr] Nil t fr show ?case
    by (simp add: eq repr_Trie owned_def)
next
  case (Cons s ss)
  obtain cs tt e where t: "t = Trie cs tt e" by (cases t)
  let ?h1 = "descend h c s" and ?h' = "add_at h c (s # ss) rt"
  let ?u = "case map_of cs s of None \<Rightarrow> empty_trie | Some u \<Rightarrow> u"
  note own = Cons.prems [unfolded t]
  note d = descend_owned [OF own, of s]
  have c: "c < length h" "closed_below h b" "closed_below h (length h)"
    using own by (auto simp: owned_def)
  have h': "?h' = add_at ?h1 (length h) ss rt"
    by (simp add: add_at_def add_walk_Cons del: add_walk.simps)
  have IH: "repr ?h' (length h) (trie_add ss rt ?u)" "frame (length h) (length ?h1) ?h1 ?h'"
    "closed_below ?h' (length ?h')"
    using Cons.IH [OF d(1)] by (simp_all add: h')
  have fr: "frame c (length h) h ?h'"
    using frame_trans [OF d(4) IH(2)] d(2) by simp
  have "?h' ! c = ?h1 ! c" "c < length ?h'"
    using IH(2) c(1) d(2) by (auto simp: frame_def)
  with d(3) have hc: "?h' ! c = (h ! c)\<lparr>tn_children := AList.update s (length h) (tn_children (h ! c))\<rparr>"
    by simp
  have "list_all2 (\<lambda>ka kt. fst ka = fst kt \<and> repr ?h' (snd ka) (snd kt))
      (AList.update s (length h) (tn_children (h ! c))) (AList.update s (trie_add ss rt ?u) cs)"
    using owned_children_frame [OF own fr] IH(1) by (rule list_all2_update)
  with hc \<open>c < length ?h'\<close> own fr IH(3) show ?case
    by (simp add: t repr_Trie owned_def)
qed

section \<open>Removal refines removal on trees\<close>

definition clear_route :: "trie_heap \<Rightarrow> nat \<Rightarrow> trie_heap" where
  "clear_route h c = h[c := (h ! c)\<lparr>tn_is_end := False, tn_target := None\<rparr>]"

lemma remove_walk_Cons: "remove_walk h c (s # ss) path =
    (if map_of (tn_children (h ! c)) s = None then Inl h
     else remove_walk (descend h c s) (length h) ss ((length h, s) # path))"
  by (auto simp: descend_def Let_def dest: node_clone_eqD split: prod.split option.split)

lemma delete_update: "AList.delete k (AList.update k v m) = AList.delete k m"
  by (induction m) (auto simp: AList.delete_eq)

text \<open>
  What a finished walk over \<open>segs\<close> from the private cell \<open>c\<close> guarantees: either the tree has no
  such route, or clearing the last node and pruning leaves a heap \<open>h3\<close> in which \<open>c\<close> represents
  the tree without the route, with the pruning still to be continued at \<open>c\<close>.
\<close>

definition removal_ok ::
  "trie_heap \<Rightarrow> nat \<Rightarrow> string list \<Rightarrow> trie \<Rightarrow> (nat \<times> string) list \<Rightarrow> bool" where
  "removal_ok h c segs t path \<longleftrightarrow>
     (case remove_walk h c segs path of
        Inl h' \<Rightarrow> trie_remove segs t = None \<and> frame c (length h) h h' \<and> closed_below h' (length h')
      | Inr (h', cur, path') \<Rightarrow>
          if \<not> tn_is_end (h' ! cur)
          then trie_remove segs t = None \<and> frame c (length h) h h' \<and> closed_below h' (length h')
          else (\<exists>t' h3. trie_remove segs t = Some t'
                  \<and> prune_path (clear_route h' cur) path' = prune_path h3 path
                  \<and> repr h3 c t' \<and> frame c (length h) h h3 \<and> closed_below h3 (length h3)))"

lemma prune_path_live:
  "tn_children (h ! c) \<noteq> [] \<Longrightarrow> prune_path h ((c, s) # rest) = h"
  by (cases rest) auto

lemma repr_dead_iff:
  "repr h c t \<Longrightarrow> trie_dead t \<longleftrightarrow> tn_children (h ! c) = [] \<and> \<not> tn_is_end (h ! c)"
  by (cases t) (auto simp: repr_Trie trie_dead_def)

lemma removal_ok_Nil:
  assumes "owned h b c t"
  shows "removal_ok h c [] t ((c, s0) # rest)"
proof -
  obtain cs tt e where t: "t = Trie cs tt e" by (cases t)
  have fr: "frame c (length h) h h" "frame c (length h) h (clear_route h c)"
    by (simp_all add: frame_def clear_route_def)
  have "closed_below (clear_route h c) (length h)"
    using assms unfolding clear_route_def
    by (intro closed_below_update) (auto simp: owned_def closed_below_def)
  moreover have "repr (clear_route h c) c (Trie cs None False)"
    using owned_children_frame [OF assms [unfolded t] fr(2)] assms
    by (simp add: repr_Trie clear_route_def owned_def)
  ultimately show ?thesis
    using assms fr t unfolding removal_ok_def
    by (auto simp: owned_def repr_Trie clear_route_def)
qed

lemma removal_ok_link:
  assumes own: "owned h b c (Trie cs tt e)" and u: "map_of cs s = Some u"
    and u': "trie_remove ss u = Some u'"
    and fr3: "frame (length h) (Suc (length h)) (descend h c s) h3"
    and r3: "repr h3 (length h) u'" and cl3: "closed_below h3 (length h3)"
  shows "\<exists>t' h4. trie_remove (s # ss) (Trie cs tt e) = Some t'
    \<and> prune_path h3 ((length h, s) # (c, s0) # rest) = prune_path h4 ((c, s0) # rest)
    \<and> repr h4 c t' \<and> frame c (length h) h h4 \<and> closed_below h4 (length h4)"
proof -
  note d = descend_owned [OF own, of s]
  have c: "c < length h" using own by (simp add: owned_def)
  have hc: "h3 ! c = (h ! c)\<lparr>tn_children := AList.update s (length h) (tn_children (h ! c))\<rparr>"
    and len: "Suc (length h) \<le> length h3"
    using fr3 c d(2,3) by (auto simp: frame_def)
  have fr: "frame c (length h) h h3"
    using frame_trans [OF d(4) fr3] by simp
  show ?thesis
  proof (cases "trie_dead u'")
    case True
    let ?x = "(h3 ! c)\<lparr>tn_children := AList.delete s (tn_children (h3 ! c))\<rparr>"
    let ?h4 = "h3[c := ?x]"
    have fr4: "frame c (length h) h ?h4"
      using fr by (auto simp: frame_def)
    have "closed_below ?h4 (length h3)"
      using cl3 closed_belowD [OF cl3, of c] c len
      by (intro closed_below_update) (auto dest!: set_delete_subset)
    moreover have "repr ?h4 c (Trie (AList.delete s cs) tt e)"
      using list_all2_delete [OF owned_children_frame [OF own fr4], of s] own c len
      by (simp add: repr_Trie hc delete_update owned_def)
    moreover have "prune_path h3 ((length h, s) # (c, s0) # rest) = prune_path ?h4 ((c, s0) # rest)"
      using True repr_dead_iff [OF r3] by simp
    ultimately show ?thesis
      using True u u' fr4 by auto
  next
    case False
    have "prune_path h3 ((length h, s) # (c, s0) # rest) = h3"
      using False repr_dead_iff [OF r3] by auto
    also have "\<dots> = prune_path h3 ((c, s0) # rest)"
      by (simp add: prune_path_live hc)
    finally have "prune_path h3 ((length h, s) # (c, s0) # rest) = prune_path h3 ((c, s0) # rest)" .
    moreover have "repr h3 c (Trie (AList.update s u' cs) tt e)"
      using list_all2_update [OF owned_children_frame [OF own fr] r3, of s] own c len
      by (simp add: repr_Trie hc owned_def)
    ultimately show ?thesis
      using False u u' fr cl3 by auto
  qed
qed

lemma remove_walk_refines:
  "owned h b c t \<Longrightarrow> removal_ok h c segs t ((c, s0) # rest)"
proof (induction segs arbitrary: h c t s0 rest)
  case Nil
  then show ?case by (rule removal_ok_Nil)
next
  case (Cons s ss)
  obtain cs tt e where t: "t = Trie cs tt e" by (cases t)
  note own = Cons.prems [unfolded t]
  have rel: "rel_option (\<lambda>a t. a < b \<and> repr h a t) (map_of (tn_children (h ! c)) s) (map_of cs s)"
    using owned_child [OF own] by (simp add: shared_child_def)
  show ?case
  proof (cases "map_of (tn_children (h ! c)) s")
    case None
    with rel have "map_of cs s = None" by (cases "map_of cs s") auto
    with None own show ?thesis
      by (simp add: removal_ok_def remove_walk_Cons t frame_def owned_def del: remove_walk.simps)
  next
    case (Some a)
    with rel obtain u where u: "map_of cs s = Some u" by (auto simp: option_rel_Some1)
    note d = descend_owned [OF own, of s]
    have IH: "removal_ok (descend h c s) (length h) ss u ((length h, s) # (c, s0) # rest)"
      using Cons.IH [of "descend h c s" "length h" u s "(c, s0) # rest"] d(1) u by simp
    have fr: "frame c (length h) h h'" if "frame (length h) (length (descend h c s)) (descend h c s) h'" for h'
      using frame_trans [OF d(4) that] d(2) by simp
    show ?thesis
    proof (cases "remove_walk (descend h c s) (length h) ss ((length h, s) # (c, s0) # rest)")
      case (Inl h')
      with IH Some u fr show ?thesis
        by (simp add: removal_ok_def remove_walk_Cons t del: remove_walk.simps)
    next
      case (Inr r)
      obtain h' cur path' where r: "r = (h', cur, path')" by (cases r)
      show ?thesis
      proof (cases "tn_is_end (h' ! cur)")
        case False
        with IH Some u fr Inr r show ?thesis
          by (simp add: removal_ok_def remove_walk_Cons t del: remove_walk.simps)
      next
        case True
        with IH Inr r obtain u' h3 where h3: "trie_remove ss u = Some u'"
          "prune_path (clear_route h' cur) path' = prune_path h3 ((length h, s) # (c, s0) # rest)"
          "repr h3 (length h) u'" "frame (length h) (Suc (length h)) (descend h c s) h3"
          "closed_below h3 (length h3)"
          by (auto simp: removal_ok_def d(2) simp del: prune_path.simps)
        from removal_ok_link [OF own u h3(1,4,3,5), of s0 rest] h3(2) True Inr r Some show ?thesis
          by (simp add: removal_ok_def remove_walk_Cons t del: remove_walk.simps prune_path.simps
              trie_remove.simps)
      qed
    qed
  qed
qed

section \<open>The operations of the router\<close>

lemma add_with_timeout_unfold:
  assumes "rt_root r = Some a"
  shows "add_with_timeout r pre u strip ms =
    \<lparr>rt_heap = add_at (fst (node_clone (rt_heap r) (Some a))) (length (rt_heap r)) (route_segments pre)
        \<lparr>rt_target = u, rt_strip_prefix = strip, rt_prefix = slash # trim_slashes pre,
          rt_timeout_ms = ms\<rparr>,
     rt_root = Some (length (rt_heap r))\<rparr>"
  using assms
  by (auto simp: add_with_timeout_def add_at_def route_segments_def Let_def
      dest: node_clone_eqD split: prod.split)

lemma remove_route_unfold:
  assumes "rt_root r = Some a" "node_clone (rt_heap r) (Some a) = (h1, n)"
  shows "remove_route r pre =
    (case remove_walk h1 n (route_segments pre) [(n, [])] of
       Inl h2 \<Rightarrow> (False, r\<lparr>rt_heap := h2\<rparr>)
     | Inr (h2, cur, path) \<Rightarrow>
         if \<not> tn_is_end (h2 ! cur) then (False, r\<lparr>rt_heap := h2\<rparr>)
         else (True, \<lparr>rt_heap = prune_path (clear_route h2 cur) path, rt_root = Some n\<rparr>))"
  using assms
  by (simp add: remove_route_def route_segments_def clear_route_def Let_def
      split: sum.split prod.split)

definition target_of :: "string \<Rightarrow> gurl \<Rightarrow> bool \<Rightarrow> int \<Rightarrow> route_target" where
  "target_of pre u strip ms = \<lparr>rt_target = u, rt_strip_prefix = strip,
     rt_prefix = slash # trim_slashes pre, rt_timeout_ms = ms\<rparr>"

text \<open>The root copy both operations start from.\<close>

lemma root_copy_owned:
  assumes "rt_root r = Some a" "repr (rt_heap r) a t"
    and "closed_below (rt_heap r) (length (rt_heap r))"
  shows "owned (fst (node_clone (rt_heap r) (Some a))) (length (rt_heap r)) (length (rt_heap r)) t"
    and "take (length (rt_heap r)) (fst (node_clone (rt_heap r) (Some a))) = rt_heap r"
    and "length (fst (node_clone (rt_heap r) (Some a))) = Suc (length (rt_heap r))"
proof -
  have "shared_child (rt_heap r) (length (rt_heap r)) (Some a) (Some t)"
    using assms repr_bound by (auto simp: shared_child_def)
  from node_clone_owned(2) [OF this assms(3,3)]
  show "owned (fst (node_clone (rt_heap r) (Some a))) (length (rt_heap r)) (length (rt_heap r)) t"
    by simp
qed (simp_all add: node_clone_def alloc_def)

lemma frame_take:
  assumes "frame c (Suc c) h h'" "length h = Suc c"
  shows "take c h' = take c h"
  using assms by (intro nth_equalityI) (auto simp: frame_def)

text \<open>Both operations in one statement: tree, heap and sharing.\<close>

lemma add_with_timeout_refines:
  assumes "rt_root r = Some a" "repr (rt_heap r) a t" "trie_ok t"
    and "closed_below (rt_heap r) (length (rt_heap r))"
    and r'_def: "r' = add_with_timeout r pre u strip ms"
  shows "\<exists>a'. rt_root r' = Some a'
      \<and> repr (rt_heap r') a' (trie_add (route_segments pre) (target_of pre u strip ms) t)"
    and "closed_below (rt_heap r') (length (rt_heap r'))"
    and "take (length (rt_heap r)) (rt_heap r') = rt_heap r"
proof -
  let ?h1 = "fst (node_clone (rt_heap r) (Some a))" and ?n = "length (rt_heap r)"
  note rc = root_copy_owned [OF assms(1,2,4)]
  note ref = add_at_refines [OF rc(1), of "route_segments pre" "target_of pre u strip ms"]
  have r': "r' = \<lparr>rt_heap = add_at ?h1 ?n (route_segments pre) (target_of pre u strip ms),
      rt_root = Some ?n\<rparr>"
    unfolding r'_def target_of_def by (rule add_with_timeout_unfold [OF assms(1)])
  from ref show "\<exists>a'. rt_root r' = Some a'
      \<and> repr (rt_heap r') a' (trie_add (route_segments pre) (target_of pre u strip ms) t)"
    and "closed_below (rt_heap r') (length (rt_heap r'))"
    by (simp_all add: r')
  from ref rc(3) have "frame ?n (Suc ?n) ?h1 (rt_heap r')"
    by (simp add: r')
  from frame_take [OF this rc(3)] rc(2) show "take ?n (rt_heap r') = rt_heap r"
    by simp
qed

lemma remove_route_refines:
  assumes "rt_root r = Some a" "repr (rt_heap r) a t" "trie_ok t"
    and "closed_below (rt_heap r) (length (rt_heap r))"
    and r'_def: "r' = snd (remove_route r pre)"
  shows "case trie_remove (route_segments pre) t of
           None \<Rightarrow> fst (remove_route r pre) = False \<and> rt_root r' = Some a \<and> repr (rt_heap r') a t
         | Some t' \<Rightarrow> fst (remove_route r pre) = True
             \<and> (\<exists>a'. rt_root r' = Some a' \<and> repr (rt_heap r') a' t')"
    and "closed_below (rt_heap r') (length (rt_heap r'))"
    and "take (length (rt_heap r)) (rt_heap r') = rt_heap r"
proof -
  let ?n = "length (rt_heap r)" and ?segs = "route_segments pre"
  obtain h1 where nc: "node_clone (rt_heap r) (Some a) = (h1, ?n)"
    by (metis node_clone_addr prod.collapse)
  note rc = root_copy_owned [OF assms(1,2,4), unfolded nc fst_conv]
  note unf = remove_route_unfold [OF assms(1) nc, of pre]
  have old: "repr h' a t" if "take ?n h' = rt_heap r" for h'
  proof (rule repr_frame [OF assms(2) repr_bound [OF assms(2)] assms(4)])
    show "h' ! x = rt_heap r ! x" if "x < ?n" for x
      using that \<open>take ?n h' = rt_heap r\<close> by (metis nth_take)
    show "?n \<le> length h'"
      using \<open>take ?n h' = rt_heap r\<close> by (metis length_take min.cobounded1 min.commute)
  qed
  have ok: "removal_ok h1 ?n ?segs t [(?n, [])]"
    using remove_walk_refines [OF rc(1)] .
  have fr: "take ?n h' = rt_heap r" if "frame ?n (length h1) h1 h'" for h'
    using frame_take [of ?n h1 h'] that rc(2,3) by simp
  have "(case trie_remove ?segs t of
           None \<Rightarrow> fst (remove_route r pre) = False \<and> rt_root r' = Some a \<and> repr (rt_heap r') a t
         | Some t' \<Rightarrow> fst (remove_route r pre) = True
             \<and> (\<exists>a'. rt_root r' = Some a' \<and> repr (rt_heap r') a' t'))
     \<and> closed_below (rt_heap r') (length (rt_heap r')) \<and> take ?n (rt_heap r') = rt_heap r"
  proof (cases "remove_walk h1 ?n ?segs [(?n, [])]")
    case (Inl h2)
    then have "remove_route r pre = (False, r\<lparr>rt_heap := h2\<rparr>)"
      by (simp add: unf)
    with ok Inl fr old assms(1) show ?thesis
      by (auto simp: r'_def removal_ok_def)
  next
    case (Inr x)
    obtain h2 cur path where x: "x = (h2, cur, path)" by (cases x)
    show ?thesis
    proof (cases "tn_is_end (h2 ! cur)")
      case False
      then have "remove_route r pre = (False, r\<lparr>rt_heap := h2\<rparr>)"
        using Inr x by (simp add: unf)
      with ok Inr x False fr old assms(1) show ?thesis
        by (auto simp: r'_def removal_ok_def)
    next
      case True
      then have "remove_route r pre =
          (True, \<lparr>rt_heap = prune_path (clear_route h2 cur) path, rt_root = Some ?n\<rparr>)"
        using Inr x by (simp add: unf)
      with ok Inr x True fr show ?thesis
        by (auto simp: r'_def removal_ok_def)
    qed
  qed
  then show "case trie_remove ?segs t of
           None \<Rightarrow> fst (remove_route r pre) = False \<and> rt_root r' = Some a \<and> repr (rt_heap r') a t
         | Some t' \<Rightarrow> fst (remove_route r pre) = True
             \<and> (\<exists>a'. rt_root r' = Some a' \<and> repr (rt_heap r') a' t')"
    and "closed_below (rt_heap r') (length (rt_heap r'))"
    and "take ?n (rt_heap r') = rt_heap r"
    by blast+
qed

lemma router_invE:
  assumes "router_inv r"
  obtains a t where "rt_root r = Some a" "repr (rt_heap r) a t" "trie_ok t"
    "closed_below (rt_heap r) (length (rt_heap r))" "router_routes r = trie_lookup t"
proof -
  from assms obtain a t where *: "rt_root r = Some a" "repr (rt_heap r) a t" "trie_ok t"
    "closed_below (rt_heap r) (length (rt_heap r))"
    by (auto simp: router_inv_def)
  then have "router_routes r = trie_lookup t"
    by (auto simp: router_routes_def repr_lookup)
  with * that show thesis by blast
qed

lemma router_invI:
  "rt_root r = Some a \<Longrightarrow> repr (rt_heap r) a t \<Longrightarrow> trie_ok t \<Longrightarrow>
     closed_below (rt_heap r) (length (rt_heap r)) \<Longrightarrow>
     router_inv r \<and> router_routes r = trie_lookup t"
  by (auto simp: router_inv_def router_routes_def repr_lookup fun_eq_iff)

lemma router_inv_new:
  assumes "closed_below h (length h)"
  shows "router_inv (new_router h) \<and> router_routes (new_router h) = (\<lambda>_. None)"
proof -
  have new: "new_router h = \<lparr>rt_heap = h @ [fresh_node], rt_root = Some (length h)\<rparr>"
    by (simp add: new_router_def alloc_def)
  have "repr (h @ [fresh_node]) (length h) empty_trie"
    by (simp add: empty_trie_def repr_Trie fresh_node_def)
  moreover have "closed_below (h @ [fresh_node]) (length (h @ [fresh_node]))"
    using assms by (auto simp: closed_below_def nth_append less_Suc_eq fresh_node_def)
  ultimately show ?thesis
    using router_invI [of "new_router h" "length h" empty_trie] by (auto simp: new fun_eq_iff)
qed

lemma router_add_correct:
  assumes "router_inv r"
  shows "router_inv (add_with_timeout r pre u strip ms)"
    and "router_routes (add_with_timeout r pre u strip ms) =
      (router_routes r)(route_segments pre \<mapsto> target_of pre u strip ms)"
    and "take (length (rt_heap r)) (rt_heap (add_with_timeout r pre u strip ms)) = rt_heap r"
proof -
  from assms obtain a t where *: "rt_root r = Some a" "repr (rt_heap r) a t" "trie_ok t"
    "closed_below (rt_heap r) (length (rt_heap r))" and rr: "router_routes r = trie_lookup t"
    by (rule router_invE)
  note ref = add_with_timeout_refines [OF * refl, of pre u strip ms]
  from ref(1) obtain a' where "rt_root (add_with_timeout r pre u strip ms) = Some a'"
    "repr (rt_heap (add_with_timeout r pre u strip ms)) a'
      (trie_add (route_segments pre) (target_of pre u strip ms) t)" by blast
  from router_invI [OF this trie_ok_add [OF *(3)] ref(2)] rr
  show "router_inv (add_with_timeout r pre u strip ms)"
    and "router_routes (add_with_timeout r pre u strip ms) =
      (router_routes r)(route_segments pre \<mapsto> target_of pre u strip ms)"
    by (auto simp: trie_lookup_add fun_eq_iff)
  show "take (length (rt_heap r)) (rt_heap (add_with_timeout r pre u strip ms)) = rt_heap r"
    by (rule ref(3))
qed

lemma router_remove_correct:
  assumes "router_inv r"
  shows "router_inv (snd (remove_route r pre))"
    and "router_routes (snd (remove_route r pre)) = (router_routes r)(route_segments pre := None)"
    and "fst (remove_route r pre) \<longleftrightarrow> router_routes r (route_segments pre) \<noteq> None"
    and "take (length (rt_heap r)) (rt_heap (snd (remove_route r pre))) = rt_heap r"
proof -
  from assms obtain a t where *: "rt_root r = Some a" "repr (rt_heap r) a t" "trie_ok t"
    "closed_below (rt_heap r) (length (rt_heap r))" and rr: "router_routes r = trie_lookup t"
    by (rule router_invE)
  note ref = remove_route_refines [OF * refl, of pre]
  let ?r' = "snd (remove_route r pre)" and ?segs = "route_segments pre"
  have "router_inv ?r' \<and> router_routes ?r' = (router_routes r)(?segs := None)
    \<and> (fst (remove_route r pre) \<longleftrightarrow> router_routes r ?segs \<noteq> None)"
  proof (cases "trie_remove ?segs t")
    case None
    with trie_remove_None [OF *(3)] have "trie_lookup t ?segs = None" by simp
    with None ref router_invI [of ?r' a t] *(3) rr show ?thesis
      by (auto simp: fun_eq_iff)
  next
    case (Some t')
    with ref(1) obtain a' where "fst (remove_route r pre)" "rt_root ?r' = Some a'"
      "repr (rt_heap ?r') a' t'" by auto
    with router_invI [of ?r' a' t'] trie_ok_remove [OF *(3) Some] ref(2)
      trie_lookup_remove [OF *(3) Some] trie_remove_None [OF *(3), of ?segs] Some rr
    show ?thesis by (auto simp: fun_eq_iff)
  qed
  then show "router_inv ?r'" "router_routes ?r' = (router_routes r)(?segs := None)"
    "fst (remove_route r pre) \<longleftrightarrow> router_routes r ?segs \<noteq> None"
    by blast+
  show "take (length (rt_heap r)) (rt_heap ?r') = rt_heap r"
    by (rule ref(3))
qed

end
