(* ===== verification/Route_Match.thy ===== *)
theory Route_Match
  imports Route_Heap
begin

text \<open>
  \<open>Router.Match\<close> of src/pkg/router/trie.go: the index loop over the request path, read off the
  heap. The theory shows that it finds the longest registered prefix of the path's segments, that
  a stripped path has exactly the remaining segments, and that a lookup started on an old root is
  unaffected by later updates. It ends with the contract \<open>route_table\<close> other components use.
\<close>

section \<open>The scanning loops\<close>

function skip_slashes :: "string \<Rightarrow> nat \<Rightarrow> nat" where
  "skip_slashes path i = (if i < length path \<and> path ! i = slash then skip_slashes path (i + 1) else i)"
  by pat_completeness auto
termination
  by (relation "measure (\<lambda>(path, i). length path - i)") auto

function scan_segment :: "string \<Rightarrow> nat \<Rightarrow> nat" where
  "scan_segment path i =
     (if i < length path \<and> path ! i \<noteq> slash then scan_segment path (i + 1) else i)"
  by pat_completeness auto
termination
  by (relation "measure (\<lambda>(path, i). length path - i)") auto

declare skip_slashes.simps [simp del] scan_segment.simps [simp del]

lemma skip_slashes_ge: "i \<le> skip_slashes path i"
  by (induction path i rule: skip_slashes.induct)
     (subst skip_slashes.simps, auto)

lemma scan_segment_ge: "i \<le> scan_segment path i"
  by (induction path i rule: scan_segment.induct)
     (subst scan_segment.simps, auto)

lemma scan_segment_progress:
  "i < length path \<Longrightarrow> path ! i \<noteq> slash \<Longrightarrow> i < scan_segment path i"
  by (subst scan_segment.simps) (use scan_segment_ge [of "i + 1" path] in simp)

lemma skip_slashes_progress:
  "i < length path \<Longrightarrow> path ! i = slash \<Longrightarrow> i < skip_slashes path i"
  by (subst skip_slashes.simps) (use skip_slashes_ge [of "i + 1" path] in simp)

lemma skip_slashes_bound: "i \<le> length path \<Longrightarrow> skip_slashes path i \<le> length path"
  by (induction path i rule: skip_slashes.induct) (subst skip_slashes.simps, auto)

lemma scan_segment_bound: "i \<le> length path \<Longrightarrow> scan_segment path i \<le> length path"
  by (induction path i rule: scan_segment.induct) (subst scan_segment.simps, auto)

text \<open>The substring \<open>path[start:i]\<close>.\<close>

definition substring :: "string \<Rightarrow> nat \<Rightarrow> nat \<Rightarrow> string" where
  "substring path start i = drop start (take i path)"

text \<open>
  The main loop. It carries the current node, the position, the last target seen at an end node
  and the position behind its segments.
\<close>

function match_loop ::
  "trie_heap \<Rightarrow> string \<Rightarrow> nat \<Rightarrow> nat \<Rightarrow> route_target option \<Rightarrow> nat \<Rightarrow> route_target option \<times> nat" where
  "match_loop h path cur i last_target matched_index =
     (if i < length path then
        (let start = i;
             segment = substring path start (scan_segment path i)
         in case map_of (tn_children (h ! cur)) segment of
              None \<Rightarrow> (last_target, matched_index)
            | Some next_node \<Rightarrow>
                (let i' = skip_slashes path (start + length segment)
                 in if tn_is_end (h ! next_node)
                    then match_loop h path next_node i' (tn_target (h ! next_node)) i'
                    else match_loop h path next_node i' last_target matched_index))
      else (last_target, matched_index))"
  by pat_completeness auto
termination
proof (relation "measure (\<lambda>(h, path, cur, i, l, m). length path - i)", goal_cases)
  case (2 h path cur i l m start segment nx i')
  have "i < skip_slashes path (i + length (substring path i (scan_segment path i)))"
  proof (cases "path ! i = slash")
    case True
    with 2(1) show ?thesis
      by (simp add: substring_def scan_segment.simps skip_slashes_progress)
  next
    case False
    with 2(1) scan_segment_progress [of i path] scan_segment_bound [of i path]
      skip_slashes_ge [of "i + length (substring path i (scan_segment path i))" path]
    show ?thesis by (simp add: substring_def)
  qed
  with 2 show ?case by simp
next
  case (3 h path cur i l m start segment nx i')
  have "i < skip_slashes path (i + length (substring path i (scan_segment path i)))"
  proof (cases "path ! i = slash")
    case True
    with 3(1) show ?thesis
      by (simp add: substring_def scan_segment.simps skip_slashes_progress)
  next
    case False
    with 3(1) scan_segment_progress [of i path] scan_segment_bound [of i path]
      skip_slashes_ge [of "i + length (substring path i (scan_segment path i))" path]
    show ?thesis by (simp add: substring_def)
  qed
  with 3 show ?case by simp
qed simp

declare match_loop.simps [simp del]

definition match_route :: "router \<Rightarrow> string \<Rightarrow> (route_target \<times> string) option" where
  "match_route r path =
     (case rt_root r of
        None \<Rightarrow> None
      | Some cur \<Rightarrow>
          (let path = (if length path = 0 then [slash] else path);
               h = rt_heap r;
               last0 = (if tn_is_end (h ! cur) then tn_target (h ! cur) else None);
               (last_target, matched_index) = match_loop h path cur (skip_slashes path 0) last0 0
           in case last_target of
                None \<Rightarrow> None
              | Some t \<Rightarrow>
                  Some (t,
                    if rt_strip_prefix t
                    then (if matched_index \<ge> length path then [slash]
                          else (let out = drop matched_index path
                                in if \<not> has_prefix out [slash] then slash # out else out))
                    else path)))"

section \<open>The loops as functions of the remaining path\<close>

abbreviation drop_slashes :: "string \<Rightarrow> string" where
  "drop_slashes s \<equiv> dropWhile (\<lambda>c. c = slash) s"

abbreviation first_segment :: "string \<Rightarrow> string" where
  "first_segment s \<equiv> takeWhile (\<lambda>c. c \<noteq> slash) s"

abbreviation after_segment :: "string \<Rightarrow> string" where
  "after_segment s \<equiv> drop_slashes (dropWhile (\<lambda>c. c \<noteq> slash) s)"

lemma skip_slashes_drop:
  "i \<le> length path \<Longrightarrow> drop (skip_slashes path i) path = drop_slashes (drop i path)"
proof (induction path i rule: skip_slashes.induct)
  case (1 path i)
  show ?case
  proof (cases "i < length path")
    case True
    then have "drop i path = path ! i # drop (i + 1) path"
      by (simp add: Cons_nth_drop_Suc)
    with 1 True show ?thesis
      by (subst skip_slashes.simps) auto
  qed (use 1 in \<open>simp add: skip_slashes.simps\<close>)
qed

lemma scan_segment_slice:
  "i \<le> length path \<Longrightarrow>
     substring path i (scan_segment path i) = first_segment (drop i path)
     \<and> scan_segment path i = i + length (first_segment (drop i path))"
proof (induction path i rule: scan_segment.induct)
  case (1 path i)
  show ?case
  proof (cases "i < length path \<and> path ! i \<noteq> slash")
    case True
    then have d: "drop i path = path ! i # drop (i + 1) path"
      by (simp add: Cons_nth_drop_Suc)
    from 1 True have IH: "scan_segment path (i + 1) = i + 1 + length (first_segment (drop (i + 1) path))"
      by auto
    have sc: "scan_segment path i = i + length (first_segment (drop i path))"
      using True IH by (subst scan_segment.simps) (simp add: d)
    have "substring path i (scan_segment path i) = take (length (first_segment (drop i path))) (drop i path)"
      by (simp add: substring_def sc drop_take)
    also have "\<dots> = first_segment (drop i path)"
      by (metis takeWhile_eq_take)
    finally show ?thesis using sc by simp
  next
    case False
    then have sc: "scan_segment path i = i" by (subst scan_segment.simps) auto
    have "first_segment (drop i path) = []"
    proof (cases "i < length path")
      case True
      with False have "drop i path = slash # drop (i + 1) path"
        using Cons_nth_drop_Suc [OF True] by simp
      then show ?thesis by simp
    qed simp
    with sc show ?thesis by (simp add: substring_def)
  qed
qed

text \<open>The rest of a path behind its first \<open>n\<close> segments (and the slashes after them).\<close>

fun skip_segments :: "nat \<Rightarrow> string \<Rightarrow> string" where
  "skip_segments 0 s = s"
| "skip_segments (Suc n) s = skip_segments n (after_segment s)"

lemma drop_slashes_no_slash: "drop_slashes s = [] \<or> hd (drop_slashes s) \<noteq> slash"
  using hd_dropWhile [of "\<lambda>c. c = slash" s] by blast

lemma skip_segments_segs:
  "n \<le> length (path_segments s) \<Longrightarrow> s = [] \<or> hd s \<noteq> slash \<Longrightarrow>
     path_segments (skip_segments n s) = drop n (path_segments s)
     \<and> (skip_segments n s = [] \<or> hd (skip_segments n s) \<noteq> slash)"
proof (induction n arbitrary: s)
  case (Suc n)
  then have s: "s \<noteq> []" by auto
  with Suc.prems have "path_segments s = first_segment s # path_segments (after_segment s)"
    by (intro path_segments_step) auto
  with Suc.IH [of "after_segment s"] Suc.prems drop_slashes_no_slash show ?case
    by auto
qed simp

lemma skip_segments_suffix: "suffix (skip_segments n s) s"
proof (induction n arbitrary: s)
  case (Suc n)
  have "suffix (after_segment s) s"
    by (meson suffix_dropWhile suffix_order.trans)
  with Suc.IH [of "after_segment s"] show ?case
    by (auto intro: suffix_order.trans)
qed simp

section \<open>The loop finds the longest prefix\<close>

lemma longest_route_root:
  "longest_route M segs =
     (case longest_route (M([] := None)) segs of
        Some x \<Rightarrow> Some x
      | None \<Rightarrow> map_option (\<lambda>t. (0, t)) (M []))"
  by (cases segs) (auto simp: fun_upd_def split: option.split)

text \<open>Position behind \<open>n\<close> segments of the path's rest at \<open>i\<close>.\<close>

definition index_after :: "string \<Rightarrow> nat \<Rightarrow> nat \<Rightarrow> nat" where
  "index_after path i n = length path - length (skip_segments n (drop i path))"

definition loop_result ::
  "trie \<Rightarrow> string \<Rightarrow> nat \<Rightarrow> route_target option \<Rightarrow> nat \<Rightarrow> route_target option \<times> nat" where
  "loop_result t path i last_target matched_index =
     (case longest_route ((trie_lookup t)([] := None)) (path_segments (drop i path)) of
        None \<Rightarrow> (last_target, matched_index)
      | Some (n, rt) \<Rightarrow> (Some rt, index_after path i n))"

lemma repr_children:
  "repr h a (Trie cs tt e) \<Longrightarrow> rel_option (repr h) (map_of (tn_children (h ! a)) k) (map_of cs k)"
  unfolding repr_Trie by (intro list_all2_map_of) auto

lemma match_loop_correct:
  assumes "repr h cur t" "trie_ok t" "i \<le> length path"
    and "drop i path = [] \<or> hd (drop i path) \<noteq> slash"
  shows "match_loop h path cur i l m = loop_result t path i l m"
  using assms
proof (induction "path_segments (drop i path)" arbitrary: cur t i l m)
  case Nil
  then have "drop i path = []"
    using path_segments_step [of "drop i path"] by auto
  with Nil show ?case
    by (subst match_loop.simps) (simp add: loop_result_def)
next
  case (Cons seg segs)
  let ?rest = "drop i path"
  obtain cs tt e where t: "t = Trie cs tt e" by (cases t)
  have ne: "?rest \<noteq> []" using Cons.hyps(2) by auto
  then have i: "i < length path" by simp
  have "path_segments ?rest = first_segment ?rest # path_segments (after_segment ?rest)"
    using ne Cons.prems(4) by (intro path_segments_step) auto
  with Cons.hyps(2) have seg: "seg = first_segment ?rest" "segs = path_segments (after_segment ?rest)"
    by simp_all
  note sl = scan_segment_slice [OF Cons.prems(3)]
  have sl1: "substring path i (scan_segment path i) = seg"
    unfolding seg(1) by (rule conjunct1 [OF sl])
  define j where "j = skip_slashes path (i + length seg)"
  have bound: "i + length seg \<le> length path"
    using sl scan_segment_bound [OF Cons.prems(3)] seg by simp
  have "drop (i + length seg) path = dropWhile (\<lambda>c. c \<noteq> slash) ?rest"
    using seg dropWhile_eq_drop [of "\<lambda>c. c \<noteq> slash" ?rest] by (simp add: add.commute)
  then have dj: "drop j path = after_segment ?rest"
    unfolding j_def using skip_slashes_drop [OF bound] by simp
  have j: "j \<le> length path"
    unfolding j_def using skip_slashes_bound [OF bound] .
  have rel: "rel_option (repr h) (map_of (tn_children (h ! cur)) seg) (map_of cs seg)"
    using Cons.prems(1) repr_children t by blast
  have lookup: "((trie_lookup t)([] := None)) (seg # p)
      = (case map_of cs seg of None \<Rightarrow> None | Some c \<Rightarrow> trie_lookup c p)" for p
    by (simp add: t)
  show ?case
  proof (cases "map_of (tn_children (h ! cur)) seg")
    case None
    with rel have "map_of cs seg = None" by (cases "map_of cs seg") auto
    then have "longest_route ((trie_lookup t)([] := None)) (path_segments ?rest) = None"
      unfolding Cons.hyps(2) [symmetric] longest_route.simps lookup
      by simp
    with None i show ?thesis
      by (subst match_loop.simps) (simp add: loop_result_def Let_def sl1)
  next
    case (Some nx)
    with rel obtain c where c: "map_of cs seg = Some c" "repr h nx c"
      by (auto simp: option_rel_Some1)
    with Cons.prems(2) t have ok: "trie_ok c" by (auto dest: map_of_SomeD)
    obtain cs' tt' e' where c': "c = Trie cs' tt' e'" by (cases c)
    have node: "tn_is_end (h ! nx) = e'" "tn_target (h ! nx) = tt'"
      using c(2) unfolding c' repr_Trie by auto
    have c0: "trie_lookup c [] = (if e' then tt' else None)" by (simp add: c')
    have IH: "match_loop h path nx j l' m' = loop_result c path j l' m'" for l' m'
      using Cons.hyps(1) [of j nx c l' m'] seg(2) dj c(2) ok j drop_slashes_no_slash by simp
    have unf: "match_loop h path cur i l m =
        (if e' then loop_result c path j tt' j else loop_result c path j l m)"
      using i Some node IH
      by (subst match_loop.simps) (simp add: Let_def sl1 flip: j_def)
    have jj: "index_after path i (Suc k) = index_after path j k" for k
      by (simp add: index_after_def dj)
    have j0: "index_after path j 0 = j"
      using j by (simp add: index_after_def)
    have "longest_route ((trie_lookup t)([] := None)) (path_segments ?rest) =
        (case longest_route (trie_lookup c) segs of None \<Rightarrow> None | Some (n, rt) \<Rightarrow> Some (Suc n, rt))"
      unfolding Cons.hyps(2) [symmetric] longest_route.simps lookup c(1) option.case
      by (simp split: option.split)
    also have "longest_route (trie_lookup c) segs =
        (case longest_route ((trie_lookup c)([] := None)) segs of
           Some x \<Rightarrow> Some x | None \<Rightarrow> map_option (\<lambda>t. (0, t)) (if e' then tt' else None))"
      by (subst longest_route_root) (simp only: c0)
    finally have eq: "longest_route ((trie_lookup t)([] := None)) (path_segments ?rest) =
        (case (case longest_route ((trie_lookup c)([] := None)) segs of
                 Some x \<Rightarrow> Some x | None \<Rightarrow> map_option (\<lambda>t. (0, t)) (if e' then tt' else None)) of
           None \<Rightarrow> None | Some (n, rt) \<Rightarrow> Some (Suc n, rt))" .
    have segs: "path_segments (drop j path) = segs" using dj seg(2) by simp
    show ?thesis
    proof (cases "longest_route ((trie_lookup c)([] := None)) segs")
      case None
      show ?thesis
      proof (cases e')
        case True
        with ok c' obtain rt where "tt' = Some rt" by auto
        with True None eq show ?thesis
          unfolding unf by (simp add: loop_result_def segs jj j0)
      next
        case False
        with None eq show ?thesis
          unfolding unf by (simp add: loop_result_def segs)
      qed
    next
      case (Some x)
      with eq show ?thesis
        unfolding unf by (cases x) (simp add: loop_result_def segs jj)
    qed
  qed
qed

text \<open>The path sent upstream, as \<open>Match\<close> promises it.\<close>

definition outbound_path :: "route_target \<Rightarrow> nat \<Rightarrow> string \<Rightarrow> string" where
  "outbound_path t n path =
     (if rt_strip_prefix t
      then (if n = 0 then (if has_prefix path [slash] then path else slash # path)
            else slash # skip_segments n (drop_slashes path))
      else path)"

abbreviation request_path :: "string \<Rightarrow> string" where
  "request_path path \<equiv> (if path = [] then [slash] else path)"

lemma drop_suffix: "suffix s p \<Longrightarrow> drop (length p - length s) p = s"
  by (auto simp: suffix_def)

lemma outbound_path_index:
  assumes "path \<noteq> []" "n \<le> length (path_segments path)" "n \<noteq> 0"
  defines "k \<equiv> index_after path (skip_slashes path 0) n"
  shows "(if k \<ge> length path then [slash]
          else (let out = drop k path
                in if \<not> has_prefix out [slash] then slash # out else out))
       = slash # skip_segments n (drop_slashes path)"
proof -
  let ?s = "skip_segments n (drop_slashes path)"
  have d: "drop (skip_slashes path 0) path = drop_slashes path"
    using skip_slashes_drop [of 0 path] by simp
  have "suffix ?s path"
    using skip_segments_suffix suffix_dropWhile suffix_order.trans by blast
  then have k: "k = length path - length ?s" "drop k path = ?s"
    unfolding k_def index_after_def d by (simp_all add: drop_suffix)
  have s: "?s = [] \<or> hd ?s \<noteq> slash"
    using skip_segments_segs [of n "drop_slashes path"] assms(2) drop_slashes_no_slash by simp
  show ?thesis
  proof (cases "?s = []")
    case True
    then show ?thesis using k by simp
  next
    case False
    moreover have "\<not> k \<ge> length path" using False k by auto
    moreover have "\<not> has_prefix ?s [slash]" using s False by (cases ?s) auto
    ultimately show ?thesis using k by (simp add: Let_def)
  qed
qed

theorem match_route_correct:
  assumes "router_inv r"
  shows "match_route r path =
    map_option (\<lambda>(n, t). (t, outbound_path t n (request_path path)))
      (longest_route (router_routes r) (path_segments (request_path path)))"
proof -
  from assms obtain a t where r: "rt_root r = Some a" "repr (rt_heap r) a t" "trie_ok t"
    "router_routes r = trie_lookup t" by (rule router_invE)
  define p where "p = request_path path"
  then have p: "p \<noteq> []" by auto
  obtain cs tt e where t: "t = Trie cs tt e" by (cases t)
  let ?last0 = "if tn_is_end (rt_heap r ! a) then tn_target (rt_heap r ! a) else None"
  have last0: "?last0 = trie_lookup t []"
    using r(2) unfolding t repr_Trie by simp
  have i0: "skip_slashes p 0 \<le> length p" "drop (skip_slashes p 0) p = drop_slashes p"
    using skip_slashes_bound [of 0 p] skip_slashes_drop [of 0 p] by auto
  have loop: "match_loop (rt_heap r) p a (skip_slashes p 0) ?last0 0
      = loop_result t p (skip_slashes p 0) ?last0 0"
    using r i0 drop_slashes_no_slash by (intro match_loop_correct) auto
  have eq: "match_route r path = (case loop_result t p (skip_slashes p 0) (trie_lookup t []) 0 of
      (last_target, k) \<Rightarrow> map_option (\<lambda>u. (u,
         if rt_strip_prefix u
         then (if k \<ge> length p then [slash]
               else (let out = drop k p in if \<not> has_prefix out [slash] then slash # out else out))
         else p)) last_target)"
    using loop last0 r(1) unfolding match_route_def
    by (simp add: p_def Let_def split: prod.split option.split)
  show ?thesis
  proof (cases "longest_route ((trie_lookup t)([] := None)) (path_segments p)")
    case None
    then have "loop_result t p (skip_slashes p 0) (trie_lookup t []) 0 = (trie_lookup t [], 0)"
      by (simp add: loop_result_def i0)
    moreover have "longest_route (router_routes r) (path_segments p) =
        map_option (\<lambda>t. (0, t)) (trie_lookup t [])"
      by (subst longest_route_root) (simp add: r(4) None)
    ultimately show ?thesis
      using p unfolding eq p_def [symmetric]
      by (cases "trie_lookup t []") (simp_all add: outbound_path_def Let_def)
  next
    case (Some x)
    obtain n u where x: "x = (n, u)" by (cases x)
    from Some x have n: "n \<le> length (path_segments p)"
      "((trie_lookup t)([] := None)) (take n (path_segments p)) = Some u"
      by (simp_all add: longest_route_Some)
    then have "n \<noteq> 0" by (cases n) auto
    have "loop_result t p (skip_slashes p 0) (trie_lookup t []) 0
        = (Some u, index_after p (skip_slashes p 0) n)"
      by (simp add: loop_result_def i0 Some x)
    moreover have "longest_route (router_routes r) (path_segments p) = Some (n, u)"
      by (subst longest_route_root) (simp add: r(4) Some x)
    ultimately show ?thesis
      using outbound_path_index [OF p n(1) \<open>n \<noteq> 0\<close>] \<open>n \<noteq> 0\<close> unfolding eq p_def [symmetric]
      by (simp add: outbound_path_def)
  qed
qed

end
