(* ===== verification/Route_Concurrency.thy ===== *)
theory Route_Concurrency
  imports Route_Match
begin

text \<open>
  Readers of the router take no lock: they load the root pointer once and walk the nodes while
  writers run. This theory breaks \<open>AddWithTimeout\<close> and \<open>Remove\<close> down to single allocations and
  stores (\<open>update_step\<close>), lets one update at a time run in a shared state (\<open>sys_step\<close>: the mutex),
  proves that the single writes add up to the operations of \<open>Route_Heap\<close> and go to cells the
  update allocated itself, and interleaves them with the reads of a running \<open>Match\<close>
  (\<open>live_match\<close>): its answer is the one of the router the updates had built when the root was
  loaded. The interface \<open>route_table\<close> for the components that mount and unmount routes ends it.
\<close>

section \<open>Updates as sequences of single heap writes\<close>

text \<open>
  The two update operations, and where a running one stands: the loop of \<open>AddWithTimeout\<close> before
  a child is cloned or created (\<open>Add_Loop\<close>) and before it is linked (\<open>Add_Link\<close>), the two stores
  to the last node, the same points of \<open>Remove\<close>, its pruning loop, and the two ways out (the
  root is stored, or \<open>Remove\<close> returns false). A Go value that a reader can reach changes only at
  these points; a cloned node is not reachable before it is linked.
\<close>

datatype router_op = Op_Add string gurl bool int | Op_Remove string

fun apply_op :: "router \<Rightarrow> router_op \<Rightarrow> router" where
  "apply_op r (Op_Add pre u strip ms) = add_with_timeout r pre u strip ms"
| "apply_op r (Op_Remove pre) = snd (remove_route r pre)"

abbreviation apply_ops :: "router \<Rightarrow> router_op list \<Rightarrow> router" where
  "apply_ops \<equiv> foldl apply_op"

datatype update_pc =
    Add_Loop "string list" nat
  | Add_Link string nat "string list" nat
  | Add_Flag nat
  | Rm_Loop "string list" nat "(nat \<times> string) list"
  | Rm_Link string nat "string list" nat "(nat \<times> string) list"
  | Rm_Target nat "(nat \<times> string) list"
  | Rm_Prune "(nat \<times> string) list"
  | Store_Root
  | Give_Up

text \<open>The target an \<open>AddWithTimeout\<close> stores, and the point at which an operation starts.\<close>

fun op_target :: "router_op \<Rightarrow> route_target option" where
  "op_target (Op_Add pre u strip ms) = Some (target_of pre u strip ms)"
| "op_target (Op_Remove pre) = None"

fun op_start :: "router_op \<Rightarrow> nat \<Rightarrow> update_pc" where
  "op_start (Op_Add pre u strip ms) new_root = Add_Loop (route_segments pre) new_root"
| "op_start (Op_Remove pre) new_root = Rm_Loop (route_segments pre) new_root [(new_root, [])]"

text \<open>
  One step of a running update: at most one allocation or one store to a node. \<open>Store_Root\<close> and
  \<open>Give_Up\<close> are left by the step of the system below.
\<close>

fun update_step :: "router_op \<Rightarrow> update_pc \<Rightarrow> trie_heap \<Rightarrow> trie_heap \<times> update_pc" where
  "update_step op (Add_Loop [] cur) h =
     (h[cur := (h ! cur)\<lparr>tn_target := op_target op\<rparr>], Add_Flag cur)"
| "update_step op (Add_Loop (seg # segs) cur) h =
     (let (h1, next_node) = node_clone h (map_of (tn_children (h ! cur)) seg)
      in (h1, Add_Link seg next_node segs cur))"
| "update_step op (Add_Link seg next_node segs cur) h =
     (h[cur := (h ! cur)\<lparr>tn_children := AList.update seg next_node (tn_children (h ! cur))\<rparr>],
      Add_Loop segs next_node)"
| "update_step op (Add_Flag cur) h = (h[cur := (h ! cur)\<lparr>tn_is_end := True\<rparr>], Store_Root)"
| "update_step op (Rm_Loop [] cur path) h =
     (if \<not> tn_is_end (h ! cur) then (h, Give_Up)
      else (h[cur := (h ! cur)\<lparr>tn_is_end := False\<rparr>], Rm_Target cur path))"
| "update_step op (Rm_Loop (seg # segs) cur path) h =
     (case map_of (tn_children (h ! cur)) seg of
        None \<Rightarrow> (h, Give_Up)
      | Some child \<Rightarrow>
          (let (h1, new_child) = node_clone h (Some child)
           in (h1, Rm_Link seg new_child segs cur path)))"
| "update_step op (Rm_Link seg new_child segs cur path) h =
     (h[cur := (h ! cur)\<lparr>tn_children := AList.update seg new_child (tn_children (h ! cur))\<rparr>],
      Rm_Loop segs new_child ((new_child, seg) # path))"
| "update_step op (Rm_Target cur path) h =
     (h[cur := (h ! cur)\<lparr>tn_target := None\<rparr>], Rm_Prune path)"
| "update_step op (Rm_Prune ((n, seg) # (parent, pseg) # path)) h =
     (if tn_children (h ! n) = [] \<and> \<not> tn_is_end (h ! n)
      then (h[parent := (h ! parent)\<lparr>tn_children := AList.delete seg (tn_children (h ! parent))\<rparr>],
            Rm_Prune ((parent, pseg) # path))
      else (h, Store_Root))"
| "update_step op (Rm_Prune path) h = (h, Store_Root)"
| "update_step op Store_Root h = (h, Store_Root)"
| "update_step op Give_Up h = (h, Give_Up)"

text \<open>
  The router as its readers and writers share it: the nodes, the root pointer, the update that
  holds the mutex with its new root, and (for the specification only) the updates finished so far.
  A step starts an update, advances it, stores its root, or lets it return without storing one.
\<close>

record router_sys =
  sy_heap :: trie_heap
  sy_root :: "nat option"
  sy_writer :: "(router_op \<times> nat \<times> update_pc) option"
  sy_done :: "router_op list"

definition router_sys_of :: "router \<Rightarrow> router_sys" where
  "router_sys_of r = \<lparr>sy_heap = rt_heap r, sy_root = rt_root r, sy_writer = None, sy_done = []\<rparr>"

inductive sys_step :: "router_sys \<Rightarrow> router_sys \<Rightarrow> bool" where
  ss_nil: "sy_writer s = None \<Longrightarrow> sy_root s = None \<Longrightarrow>
     sys_step s (s\<lparr>sy_done := sy_done s @ [Op_Remove pre]\<rparr>)"
| ss_lock: "sy_writer s = None \<Longrightarrow> sy_root s \<noteq> None \<or> (\<exists>pre u strip ms. op = Op_Add pre u strip ms) \<Longrightarrow>
     node_clone (sy_heap s) (sy_root s) = (h, new_root) \<Longrightarrow>
     sys_step s (s\<lparr>sy_heap := h, sy_writer := Some (op, new_root, op_start op new_root)\<rparr>)"
| ss_write: "sy_writer s = Some (op, new_root, pc) \<Longrightarrow> pc \<noteq> Store_Root \<Longrightarrow> pc \<noteq> Give_Up \<Longrightarrow>
     update_step op pc (sy_heap s) = (h, pc') \<Longrightarrow>
     sys_step s (s\<lparr>sy_heap := h, sy_writer := Some (op, new_root, pc')\<rparr>)"
| ss_store: "sy_writer s = Some (op, new_root, Store_Root) \<Longrightarrow>
     sys_step s (s\<lparr>sy_root := Some new_root, sy_writer := None, sy_done := sy_done s @ [op]\<rparr>)"
| ss_give_up: "sy_writer s = Some (op, new_root, Give_Up) \<Longrightarrow>
     sys_step s (s\<lparr>sy_writer := None, sy_done := sy_done s @ [op]\<rparr>)"

inductive_cases sys_stepE: "sys_step s s'"

section \<open>Single writes add up to the operations\<close>

text \<open>What the rest of an update does when it runs on without a break.\<close>

definition finish_add :: "router_op \<Rightarrow> nat \<Rightarrow> string list \<Rightarrow> nat \<Rightarrow> trie_heap \<Rightarrow> router" where
  "finish_add op n segs cur h =
     (let (h2, c) = add_walk h cur segs
      in \<lparr>rt_heap = h2[c := (h2 ! c)\<lparr>tn_target := op_target op, tn_is_end := True\<rparr>],
          rt_root = Some n\<rparr>)"

definition finish_remove ::
  "nat \<Rightarrow> nat option \<Rightarrow> string list \<Rightarrow> nat \<Rightarrow> (nat \<times> string) list \<Rightarrow> trie_heap \<Rightarrow> router" where
  "finish_remove n root segs cur path h =
     (case remove_walk h cur segs path of
        Inl h2 \<Rightarrow> \<lparr>rt_heap = h2, rt_root = root\<rparr>
      | Inr (h2, c, path') \<Rightarrow>
          if \<not> tn_is_end (h2 ! c) then \<lparr>rt_heap = h2, rt_root = root\<rparr>
          else \<lparr>rt_heap = prune_path (clear_route h2 c) path', rt_root = Some n\<rparr>)"

fun finish_update :: "router_op \<Rightarrow> nat \<Rightarrow> nat option \<Rightarrow> update_pc \<Rightarrow> trie_heap \<Rightarrow> router" where
  "finish_update op n root (Add_Loop segs cur) h = finish_add op n segs cur h"
| "finish_update op n root (Add_Link seg nx segs cur) h =
     finish_add op n segs nx (fst (update_step op (Add_Link seg nx segs cur) h))"
| "finish_update op n root (Add_Flag cur) h =
     \<lparr>rt_heap = h[cur := (h ! cur)\<lparr>tn_is_end := True\<rparr>], rt_root = Some n\<rparr>"
| "finish_update op n root (Rm_Loop segs cur path) h = finish_remove n root segs cur path h"
| "finish_update op n root (Rm_Link seg nx segs cur path) h =
     finish_remove n root segs nx ((nx, seg) # path)
       (fst (update_step op (Rm_Link seg nx segs cur path) h))"
| "finish_update op n root (Rm_Target cur path) h =
     \<lparr>rt_heap = prune_path (h[cur := (h ! cur)\<lparr>tn_target := None\<rparr>]) path, rt_root = Some n\<rparr>"
| "finish_update op n root (Rm_Prune path) h = \<lparr>rt_heap = prune_path h path, rt_root = Some n\<rparr>"
| "finish_update op n root Store_Root h = \<lparr>rt_heap = h, rt_root = Some n\<rparr>"
| "finish_update op n root Give_Up h = \<lparr>rt_heap = h, rt_root = root\<rparr>"

lemma update_twice_at:
  "h[c := f (h ! c), c := g (h[c := f (h ! c)] ! c)] = h[c := g (f (h ! c))]"
  by (cases "c < length h") (simp_all add: list_update_beyond)

lemma update_step_finish:
  assumes "update_step op pc h = (h', pc')"
  shows "finish_update op n root pc' h' = finish_update op n root pc h"
  using assms
proof (induction op pc h rule: update_step.induct)
  case (1 op cur h)
  then show ?case
    using update_twice_at [of h cur "\<lambda>x. x\<lparr>tn_target := op_target op\<rparr>" "\<lambda>x. x\<lparr>tn_is_end := True\<rparr>"]
    by (auto simp: finish_add_def)
next
  case (5 op cur path h)
  then show ?case
    using update_twice_at [of h cur "\<lambda>x. x\<lparr>tn_is_end := False\<rparr>" "\<lambda>x. x\<lparr>tn_target := None\<rparr>"]
    by (auto simp: finish_remove_def clear_route_def split: if_splits)
qed (auto simp: finish_add_def finish_remove_def Let_def split: prod.splits option.splits if_splits)

lemma finish_update_start:
  assumes "node_clone (rt_heap r) (rt_root r) = (h, n)"
    and "rt_root r \<noteq> None \<or> (\<exists>pre u strip ms. op = Op_Add pre u strip ms)"
  shows "finish_update op n (rt_root r) (op_start op n) h = apply_op r op"
proof (cases op)
  case (Op_Add pre u strip ms)
  with assms show ?thesis
    by (simp add: finish_add_def add_with_timeout_def route_segments_def target_of_def Let_def)
next
  case (Op_Remove pre)
  with assms(2) obtain a where "rt_root r = Some a" by auto
  with assms(1) Op_Remove show ?thesis
    by (auto simp: finish_remove_def remove_route_unfold split: sum.split prod.split)
qed

section \<open>Updates write only cells they allocated\<close>

fun pc_above :: "nat \<Rightarrow> update_pc \<Rightarrow> bool" where
  "pc_above b (Add_Loop segs cur) \<longleftrightarrow> b \<le> cur"
| "pc_above b (Add_Link seg nx segs cur) \<longleftrightarrow> b \<le> cur \<and> b \<le> nx"
| "pc_above b (Add_Flag cur) \<longleftrightarrow> b \<le> cur"
| "pc_above b (Rm_Loop segs cur path) \<longleftrightarrow> b \<le> cur \<and> (\<forall>x \<in> fst ` set path. b \<le> x)"
| "pc_above b (Rm_Link seg nx segs cur path) \<longleftrightarrow> b \<le> cur \<and> b \<le> nx \<and> (\<forall>x \<in> fst ` set path. b \<le> x)"
| "pc_above b (Rm_Target cur path) \<longleftrightarrow> b \<le> cur \<and> (\<forall>x \<in> fst ` set path. b \<le> x)"
| "pc_above b (Rm_Prune path) \<longleftrightarrow> (\<forall>x \<in> fst ` set path. b \<le> x)"
| "pc_above b Store_Root \<longleftrightarrow> True"
| "pc_above b Give_Up \<longleftrightarrow> True"

lemma node_clone_take:
  "node_clone h co = (h1, n) \<Longrightarrow> n = length h \<and> length h1 = Suc n \<and> take (length h) h1 = h"
  by (auto simp: node_clone_def alloc_def split: option.splits)

lemma take_le_trans: "take (length h) h1 = h \<Longrightarrow> b \<le> length h \<Longrightarrow> take b h1 = take b h"
  by (metis min.absorb1 take_take)

lemma update_step_frame:
  assumes "update_step op pc h = (h', pc')" "pc_above b pc" "b \<le> length h"
  shows "take b h' = take b h \<and> b \<le> length h' \<and> pc_above b pc'"
  using assms
proof (induction op pc h rule: update_step.induct)
  case (2 op seg segs cur h)
  then show ?case
    by (auto split: prod.splits dest!: node_clone_take intro: take_le_trans)
next
  case (6 op seg segs cur path h)
  then show ?case
    by (auto simp: Let_def split: prod.splits option.splits dest!: node_clone_take
        intro: take_le_trans)
qed (auto split: if_splits)

text \<open>
  The invariant of a run that started at router \<open>r0\<close>. Between updates the shared state is the
  router the finished updates built; during one, the root still is the old one, everything below
  the old heap's end is untouched, and finishing would give the result of the whole operation.
\<close>

definition sys_inv :: "router \<Rightarrow> router_sys \<Rightarrow> bool" where
  "sys_inv r0 s \<longleftrightarrow>
     (let r = apply_ops r0 (sy_done s) in
        sy_root s = rt_root r \<and>
        (case sy_writer s of
           None \<Rightarrow> sy_heap s = rt_heap r
         | Some (op, n, pc) \<Rightarrow>
             finish_update op n (rt_root r) pc (sy_heap s) = apply_op r op
             \<and> pc_above (length (rt_heap r)) pc
             \<and> take (length (rt_heap r)) (sy_heap s) = rt_heap r))"

lemma sys_inv_start: "sys_inv r0 (router_sys_of r0)"
  by (simp add: sys_inv_def router_sys_of_def)

lemma sys_inv_idle:
  "sys_inv r0 s \<Longrightarrow> sy_writer s = None \<Longrightarrow>
     \<lparr>rt_heap = sy_heap s, rt_root = sy_root s\<rparr> = apply_ops r0 (sy_done s)"
  by (simp add: sys_inv_def Let_def)

lemma sys_inv_take:
  "sys_inv r0 s \<Longrightarrow>
     take (length (rt_heap (apply_ops r0 (sy_done s)))) (sy_heap s) = rt_heap (apply_ops r0 (sy_done s))"
  by (auto simp: sys_inv_def Let_def split: option.splits prod.splits)

lemma take_length_le2: "take (length xs) ys = xs \<Longrightarrow> length xs \<le> length ys"
  by (metis length_take min.cobounded1)

lemma sys_step_inv:
  assumes "sys_step s s'" "sys_inv r0 s"
  shows "sys_inv r0 s'"
  using assms(1)
proof (cases rule: sys_step.cases)
  case (ss_nil pre)
  with assms(2) show ?thesis
    by (simp add: sys_inv_def Let_def remove_route_def)
next
  case (ss_lock op h new_root)
  let ?r = "apply_ops r0 (sy_done s)"
  from assms(2) ss_lock(2) have r: "sy_heap s = rt_heap ?r" "sy_root s = rt_root ?r"
    by (simp_all add: sys_inv_def Let_def)
  have c: "node_clone (rt_heap ?r) (rt_root ?r) = (h, new_root)"
    using ss_lock(4) r by simp
  have "finish_update op new_root (rt_root ?r) (op_start op new_root) h = apply_op ?r op"
    using finish_update_start [OF c] ss_lock(3) r by simp
  moreover have "pc_above (length (rt_heap ?r)) (op_start op new_root)"
    using node_clone_take [OF c] by (cases op) simp_all
  ultimately show ?thesis
    using ss_lock(1) r node_clone_take [OF c] by (simp add: sys_inv_def Let_def)
next
  case (ss_write op new_root pc h pc')
  let ?r = "apply_ops r0 (sy_done s)"
  from assms(2) ss_write(2) have r: "sy_root s = rt_root ?r"
    "finish_update op new_root (rt_root ?r) pc (sy_heap s) = apply_op ?r op"
    "pc_above (length (rt_heap ?r)) pc" "take (length (rt_heap ?r)) (sy_heap s) = rt_heap ?r"
    by (simp_all add: sys_inv_def Let_def)
  note fr = update_step_frame [OF ss_write(5) r(3) take_length_le2 [OF r(4)]]
  show ?thesis
    using ss_write(1) r fr update_step_finish [OF ss_write(5)] by (simp add: sys_inv_def Let_def)
next
  case (ss_store op new_root)
  with assms(2) have "apply_op (apply_ops r0 (sy_done s)) op = \<lparr>rt_heap = sy_heap s, rt_root = Some new_root\<rparr>"
    by (simp add: sys_inv_def Let_def)
  with ss_store(1) show ?thesis by (simp add: sys_inv_def)
next
  case (ss_give_up op new_root)
  with assms(2) have "apply_op (apply_ops r0 (sy_done s)) op = \<lparr>rt_heap = sy_heap s, rt_root = sy_root s\<rparr>"
    by (simp add: sys_inv_def Let_def)
  with ss_give_up(1) show ?thesis by (simp add: sys_inv_def)
qed

interpretation router_sys_kept: kept_by_steps sys_step "sys_inv r0" for r0
  by unfold_locales (rule sys_step_inv)

lemma sys_steps_inv: "sys_step\<^sup>*\<^sup>* s s' \<Longrightarrow> sys_inv r0 s \<Longrightarrow> sys_inv r0 s'"
  by (rule router_sys_kept.steps_keep)

text \<open>Cells below the end of a finished router's heap never change again.\<close>

definition settled :: "router \<Rightarrow> router_sys \<Rightarrow> nat \<Rightarrow> bool" where
  "settled r0 s b \<longleftrightarrow> sys_inv r0 s \<and> b \<le> length (rt_heap (apply_ops r0 (sy_done s)))"

lemma sys_step_settled:
  assumes "sys_step s s'" "settled r0 s b"
  shows "settled r0 s' b \<and> take b (sy_heap s') = take b (sy_heap s)"
proof -
  let ?r = "apply_ops r0 (sy_done s)" and ?r' = "apply_ops r0 (sy_done s')"
  from assms(2) have inv: "sys_inv r0 s" and b: "b \<le> length (rt_heap ?r)"
    by (simp_all add: settled_def)
  note inv' = sys_step_inv [OF assms(1) inv]
  have len: "length (rt_heap ?r) \<le> length (sy_heap s)"
    using sys_inv_take [OF inv] by (rule take_length_le2)
  have "take (length (rt_heap ?r)) (sy_heap s') = take (length (rt_heap ?r)) (sy_heap s)
      \<and> length (rt_heap ?r) \<le> length (rt_heap ?r')"
    using assms(1)
  proof (cases rule: sys_step.cases)
    case (ss_nil pre)
    then show ?thesis using inv by (simp add: sys_inv_def Let_def remove_route_def)
  next
    case (ss_lock op h new_root)
    then show ?thesis
      using node_clone_take [OF ss_lock(4)] inv by (simp add: sys_inv_def Let_def)
  next
    case (ss_write op new_root pc h pc')
    with inv have "pc_above (length (rt_heap ?r)) pc" by (simp add: sys_inv_def Let_def)
    from update_step_frame [OF ss_write(5) this len] ss_write show ?thesis by simp
  next
    case (ss_store op new_root)
    then have "sy_writer s' = None" "sy_heap s' = sy_heap s" by simp_all
    then have "rt_heap ?r' = sy_heap s"
      using inv' by (simp add: sys_inv_def Let_def)
    with ss_store(1) len show ?thesis by simp
  next
    case (ss_give_up op new_root)
    then have "sy_writer s' = None" "sy_heap s' = sy_heap s" by simp_all
    then have "rt_heap ?r' = sy_heap s"
      using inv' by (simp add: sys_inv_def Let_def)
    with ss_give_up(1) len show ?thesis by simp
  qed
  then have tk: "take (length (rt_heap ?r)) (sy_heap s') = take (length (rt_heap ?r)) (sy_heap s)"
    and le: "length (rt_heap ?r) \<le> length (rt_heap ?r')" by blast+
  have "take b xs = take b (take (length (rt_heap ?r)) xs)" for xs :: trie_heap
    using b by (simp add: min.absorb1)
  with tk have "take b (sy_heap s') = take b (sy_heap s)" by metis
  with inv' b le show ?thesis by (simp add: settled_def)
qed

lemma sys_steps_settled:
  "sys_step\<^sup>*\<^sup>* s s' \<Longrightarrow> settled r0 s b \<Longrightarrow> settled r0 s' b \<and> take b (sy_heap s') = take b (sy_heap s)"
  by (induction rule: rtranclp_induct) (use sys_step_settled in \<open>simp, metis\<close>)

section \<open>A reader among writers\<close>

text \<open>
  One execution of the loop of \<open>Match\<close>, without a lock: updates take any number of steps before
  each of its three reads per round (the child map, the child's \<open>isEnd\<close>, the child's target).
\<close>

inductive live_read ::
  "string \<Rightarrow> router_sys \<Rightarrow> nat \<Rightarrow> nat \<Rightarrow> route_target option \<Rightarrow> nat
     \<Rightarrow> route_target option \<times> nat \<Rightarrow> bool" for path where
  lr_done: "\<not> i < length path \<Longrightarrow> live_read path s cur i l m (l, m)"
| lr_miss: "i < length path \<Longrightarrow> sys_step\<^sup>*\<^sup>* s s1 \<Longrightarrow>
     map_of (tn_children (sy_heap s1 ! cur)) (substring path i (scan_segment path i)) = None \<Longrightarrow>
     live_read path s cur i l m (l, m)"
| lr_next: "i < length path \<Longrightarrow> sys_step\<^sup>*\<^sup>* s s1 \<Longrightarrow>
     segment = substring path i (scan_segment path i) \<Longrightarrow>
     map_of (tn_children (sy_heap s1 ! cur)) segment = Some nx \<Longrightarrow>
     i' = skip_slashes path (i + length segment) \<Longrightarrow>
     sys_step\<^sup>*\<^sup>* s1 s2 \<Longrightarrow> is_end = tn_is_end (sy_heap s2 ! nx) \<Longrightarrow> sys_step\<^sup>*\<^sup>* s2 s3 \<Longrightarrow>
     live_read path s3 nx i' (if is_end then tn_target (sy_heap s3 ! nx) else l)
       (if is_end then i' else m) res \<Longrightarrow>
     live_read path s cur i l m res"

lemma live_read_settled:
  assumes "live_read path s cur i l m res"
    and "settled r0 s b" "take b (sy_heap s) = take b h" "closed_below h b" "cur < b"
  shows "res = match_loop h path cur i l m"
  using assms
proof (induction rule: live_read.induct)
  case (lr_done i s cur l m)
  then show ?case by (subst match_loop.simps) simp
next
  case (lr_miss i s s1 cur l m)
  have "sy_heap s1 ! cur = h ! cur"
    using sys_steps_settled [OF lr_miss.hyps(2) lr_miss.prems(1)] lr_miss.prems by (metis nth_take)
  with lr_miss.hyps show ?case
    by (subst match_loop.simps) (simp add: Let_def)
next
  case (lr_next i s s1 segment cur nx i' s2 is_end s3 l m res)
  have s1: "settled r0 s1 b" "take b (sy_heap s1) = take b h"
    using sys_steps_settled [OF lr_next.hyps(2)] lr_next.prems by simp_all
  then have s2: "settled r0 s2 b" "take b (sy_heap s2) = take b h"
    using sys_steps_settled [OF lr_next.hyps(6)] by simp_all
  then have s3: "settled r0 s3 b" "take b (sy_heap s3) = take b h"
    using sys_steps_settled [OF lr_next.hyps(8)] by simp_all
  have cur: "sy_heap s1 ! cur = h ! cur"
    using s1(2) lr_next.prems(4) by (metis nth_take)
  with lr_next.hyps(4) have nx: "nx < b"
    using closed_belowD [OF lr_next.prems(3,4)] by (auto dest: map_of_SomeD)
  then have node: "sy_heap s2 ! nx = h ! nx" "sy_heap s3 ! nx = h ! nx"
    using s2(2) s3(2) by (metis nth_take)+
  have "res = match_loop h path nx i' (if is_end then tn_target (sy_heap s3 ! nx) else l)
      (if is_end then i' else m)"
    using lr_next.IH s3 lr_next.prems(3) nx by simp
  with lr_next.hyps cur node show ?case
    by (subst match_loop.simps) (simp add: Let_def)
qed

text \<open>
  One call of \<open>Match\<close>: the root pointer is loaded in state \<open>s\<close>, everything after that may be
  interleaved with updates. \<open>match_answer\<close> is the end of the function, on local values only.
\<close>

definition match_answer :: "string \<Rightarrow> route_target option \<times> nat \<Rightarrow> (route_target \<times> string) option" where
  "match_answer path res =
     (case fst res of
        None \<Rightarrow> None
      | Some t \<Rightarrow>
          Some (t,
            if rt_strip_prefix t
            then (if snd res \<ge> length path then [slash]
                  else (let out = drop (snd res) path
                        in if \<not> has_prefix out [slash] then slash # out else out))
            else path))"

inductive live_match :: "string \<Rightarrow> router_sys \<Rightarrow> (route_target \<times> string) option \<Rightarrow> bool" where
  lm_nil: "sy_root s = None \<Longrightarrow> live_match path s None"
| lm_walk: "sy_root s = Some cur \<Longrightarrow> path' = (if length path = 0 then [slash] else path) \<Longrightarrow>
     sys_step\<^sup>*\<^sup>* s s1 \<Longrightarrow> is_end = tn_is_end (sy_heap s1 ! cur) \<Longrightarrow> sys_step\<^sup>*\<^sup>* s1 s2 \<Longrightarrow>
     live_read path' s2 cur (skip_slashes path' 0)
       (if is_end then tn_target (sy_heap s2 ! cur) else None) 0 res \<Longrightarrow>
     live_match path s (match_answer path' res)"

lemma live_match_settled:
  assumes "live_match path s ans" "sys_inv r0 s" "router_inv (apply_ops r0 (sy_done s))"
  shows "ans = match_route (apply_ops r0 (sy_done s)) path"
  using assms(1)
proof (cases rule: live_match.cases)
  case lm_nil
  with assms(2) show ?thesis by (simp add: sys_inv_def match_route_def Let_def)
next
  case (lm_walk cur path' s1 is_end s2 res)
  let ?r = "apply_ops r0 (sy_done s)" and ?b = "length (rt_heap (apply_ops r0 (sy_done s)))"
  have root: "rt_root ?r = Some cur"
    using assms(2) lm_walk(2) by (simp add: sys_inv_def Let_def)
  with assms(3) have r: "cur < ?b" "closed_below (rt_heap ?r) ?b"
    by (auto elim!: router_invE dest: repr_bound)
  have s: "settled r0 s ?b" "take ?b (sy_heap s) = take ?b (rt_heap ?r)"
    using assms(2) sys_inv_take [OF assms(2)] by (simp_all add: settled_def)
  with sys_steps_settled [OF lm_walk(4)]
  have s1: "settled r0 s1 ?b" "take ?b (sy_heap s1) = take ?b (rt_heap ?r)" by simp_all
  with sys_steps_settled [OF lm_walk(6)]
  have s2: "settled r0 s2 ?b" "take ?b (sy_heap s2) = take ?b (rt_heap ?r)" by simp_all
  have cells: "sy_heap s1 ! cur = rt_heap ?r ! cur" "sy_heap s2 ! cur = rt_heap ?r ! cur"
    using s1(2) s2(2) r(1) by (metis nth_take)+
  have "res = match_loop (rt_heap ?r) path' cur (skip_slashes path' 0)
      (if tn_is_end (rt_heap ?r ! cur) then tn_target (rt_heap ?r ! cur) else None) 0"
    using live_read_settled [OF lm_walk(7) s2 r(2,1)] lm_walk(5) cells by simp
  with lm_walk(1,3) root show ?thesis
    by (simp add: match_route_def match_answer_def Let_def split: prod.split option.split)
qed

section \<open>Progress of updates\<close>

text \<open>
  A started update finishes in as many steps as its loop has left, whatever the heap holds, and
  then the shared state is the one the whole operation computes.
\<close>

fun pc_left :: "update_pc \<Rightarrow> nat" where
  "pc_left (Add_Loop segs cur) = 2 * length segs + 2"
| "pc_left (Add_Link seg nx segs cur) = 2 * length segs + 3"
| "pc_left (Add_Flag cur) = 1"
| "pc_left (Rm_Loop segs cur path) = 3 * length segs + length path + 3"
| "pc_left (Rm_Link seg nx segs cur path) = 3 * length segs + length path + 5"
| "pc_left (Rm_Target cur path) = length path + 2"
| "pc_left (Rm_Prune path) = length path + 1"
| "pc_left Store_Root = 0"
| "pc_left Give_Up = 0"

lemma update_step_left:
  "update_step op pc h = (h', pc') \<Longrightarrow> pc \<noteq> Store_Root \<Longrightarrow> pc \<noteq> Give_Up \<Longrightarrow> pc_left pc' < pc_left pc"
  by (induction op pc h rule: update_step.induct)
    (auto simp: Let_def split: prod.splits option.splits if_splits)

lemma update_finishes:
  "sy_writer s = Some (op, n, pc) \<Longrightarrow>
     \<exists>s'. sys_step\<^sup>*\<^sup>* s s' \<and> sy_writer s' = None \<and> sy_done s' = sy_done s @ [op]"
proof (induction "pc_left pc" arbitrary: s pc rule: less_induct)
  case less
  consider "pc = Store_Root" | "pc = Give_Up" | "pc \<noteq> Store_Root" "pc \<noteq> Give_Up" by blast
  then show ?case
  proof cases
    case 1
    with less.prems have "sys_step s (s\<lparr>sy_root := Some n, sy_writer := None, sy_done := sy_done s @ [op]\<rparr>)"
      by (intro ss_store) simp
    then show ?thesis by (intro exI [where x = "s\<lparr>sy_root := Some n, sy_writer := None, sy_done := sy_done s @ [op]\<rparr>"]) auto
  next
    case 2
    with less.prems have "sys_step s (s\<lparr>sy_writer := None, sy_done := sy_done s @ [op]\<rparr>)"
      by (intro ss_give_up) simp
    then show ?thesis by (intro exI [where x = "s\<lparr>sy_writer := None, sy_done := sy_done s @ [op]\<rparr>"]) auto
  next
    case 3
    obtain h pc' where u: "update_step op pc (sy_heap s) = (h, pc')" by fastforce
    let ?s = "s\<lparr>sy_heap := h, sy_writer := Some (op, n, pc')\<rparr>"
    have step: "sys_step s ?s" using less.prems 3 u by (rule ss_write)
    obtain s' where "sys_step\<^sup>*\<^sup>* ?s s'" "sy_writer s' = None" "sy_done s' = sy_done ?s @ [op]"
      using less.hyps [OF update_step_left [OF u 3], of ?s] by auto
    with step show ?thesis by (auto intro: converse_rtranclp_into_rtranclp)
  qed
qed

lemma update_runs:
  assumes "sys_inv r0 s" "sy_writer s = None" "sy_root s \<noteq> None"
  shows "\<exists>s'. sys_step\<^sup>*\<^sup>* s s' \<and> sy_writer s' = None \<and> sy_done s' = sy_done s @ [op]
    \<and> \<lparr>rt_heap = sy_heap s', rt_root = sy_root s'\<rparr> = apply_ops r0 (sy_done s @ [op])"
proof -
  obtain h n where c: "node_clone (sy_heap s) (sy_root s) = (h, n)" by fastforce
  let ?s = "s\<lparr>sy_heap := h, sy_writer := Some (op, n, op_start op n)\<rparr>"
  have step: "sys_step s ?s" using assms(2,3) c by (intro ss_lock) auto
  obtain s' where s': "sys_step\<^sup>*\<^sup>* ?s s'" "sy_writer s' = None" "sy_done s' = sy_done s @ [op]"
    using update_finishes [of ?s op n "op_start op n"] by auto
  with step have "sys_step\<^sup>*\<^sup>* s s'" by (auto intro: converse_rtranclp_into_rtranclp)
  with s' sys_inv_idle [OF sys_steps_inv [OF this assms(1)]] show ?thesis by metis
qed

section \<open>Reachable routers\<close>

inductive router_step :: "router \<Rightarrow> router \<Rightarrow> bool" where
  rs_add: "router_step r (add_with_timeout r pre u strip ms)"
| rs_remove: "router_step r (snd (remove_route r pre))"

inductive_cases router_stepE: "router_step r r'"

lemma router_step_inv: "router_step r r' \<Longrightarrow> router_inv r \<Longrightarrow> router_inv r'"
  by (erule router_stepE) (auto simp: router_add_correct(1) router_remove_correct(1))

interpretation router_kept: kept_by_steps router_step router_inv
  by unfold_locales (rule router_step_inv)

lemma router_steps_inv: "router_step\<^sup>*\<^sup>* r r' \<Longrightarrow> router_inv r \<Longrightarrow> router_inv r'"
  by (rule router_kept.steps_keep)

lemma apply_op_inv: "router_inv r \<Longrightarrow> router_inv (apply_op r op)"
  by (cases op) (simp_all add: router_add_correct(1) router_remove_correct(1))

lemma apply_ops_inv: "router_inv r \<Longrightarrow> router_inv (apply_ops r ops)"
  by (induction ops arbitrary: r) (simp_all add: apply_op_inv)

lemma router_step_take:
  "router_step r r' \<Longrightarrow> router_inv r \<Longrightarrow> take (length (rt_heap r)) (rt_heap r') = rt_heap r"
  by (erule router_stepE) (auto simp: router_add_correct(3) router_remove_correct(4))

lemma router_steps_take:
  "router_step\<^sup>*\<^sup>* r r' \<Longrightarrow> router_inv r \<Longrightarrow> take (length (rt_heap r)) (rt_heap r') = rt_heap r"
proof (induction rule: rtranclp_induct)
  case (step r1 r2)
  then have "take (length (rt_heap r)) (rt_heap r1) = rt_heap r"
    "take (length (rt_heap r1)) (rt_heap r2) = rt_heap r1"
    using router_step_take router_steps_inv by blast+
  then show ?case by (rule take_length_trans)
qed simp

section \<open>The interface of a routing table\<close>

locale route_table =
  fixes tb_add :: "'r \<Rightarrow> string \<Rightarrow> gurl \<Rightarrow> bool \<Rightarrow> int \<Rightarrow> 'r"
    and tb_remove :: "'r \<Rightarrow> string \<Rightarrow> bool \<times> 'r"
    and tb_match :: "'r \<Rightarrow> string \<Rightarrow> (route_target \<times> string) option"
    and tb_routes :: "'r \<Rightarrow> string list \<Rightarrow> route_target option"
    and tb_ok :: "'r \<Rightarrow> bool"
  assumes tb_ok_add: "tb_ok r \<Longrightarrow> tb_ok (tb_add r pre u strip ms)"
    and tb_ok_remove: "tb_ok r \<Longrightarrow> tb_ok (snd (tb_remove r pre))"
    and tb_routes_add: "tb_ok r \<Longrightarrow>
      tb_routes (tb_add r pre u strip ms) = (tb_routes r)(route_segments pre \<mapsto> target_of pre u strip ms)"
    and tb_routes_remove: "tb_ok r \<Longrightarrow>
      tb_routes (snd (tb_remove r pre)) = (tb_routes r)(route_segments pre := None)"
    and tb_removed: "tb_ok r \<Longrightarrow> fst (tb_remove r pre) \<longleftrightarrow> tb_routes r (route_segments pre) \<noteq> None"
    and tb_match_longest: "tb_ok r \<Longrightarrow> tb_match r path =
      map_option (\<lambda>(n, t). (t, outbound_path t n (request_path path)))
        (longest_route (tb_routes r) (path_segments (request_path path)))"
begin

text \<open>Two tables with the same routes answer every request alike.\<close>

lemma tb_match_cong:
  "tb_ok r \<Longrightarrow> tb_ok r' \<Longrightarrow> tb_routes r = tb_routes r' \<Longrightarrow> tb_match r path = tb_match r' path"
  by (simp add: tb_match_longest)

lemma tb_remove_add:
  assumes "tb_ok r" "tb_routes r (route_segments pre) = None"
  shows "fst (tb_remove (tb_add r pre u strip ms) pre)"
    and "tb_match (snd (tb_remove (tb_add r pre u strip ms) pre)) path = tb_match r path"
proof -
  show "fst (tb_remove (tb_add r pre u strip ms) pre)"
    using assms by (simp add: tb_removed tb_ok_add tb_routes_add)
  have "tb_routes (snd (tb_remove (tb_add r pre u strip ms) pre)) = tb_routes r"
    using assms by (auto simp: tb_routes_remove tb_ok_add tb_routes_add)
  then show "tb_match (snd (tb_remove (tb_add r pre u strip ms) pre)) path = tb_match r path"
    using assms(1) by (intro tb_match_cong) (auto intro: tb_ok_add tb_ok_remove)
qed

text \<open>A batch of registrations: the last one for a prefix wins.\<close>

definition tb_mount :: "'r \<Rightarrow> (string \<times> gurl \<times> bool \<times> int) list \<Rightarrow> 'r" where
  "tb_mount r rs = foldl (\<lambda>r (pre, u, strip, ms). tb_add r pre u strip ms) r rs"

lemma tb_mount_simps [simp]:
  "tb_mount r [] = r"
  "tb_mount r ((pre, u, strip, ms) # rs) = tb_mount (tb_add r pre u strip ms) rs"
  by (simp_all add: tb_mount_def)

lemma tb_ok_mount: "tb_ok r \<Longrightarrow> tb_ok (tb_mount r rs)"
proof (induction rs arbitrary: r)
  case (Cons x rs)
  then show ?case by (cases x) (simp add: tb_ok_add)
qed simp

lemma tb_routes_mount:
  "tb_ok r \<Longrightarrow> tb_routes (tb_mount r rs) =
     tb_routes r ++ map_of (rev (map (\<lambda>(pre, u, strip, ms).
       (route_segments pre, target_of pre u strip ms)) rs))"
proof (induction rs arbitrary: r)
  case (Cons x rs)
  obtain pre u strip ms where x: "x = (pre, u, strip, ms)" by (cases x)
  with Cons show ?case
    by (simp add: tb_ok_add tb_routes_add map_add_def fun_eq_iff split: option.split)
qed simp

text \<open>A registered empty segment can never be reached: request paths have none.\<close>

lemma path_segments_nonempty: "[] \<notin> set (path_segments path)"
  by (simp add: path_segments_def)

lemma tb_dead_route:
  assumes "tb_ok r" "[] \<in> set (route_segments pre)"
  shows "tb_match (tb_add r pre u strip ms) path = tb_match r path"
proof -
  let ?segs = "path_segments (request_path path)"
  have ne: "take n ?segs \<noteq> route_segments pre" for n
    using assms(2) path_segments_nonempty [of "request_path path"] in_set_takeD by metis
  have "longest_route (tb_routes (tb_add r pre u strip ms)) ?segs = longest_route (tb_routes r) ?segs"
    using ne assms(1) by (intro longest_route_cong) (simp add: tb_routes_add)
  then show ?thesis
    using assms(1) by (simp add: tb_match_longest tb_ok_add)
qed

end

interpretation trie_table: route_table add_with_timeout remove_route match_route router_routes router_inv
  by unfold_locales
    (simp_all add: router_add_correct router_remove_correct match_route_correct)

end
