(* ===== verification/Route_Properties.thy ===== *)
theory Route_Properties
  imports Route_Concurrency
begin

text \<open>
  The properties of src/pkg/router/trie.go: what \<open>Add\<close>, \<open>Remove\<close> and \<open>Match\<close> do to the table of
  routes, that removal leaves no dead nodes behind, and that lock-free readers are isolated from
  writers. Each theorem that has hypotheses is followed by an instance on a small router.
\<close>

section \<open>A sample router\<close>

definition sample_url :: gurl where
  "sample_url = \<lparr>u_scheme = ''http'', u_host = ''localhost:5002'', u_string = ''http://localhost:5002''\<rparr>"

definition sample_router :: router where
  "sample_router = add_with_timeout (add_with_timeout (new_router []) ''/api/v1'' sample_url True 10000)
     ''/'' sample_url False 5000"

lemma router_inv_initial: "router_inv (new_router [])"
  using router_inv_new [of "[]"] by (simp add: closed_below_def)

lemma router_inv_sample: "router_inv sample_router"
  unfolding sample_router_def by (intro router_add_correct(1) router_inv_initial)

lemma router_routes_initial: "router_routes (new_router []) = (\<lambda>_. None)"
  using router_inv_new [of "[]"] by (simp add: closed_below_def)

lemma sample_segments:
  "route_segments ''/api/v1'' = [''api'', ''v1'']" "route_segments ''/'' = []"
  "route_segments ''/auth'' = [''auth'']" "route_segments ''/a//b'' = [''a'', [], ''b'']"
  by (simp_all add: route_segments_def trim_slashes_def trim_left_def trim_right_def)

lemma sample_routes:
  "router_routes sample_router =
     [[''api'', ''v1''] \<mapsto> target_of ''/api/v1'' sample_url True 10000,
      [] \<mapsto> target_of ''/'' sample_url False 5000]"
  by (simp add: sample_router_def router_add_correct router_inv_initial router_routes_initial
      sample_segments)

section \<open>Lookup\<close>

text \<open>
  C1: \<open>Match\<close> returns a target exactly when some prefix of the request path's segments is
  registered, and then it is the target of the longest such prefix.
\<close>

theorem match_longest_prefix:
  fixes path :: string
  assumes "router_inv r"
  defines "segs \<equiv> path_segments (request_path path)"
  shows "(match_route r path = None \<longleftrightarrow> (\<forall>n \<le> length segs. router_routes r (take n segs) = None))
    \<and> (\<forall>t out. match_route r path = Some (t, out) \<longrightarrow>
         (\<exists>n \<le> length segs. router_routes r (take n segs) = Some t
            \<and> (\<forall>m. n < m \<and> m \<le> length segs \<longrightarrow> router_routes r (take m segs) = None)))"
proof (intro conjI allI impI)
  show "match_route r path = None \<longleftrightarrow> (\<forall>n \<le> length segs. router_routes r (take n segs) = None)"
    unfolding segs_def by (simp add: match_route_correct [OF assms(1)] longest_route_None)
next
  fix t out
  assume "match_route r path = Some (t, out)"
  then obtain n where "longest_route (router_routes r) segs = Some (n, t)"
    unfolding segs_def by (auto simp: match_route_correct [OF assms(1)])
  then show "\<exists>n \<le> length segs. router_routes r (take n segs) = Some t
      \<and> (\<forall>m. n < m \<and> m \<le> length segs \<longrightarrow> router_routes r (take m segs) = None)"
    unfolding longest_route_Some by blast
qed

theorem match_longest_prefix_witness:
  "match_route sample_router ''/api/v1/users'' \<noteq> None"
proof -
  have "router_routes sample_router (take 0 (path_segments (request_path ''/api/v1/users''))) \<noteq> None"
    by (simp add: sample_routes)
  with conjunct1 [OF match_longest_prefix [OF router_inv_sample, of "''/api/v1/users''"]]
  show ?thesis by (metis le0)
qed

text \<open>
  the path sent upstream. Without \<open>StripPrefix\<close> it is the request path; with it, the path
  starts with a slash and its segments are exactly those behind the matched prefix.
\<close>

theorem match_outbound_segments:
  fixes path :: string
  assumes "router_inv r" "match_route r path = Some (t, out)"
  defines "segs \<equiv> path_segments (request_path path)"
  shows "\<exists>n \<le> length segs. router_routes r (take n segs) = Some t
    \<and> (if rt_strip_prefix t then has_prefix out [slash] \<and> path_segments out = drop n segs
       else out = request_path path)"
proof -
  let ?p = "request_path path"
  from assms(2) obtain n where n: "longest_route (router_routes r) segs = Some (n, t)"
    and out: "out = outbound_path t n ?p"
    unfolding segs_def by (auto simp: match_route_correct [OF assms(1)])
  from n have n': "n \<le> length segs" "router_routes r (take n segs) = Some t"
    by (simp_all add: longest_route_Some)
  have "path_segments (skip_segments n (drop_slashes ?p)) = drop n segs"
    using skip_segments_segs [of n "drop_slashes ?p"] n'(1) drop_slashes_no_slash
    by (simp add: segs_def)
  moreover have "path_segments (slash # ?p) = segs" by (simp add: segs_def)
  ultimately have "if rt_strip_prefix t then has_prefix out [slash] \<and> path_segments out = drop n segs
       else out = ?p"
    unfolding out outbound_path_def by (cases "n = 0") (auto simp: segs_def)
  with n' show ?thesis by blast
qed

theorem match_outbound_segments_witness:
  "match_route sample_router ''/api/v1/users/7'' =
     Some (target_of ''/api/v1'' sample_url True 10000, ''/users/7'')
   \<and> (\<exists>n. path_segments ''/users/7'' = drop n (path_segments ''/api/v1/users/7''))"
proof -
  have m: "match_route sample_router ''/api/v1/users/7'' =
      Some (target_of ''/api/v1'' sample_url True 10000, ''/users/7'')"
    by (simp add: match_route_correct router_inv_sample sample_routes path_segments_def
        outbound_path_def target_of_def numeral_eq_Suc)
  moreover from match_outbound_segments [OF router_inv_sample m]
  have "\<exists>n. path_segments ''/users/7'' = drop n (path_segments ''/api/v1/users/7'')"
    by (auto simp: target_of_def)
  ultimately show ?thesis by blast
qed

section \<open>Updates\<close>

text \<open>
  \<open>AddWithTimeout\<close> changes the table at the prefix's segments only, and leaves there a target
  with the given URL, flag and timeout and the cleaned prefix.
\<close>

theorem add_updates_one_route:
  assumes "router_inv r"
  shows "router_inv (add_with_timeout r pre u strip ms)
    \<and> router_routes (add_with_timeout r pre u strip ms) segs =
        (if segs = route_segments pre
         then Some \<lparr>rt_target = u, rt_strip_prefix = strip, rt_prefix = slash # trim_slashes pre,
                    rt_timeout_ms = ms\<rparr>
         else router_routes r segs)"
  using router_add_correct [OF assms, of pre u strip ms] by (simp add: target_of_def)

theorem add_updates_one_route_witness:
  "router_routes (add_with_timeout sample_router ''/auth'' sample_url False 0) [''auth''] \<noteq> None
   \<and> router_routes (add_with_timeout sample_router ''/auth'' sample_url False 0) [] \<noteq> None"
  using add_updates_one_route [OF router_inv_sample, of "''/auth''" sample_url False 0]
  by (simp add: sample_segments sample_routes)

text \<open>
  \<open>Remove\<close> reports whether the route was registered; afterwards it is not, and every other
  route is as before.
\<close>

theorem remove_updates_one_route:
  assumes "router_inv r" "remove_route r pre = (found, r')"
  shows "router_inv r' \<and> (found \<longleftrightarrow> router_routes r (route_segments pre) \<noteq> None)
    \<and> router_routes r' segs = (if segs = route_segments pre then None else router_routes r segs)"
  using router_remove_correct [OF assms(1), of pre] assms(2) by simp

theorem remove_updates_one_route_witness:
  "fst (remove_route sample_router ''/api/v1'')
   \<and> router_routes (snd (remove_route sample_router ''/api/v1'')) [] \<noteq> None"
  using remove_updates_one_route [OF router_inv_sample, of "''/api/v1''"
      "fst (remove_route sample_router ''/api/v1'')" "snd (remove_route sample_router ''/api/v1'')" "[]"]
  by (simp add: sample_routes sample_segments)

text \<open>
  mounting a prefix that was free and unmounting it again leaves a router that answers every
  request as before.
\<close>

theorem add_then_remove_restores:
  assumes "router_inv r" "router_routes r (route_segments pre) = None"
  shows "fst (remove_route (add_with_timeout r pre u strip ms) pre)
    \<and> match_route (snd (remove_route (add_with_timeout r pre u strip ms) pre)) path = match_route r path"
  using trie_table.tb_remove_add [OF assms] by blast

theorem add_then_remove_restores_witness:
  "match_route (snd (remove_route (add_with_timeout sample_router ''/auth'' sample_url True 1) ''/auth''))
     ''/auth/x'' = match_route sample_router ''/auth/x''"
  using add_then_remove_restores [OF router_inv_sample, of "''/auth''" sample_url True 1 "''/auth/x''"]
  by (simp add: sample_routes sample_segments)

text \<open>
  a prefix with an empty inner segment (as in \<open>"/a//b"\<close>) is accepted by \<open>Add\<close> but can never
  be matched: no request is answered differently after it is registered.
\<close>

theorem empty_segment_route_unreachable:
  assumes "router_inv r" "[] \<in> set (route_segments pre)"
  shows "match_route (add_with_timeout r pre u strip ms) path = match_route r path"
  using trie_table.tb_dead_route [OF assms] .

theorem empty_segment_route_unreachable_witness:
  "match_route (add_with_timeout (new_router []) ''/a//b'' sample_url False 0) ''/a//b'' = None"
  using empty_segment_route_unreachable [OF router_inv_initial, of "''/a//b''" sample_url False 0 "''/a//b''"]
  by (simp add: sample_segments match_route_correct router_inv_initial router_routes_initial)

section \<open>No dead nodes\<close>

text \<open>The node a segment list leads to.\<close>

fun heap_walk :: "trie_heap \<Rightarrow> nat \<Rightarrow> string list \<Rightarrow> nat option" where
  "heap_walk h a [] = Some a"
| "heap_walk h a (s # ss) =
     (case map_of (tn_children (h ! a)) s of None \<Rightarrow> None | Some b \<Rightarrow> heap_walk h b ss)"

lemma heap_walk_repr:
  "heap_walk h a ss = Some b \<Longrightarrow> repr h a t \<Longrightarrow> trie_ok t \<Longrightarrow>
     \<exists>u. repr h b u \<and> trie_ok u \<and> (ss \<noteq> [] \<longrightarrow> \<not> trie_dead u)"
proof (induction ss arbitrary: a t)
  case (Cons s ss)
  obtain cs tt e where t: "t = Trie cs tt e" by (cases t)
  from Cons.prems(1) obtain c where c: "map_of (tn_children (h ! a)) s = Some c" "heap_walk h c ss = Some b"
    by (auto split: option.splits)
  with Cons.prems(2) repr_children [of h a cs tt e s] obtain u where u: "map_of cs s = Some u" "repr h c u"
    unfolding t by (auto simp: option_rel_Some1)
  with Cons.prems(3) t have "trie_ok u" "\<not> trie_dead u" by (auto dest: map_of_SomeD)
  with Cons.IH [OF c(2) u(2)] c(2) u(2) show ?case
    by (cases ss) auto
qed auto

lemma heap_lookup_walk:
  "heap_walk h a ss = Some b \<Longrightarrow> heap_lookup h a (ss @ qs) = heap_lookup h b qs"
  by (induction ss arbitrary: a) (auto split: option.splits)

text \<open>
  C5: after any sequence of registrations and removals, every node below the root lies on the way
  to a registered route, so pruning leaves no dead branches behind.
\<close>

theorem no_dead_branches:
  assumes "router_step\<^sup>*\<^sup>* (new_router []) r" "rt_root r = Some a"
    and "heap_walk (rt_heap r) a segs = Some b" "segs \<noteq> []"
  shows "\<exists>rest. router_routes r (segs @ rest) \<noteq> None"
proof -
  have "router_inv r"
    using assms(1) router_inv_initial by (rule router_steps_inv)
  then obtain t where t: "repr (rt_heap r) a t" "trie_ok t"
    using assms(2) by (auto elim: router_invE)
  with heap_walk_repr [OF assms(3)] assms(4) obtain u where u: "repr (rt_heap r) b u" "trie_ok u"
    "\<not> trie_dead u" by blast
  then obtain rest rt where "trie_lookup u rest = Some rt"
    using trie_not_dead_route by blast
  then have "router_routes r (segs @ rest) = Some rt"
    by (simp add: router_routes_def assms(2) heap_lookup_walk [OF assms(3)] repr_lookup [OF u(1)])
  then show ?thesis by blast
qed

theorem no_dead_branches_witness:
  "\<exists>rest. router_routes sample_router ([''api''] @ rest) \<noteq> None"
proof -
  have steps: "router_step\<^sup>*\<^sup>* (new_router []) sample_router"
    unfolding sample_router_def
    by (meson r_into_rtranclp rs_add rtranclp.rtrancl_into_rtrancl)
  have h: "rt_root sample_router = Some 4"
    "heap_walk (rt_heap sample_router) 4 [''api''] = Some 2"
    by code_simp+
  show ?thesis
    using no_dead_branches [OF steps h] by simp
qed

section \<open>Lock-free readers\<close>

text \<open>
  C9: a \<open>Match\<close> without a lock is isolated from the updates it runs among. Whatever
  \<open>AddWithTimeout\<close> and \<open>Remove\<close> calls a run of the router has begun, each broken down to its
  single writes, and however far they get between any two reads of the running \<open>Match\<close>: it
  answers as \<open>Match\<close> answers on the router built by exactly the calls that had finished when it
  loaded the root pointer, run one after the other. No call shows half-done, and none that
  finishes later shows at all.
\<close>

theorem running_match_isolated:
  assumes "router_inv r0" "sys_step\<^sup>*\<^sup>* (router_sys_of r0) s" "live_match path s ans"
  shows "ans = match_route (apply_ops r0 (sy_done s)) path"
  using assms(3) sys_steps_inv [OF assms(2) sys_inv_start] apply_ops_inv [OF assms(1)]
  by (rule live_match_settled)

lemma sample_route_removed:
  "match_route (snd (remove_route sample_router ''/api/v1'')) ''/api/v1/users'' \<noteq>
     match_route sample_router ''/api/v1/users''"
  by code_simp

lemma sample_scan:
  fixes p :: string
  defines "p \<equiv> ''/api/v1/users''"
  shows "skip_slashes p 0 = 1" "substring p 1 (scan_segment p 1) = ''api''"
    "skip_slashes p 4 = 5" "substring p 5 (scan_segment p 5) = ''v1''"
    "skip_slashes p 7 = 8" "substring p 8 (scan_segment p 8) = ''users''"
  unfolding p_def by code_simp+

lemma sample_cells:
  "map_of (tn_children (rt_heap sample_router ! 4)) ''api'' = Some 2"
  "map_of (tn_children (rt_heap sample_router ! 2)) ''v1'' = Some 3"
  "map_of (tn_children (rt_heap sample_router ! 3)) ''users'' = None"
  "\<not> tn_is_end (rt_heap sample_router ! 2)" "tn_is_end (rt_heap sample_router ! 3)"
  by code_simp+

text \<open>
  A reader that loads the root of the sample router, and a \<open>Remove\<close> of the very route it is about
  to find that runs to its end before the reader looks at the first node.
\<close>

theorem running_match_isolated_witness:
  "\<exists>s. sys_step\<^sup>*\<^sup>* (router_sys_of sample_router) s \<and> sy_done s = [Op_Remove ''/api/v1'']
     \<and> match_route \<lparr>rt_heap = sy_heap s, rt_root = sy_root s\<rparr> ''/api/v1/users'' \<noteq>
         match_route sample_router ''/api/v1/users''
     \<and> (\<exists>ans. live_match ''/api/v1/users'' (router_sys_of sample_router) ans
          \<and> ans = match_route sample_router ''/api/v1/users'')"
proof -
  let ?h = "rt_heap sample_router" and ?p = "''/api/v1/users''" and ?s0 = "router_sys_of sample_router"
  have root: "rt_root sample_router = Some 4" and len: "length ?h = 5" by code_simp+
  have "sys_inv sample_router ?s0" "sy_writer ?s0 = None" "sy_root ?s0 \<noteq> None" "sy_done ?s0 = []"
    using root by (simp_all add: sys_inv_start) (simp_all add: router_sys_of_def)
  from update_runs [OF this(1-3), of "Op_Remove ''/api/v1''"] this(4)
  obtain s where s: "sys_step\<^sup>*\<^sup>* ?s0 s" "sy_done s = [Op_Remove ''/api/v1'']"
    "\<lparr>rt_heap = sy_heap s, rt_root = sy_root s\<rparr> = snd (remove_route sample_router ''/api/v1'')"
    by auto
  have "settled sample_router ?s0 5"
    using sys_inv_start [of sample_router] len by (simp add: settled_def) (simp add: router_sys_of_def)
  from sys_steps_settled [OF s(1) this]
  have "take 5 (sy_heap s) = ?h" using len by (simp add: router_sys_of_def)
  then have cell: "sy_heap s ! a = ?h ! a" if "a < 5" for a
    using that by (metis nth_take)
  note g = sample_scan and c = sample_cells
  let ?res = "(tn_target (?h ! 3), 8)"
  have r3: "live_read ?p s 3 8 (tn_target (?h ! 3)) 8 ?res"
    by (rule lr_miss [OF _ rtranclp.rtrancl_refl]) (simp_all add: g cell c)
  have r2: "live_read ?p s 2 5 l 0 ?res" for l
    by (rule lr_next [OF _ rtranclp.rtrancl_refl refl _ refl rtranclp.rtrancl_refl refl
          rtranclp.rtrancl_refl, where nx = 3]) (simp_all add: g cell c r3 [simplified])
  have e: "5 = skip_slashes ?p (1 + length ''api'')" by code_simp
  have r2': "live_read ?p s 2 5 (if tn_is_end (sy_heap s ! 2) then tn_target (sy_heap s ! 2) else l)
      (if tn_is_end (sy_heap s ! 2) then 5 else 0) ?res" for l
    using r2 by (simp add: cell c)
  have r4: "live_read ?p s 4 (skip_slashes ?p 0) l 0 ?res" for l
    unfolding g(1)
    by (rule lr_next [OF _ rtranclp.rtrancl_refl g(2) [symmetric] _ e rtranclp.rtrancl_refl refl
          rtranclp.rtrancl_refl r2']) (simp_all add: cell c)
  have live: "live_match ?p ?s0 (match_answer ?p ?res)"
    by (rule lm_walk [OF _ _ s(1) refl rtranclp.rtrancl_refl r4, where path = ?p])
      (simp_all add: router_sys_of_def root)
  from running_match_isolated [OF router_inv_sample rtranclp.rtrancl_refl live]
  have ans: "match_answer ?p ?res = match_route sample_router ?p"
    by (simp only: router_sys_of_def router_sys.select_convs foldl.simps)
  show ?thesis
    by (intro exI conjI, rule s(1), rule s(2), simp only: s(3) sample_route_removed, simp)
      (rule live, rule ans)
qed

text \<open>
  a root pointer loaded before any number of updates keeps answering every request as it did,
  on the heap the updates left behind.
\<close>

theorem old_root_keeps_answers:
  assumes "router_inv r" "router_step\<^sup>*\<^sup>* r r'"
  shows "match_route \<lparr>rt_heap = rt_heap r', rt_root = rt_root r\<rparr> path = match_route r path"
proof -
  let ?s = "\<lparr>rt_heap = rt_heap r', rt_root = rt_root r\<rparr>"
  from assms(1) obtain a t where r: "rt_root r = Some a" "repr (rt_heap r) a t" "trie_ok t"
    "closed_below (rt_heap r) (length (rt_heap r))" "router_routes r = trie_lookup t"
    by (rule router_invE)
  note tk = router_steps_take [OF assms(2,1)]
  have "repr (rt_heap r') a t"
    using r(2) repr_bound [OF r(2)] r(4) take_length_nth [OF tk] take_length_le [OF tk]
    by (rule repr_frame)
  moreover have "closed_below (rt_heap r') (length (rt_heap r'))"
    using router_steps_inv [OF assms(2,1)] by (auto elim: router_invE)
  ultimately have "router_inv ?s \<and> router_routes ?s = router_routes r"
    using router_invI [of ?s a t] r by simp
  with assms(1) show ?thesis
    by (intro trie_table.tb_match_cong) auto
qed

theorem old_root_keeps_answers_witness:
  "match_route \<lparr>rt_heap = rt_heap (snd (remove_route sample_router ''/api/v1'')),
                rt_root = rt_root sample_router\<rparr> ''/api/v1/users''
   = match_route sample_router ''/api/v1/users''"
  using old_root_keeps_answers [OF router_inv_sample r_into_rtranclp [of router_step]]
    rs_remove [of sample_router "''/api/v1''"] by blast

end
