(* ===== verification/Ring_Buffer.thy ===== *)
theory Ring_Buffer
  imports Prelude
begin

text \<open>
  The telemetry ring of src/pkg/buffer/ring.go: a fixed array of \<open>TraceEvent\<close>s with a write
  position and a fill count. The theory models every operation of the file, shows that the ring
  refines the bounded list "the last \<open>size\<close> events, newest first", and states the contract
  other components rely on as the locale \<open>bounded_log\<close>.

  Go's \<open>int\<close> is 64 bits wide; all index arithmetic of the file stays between \<open>-size\<close> and
  \<open>2 * size\<close>, far from its bounds for any array that fits in memory, so the model uses \<open>int\<close>.
\<close>

section \<open>State and operations\<close>

record trace_event =
  ev_id :: string
  ev_trace_id :: string
  ev_timestamp :: string
  ev_method :: string
  ev_path :: string
  ev_target :: string
  ev_status :: int
  ev_duration :: int
  ev_req_headers :: "(string \<times> string) list"
  ev_resp_headers :: "(string \<times> string) list"
  ev_request_body :: string
  ev_response_body :: string

text \<open>The zero value \<open>TraceEvent{}\<close>.\<close>

definition zero_event :: trace_event where
  "zero_event = \<lparr>ev_id = [], ev_trace_id = [], ev_timestamp = [], ev_method = [], ev_path = [],
     ev_target = [], ev_status = 0, ev_duration = 0, ev_req_headers = [], ev_resp_headers = [],
     ev_request_body = [], ev_response_body = []\<rparr>"

record ring_buffer =
  rb_events :: "trace_event list"
  rb_size :: int
  rb_head :: int
  rb_count :: int

definition new_ring_buffer :: "int \<Rightarrow> ring_buffer" where
  "new_ring_buffer n =
     (let sz = (if n \<le> 0 then 100 else n)
      in \<lparr>rb_events = replicate (nat sz) zero_event, rb_size = sz, rb_head = 0, rb_count = 0\<rparr>)"

definition ring_push :: "ring_buffer \<Rightarrow> trace_event \<Rightarrow> ring_buffer" where
  "ring_push r event =
     (let r = r\<lparr>rb_events := (rb_events r)[nat (rb_head r) := event]\<rparr>;
          r = r\<lparr>rb_head := go_rem (rb_head r + 1) (rb_size r)\<rparr>
      in if rb_count r < rb_size r then r\<lparr>rb_count := rb_count r + 1\<rparr> else r)"

text \<open>The index read in iteration \<open>i\<close> of the loop of \<open>GetAll\<close>.\<close>

definition ring_index :: "ring_buffer \<Rightarrow> int \<Rightarrow> int" where
  "ring_index r i = go_rem (rb_head r - 1 - i + rb_size r) (rb_size r)"

definition ring_get_all :: "ring_buffer \<Rightarrow> trace_event list" where
  "ring_get_all r =
     map (\<lambda>i. rb_events r ! nat (ring_index r (int i))) [0..<nat (rb_count r)]"

definition ring_count :: "ring_buffer \<Rightarrow> int" where
  "ring_count r = rb_count r"

definition ring_capacity :: "ring_buffer \<Rightarrow> int" where
  "ring_capacity r = rb_size r"

definition ring_clear :: "ring_buffer \<Rightarrow> ring_buffer" where
  "ring_clear r = r\<lparr>rb_head := 0, rb_count := 0,
     rb_events := map (\<lambda>_. zero_event) (rb_events r)\<rparr>"

section \<open>Invariant\<close>

text \<open>
  The write position is inside the array and no more events are counted than fit; these are
  exactly the facts that keep every array access of the file in range.
\<close>

definition ring_inv :: "ring_buffer \<Rightarrow> bool" where
  "ring_inv r \<longleftrightarrow> 0 < rb_size r \<and> int (length (rb_events r)) = rb_size r
     \<and> 0 \<le> rb_head r \<and> rb_head r < rb_size r \<and> 0 \<le> rb_count r \<and> rb_count r \<le> rb_size r"

lemma ring_inv_new: "ring_inv (new_ring_buffer n)"
  by (simp add: ring_inv_def new_ring_buffer_def Let_def)

lemma ring_push_head: "ring_inv r \<Longrightarrow> rb_head (ring_push r e) = (rb_head r + 1) mod rb_size r"
  by (simp add: ring_push_def ring_inv_def Let_def go_rem_nonneg)

lemma ring_push_fields [simp]:
  "rb_size (ring_push r e) = rb_size r"
  "rb_events (ring_push r e) = (rb_events r)[nat (rb_head r) := e]"
  "rb_count (ring_push r e) = (if rb_count r < rb_size r then rb_count r + 1 else rb_count r)"
  by (simp_all add: ring_push_def Let_def)

lemma ring_inv_push: "ring_inv r \<Longrightarrow> ring_inv (ring_push r e)"
  by (auto simp: ring_inv_def ring_push_head)

lemma ring_inv_clear: "ring_inv r \<Longrightarrow> ring_inv (ring_clear r)"
  by (simp add: ring_inv_def ring_clear_def)

lemma ring_index_bounds:
  assumes "ring_inv r" "0 \<le> i" "i < rb_count r"
  shows "0 \<le> ring_index r i \<and> ring_index r i < int (length (rb_events r))"
  using assms by (simp add: ring_inv_def ring_index_def go_rem_nonneg)

lemma ring_index_mod:
  "ring_inv r \<Longrightarrow> 0 \<le> i \<Longrightarrow> i < rb_size r \<Longrightarrow> ring_index r i = (rb_head r - 1 - i) mod rb_size r"
  by (simp add: ring_inv_def ring_index_def go_rem_nonneg)

section \<open>Refinement: the last \<open>size\<close> events, newest first\<close>

lemma ring_index_push:
  assumes "ring_inv r" "0 \<le> i" "i + 1 < rb_size r"
  shows "ring_index (ring_push r e) (i + 1) = ring_index r i"
proof -
  have "ring_index (ring_push r e) (i + 1) = ((rb_head r + 1) mod rb_size r - 1 - (i + 1)) mod rb_size r"
    using assms by (simp add: ring_index_mod ring_inv_push ring_push_head)
  also have "\<dots> = (rb_head r - 1 - i) mod rb_size r"
    by (simp add: mod_simps algebra_simps)
  also have "\<dots> = ring_index r i"
    using assms by (simp add: ring_index_mod)
  finally show ?thesis .
qed

lemma ring_index_push_0: "ring_inv r \<Longrightarrow> ring_index (ring_push r e) 0 = rb_head r"
  using ring_index_mod [of "ring_push r e" 0]
  by (simp add: ring_inv_push ring_push_head mod_simps)
     (simp add: ring_inv_def)

lemma ring_index_not_head:
  assumes "ring_inv r" "0 \<le> i" "i + 1 < rb_size r"
  shows "ring_index r i \<noteq> rb_head r"
proof
  assume *: "ring_index r i = rb_head r"
  have "(rb_head r - 1 - i) mod rb_size r = rb_head r mod rb_size r"
    using assms * by (simp add: ring_index_mod) (simp add: ring_inv_def)
  then have "rb_size r dvd (- 1 - i)"
    by (simp add: mod_eq_dvd_iff)
  moreover have "- 1 - i = - (i + 1)" by simp
  ultimately have "rb_size r dvd (i + 1)"
    by (simp only: dvd_minus_iff)
  with assms show False
    by (auto dest: zdvd_imp_le)
qed

lemma ring_get_all_length: "ring_inv r \<Longrightarrow> int (length (ring_get_all r)) = rb_count r"
  by (simp add: ring_get_all_def ring_inv_def)

lemma ring_get_all_nth:
  "i < nat (rb_count r) \<Longrightarrow> ring_get_all r ! i = rb_events r ! nat (ring_index r (int i))"
  by (simp add: ring_get_all_def)

lemma ring_get_all_push:
  assumes inv: "ring_inv r"
  shows "ring_get_all (ring_push r e) = take (nat (rb_size r)) (e # ring_get_all r)"
proof (rule nth_equalityI)
  let ?r' = "ring_push r e"
  have len: "length (ring_get_all r) = nat (rb_count r)"
    by (simp add: ring_get_all_def)
  show "length (ring_get_all ?r') = length (take (nat (rb_size r)) (e # ring_get_all r))"
    using inv by (auto simp: ring_get_all_def ring_inv_def)
  fix i assume "i < length (ring_get_all ?r')"
  then have i: "i < nat (rb_count ?r')" by (simp add: ring_get_all_def)
  have head: "nat (rb_head r) < length (rb_events r)"
    using inv by (auto simp: ring_inv_def)
  show "ring_get_all ?r' ! i = take (nat (rb_size r)) (e # ring_get_all r) ! i"
  proof (cases i)
    case 0
    with inv i head show ?thesis
      by (simp add: ring_get_all_nth ring_index_push_0) (simp add: ring_inv_def)
  next
    case (Suc j)
    have j: "int j + 1 < rb_size r" "j < nat (rb_count r)"
      using i Suc inv by (auto simp: ring_inv_def split: if_splits)
    have idx: "ring_index ?r' (int i) = ring_index r (int j)"
      using ring_index_push [OF inv, of "int j" e] j Suc by (simp add: add.commute)
    have "nat (ring_index r (int j)) \<noteq> nat (rb_head r)"
      using ring_index_not_head [OF inv, of "int j"] ring_index_bounds [OF inv, of "int j"] j inv
      by (auto simp: ring_inv_def nat_eq_iff)
    with i Suc j idx show ?thesis
      by (simp add: ring_get_all_nth)
  qed
qed

lemma ring_get_all_new [simp]: "ring_get_all (new_ring_buffer n) = []"
  by (simp add: ring_get_all_def new_ring_buffer_def Let_def)

lemma ring_get_all_clear [simp]: "ring_get_all (ring_clear r) = []"
  by (simp add: ring_get_all_def ring_clear_def)

section \<open>The contract of a bounded log\<close>

locale bounded_log =
  fixes log_push :: "'r \<Rightarrow> 'e \<Rightarrow> 'r"
    and log_contents :: "'r \<Rightarrow> 'e list"
    and log_bound :: "'r \<Rightarrow> nat"
    and log_ok :: "'r \<Rightarrow> bool"
  assumes log_ok_push: "log_ok r \<Longrightarrow> log_ok (log_push r e)"
    and log_bound_push: "log_ok r \<Longrightarrow> log_bound (log_push r e) = log_bound r"
    and log_contents_push:
      "log_ok r \<Longrightarrow> log_contents (log_push r e) = take (log_bound r) (e # log_contents r)"
    and log_contents_bound: "log_ok r \<Longrightarrow> length (log_contents r) \<le> log_bound r"
begin

lemma log_fold_ok: "log_ok r \<Longrightarrow> log_ok (foldl log_push r es)"
  by (induction es arbitrary: r) (auto simp: log_ok_push)

lemma log_fold_bound: "log_ok r \<Longrightarrow> log_bound (foldl log_push r es) = log_bound r"
  by (induction es arbitrary: r) (auto simp: log_ok_push log_bound_push)

lemma log_fold_contents:
  "log_ok r \<Longrightarrow>
     log_contents (foldl log_push r es) = take (log_bound r) (rev es @ log_contents r)"
proof (induction es arbitrary: r)
  case Nil
  then show ?case by (simp add: log_contents_bound)
next
  case (Cons e es)
  then show ?case
    by (simp add: log_ok_push log_bound_push log_contents_push take_Cons' min_def
        split: if_splits)
qed

end

interpretation ring: bounded_log ring_push ring_get_all "\<lambda>r. nat (rb_size r)" ring_inv
proof unfold_locales
  show "ring_inv r \<Longrightarrow> length (ring_get_all r) \<le> nat (rb_size r)" for r
    by (simp add: ring_get_all_def ring_inv_def nat_mono)
qed (simp_all add: ring_inv_push ring_get_all_push)

section \<open>Properties\<close>

text \<open>
  a new ring of size \<open>n\<close> (100 when \<open>n\<close> is not positive) that has received the events \<open>es\<close>
  holds the last \<open>n\<close> of them, and \<open>GetAll\<close> returns them newest first.
\<close>

theorem ring_keeps_last_events:
  "ring_get_all (foldl ring_push (new_ring_buffer n) es)
     = take (nat (if n \<le> 0 then 100 else n)) (rev es)"
proof -
  have "rb_size (new_ring_buffer n) = (if n \<le> 0 then 100 else n)"
    by (simp add: new_ring_buffer_def Let_def)
  then show ?thesis
    using ring.log_fold_contents [OF ring_inv_new, of n es] by simp
qed

datatype ring_op = Push trace_event | Clear

fun ring_apply :: "ring_buffer \<Rightarrow> ring_op \<Rightarrow> ring_buffer" where
  "ring_apply r (Push e) = ring_push r e"
| "ring_apply r Clear = ring_clear r"

fun log_apply :: "nat \<Rightarrow> trace_event list \<Rightarrow> ring_op \<Rightarrow> trace_event list" where
  "log_apply n es (Push e) = take n (e # es)"
| "log_apply n es Clear = []"

lemma ring_apply_size [simp]: "rb_size (ring_apply r op) = rb_size r"
  by (cases op) (simp_all add: ring_clear_def)

lemma ring_inv_apply: "ring_inv r \<Longrightarrow> ring_inv (ring_apply r op)"
  by (cases op) (simp_all add: ring_inv_push ring_inv_clear)

lemma ring_apply_contents:
  "ring_inv r \<Longrightarrow> ring_get_all (ring_apply r op) = log_apply (nat (rb_size r)) (ring_get_all r) op"
  by (cases op) (simp_all add: ring_get_all_push)

lemma ring_fold_apply:
  "ring_inv r \<Longrightarrow>
     ring_inv (foldl ring_apply r ops) \<and> rb_size (foldl ring_apply r ops) = rb_size r
     \<and> ring_get_all (foldl ring_apply r ops) = foldl (log_apply (nat (rb_size r))) (ring_get_all r) ops"
  by (induction ops arbitrary: r) (simp_all add: ring_inv_apply ring_apply_contents)

text \<open>
  C35: after any sequence of \<open>Push\<close> and \<open>Clear\<close> on a new ring, its write position and all indices
  \<open>GetAll\<close> reads are inside the array, its capacity is unchanged, \<open>Count\<close> is the number of events
  returned, and the contents are those of a bounded list under the same operations.
\<close>

theorem ring_refines_bounded_list:
  fixes n :: int and ops :: "ring_op list"
  defines "r \<equiv> foldl ring_apply (new_ring_buffer n) ops"
  shows "ring_inv r
    \<and> ring_capacity r = (if n \<le> 0 then 100 else n)
    \<and> ring_count r = int (length (ring_get_all r))
    \<and> (\<forall>i \<in> {0..<ring_count r}. 0 \<le> ring_index r i \<and> ring_index r i < int (length (rb_events r)))
    \<and> ring_get_all r = foldl (log_apply (nat (ring_capacity r))) [] ops"
proof -
  let ?r0 = "new_ring_buffer n"
  have sz: "rb_size ?r0 = (if n \<le> 0 then 100 else n)"
    by (simp add: new_ring_buffer_def Let_def)
  have r: "ring_inv r" "rb_size r = rb_size ?r0"
    "ring_get_all r = foldl (log_apply (nat (rb_size ?r0))) [] ops"
    using ring_fold_apply [OF ring_inv_new, of n ops] by (simp_all add: r_def)
  then show ?thesis
    using sz ring_index_bounds [OF r(1)] ring_get_all_length [OF r(1)]
    by (auto simp: ring_capacity_def ring_count_def)
qed

text \<open>A ring of size 2 after three pushes, read and cleared: the hypothesis-free statement at work.\<close>

theorem ring_refines_bounded_list_witness:
  "map ev_id (ring_get_all (foldl ring_apply (new_ring_buffer 2)
      [Push (zero_event\<lparr>ev_id := ''a''\<rparr>), Push (zero_event\<lparr>ev_id := ''b''\<rparr>),
       Push (zero_event\<lparr>ev_id := ''c''\<rparr>)])) = [''c'', ''b'']"
  using ring_refines_bounded_list [of 2
      "[Push (zero_event\<lparr>ev_id := ''a''\<rparr>), Push (zero_event\<lparr>ev_id := ''b''\<rparr>),
        Push (zero_event\<lparr>ev_id := ''c''\<rparr>)]"]
  by (simp add: numeral_2_eq_2 zero_event_def)

end
