(* ===== verification/Docker_Demux.thy ===== *)
theory Docker_Demux
  imports Prelude
begin

text \<open>
  The container-log demultiplexer of src/pkg/docker/demuxer.go: frames of an 8-byte header (stream
  type, three reserved bytes, big-endian 32-bit length) and a payload. The reader is modelled by
  the bytes it still delivers and the error it ends with; \<open>io.ReadFull\<close> is written out with its
  three outcomes. The theory shows the round trip with \<open>EncodeDockerFrame\<close>, what is delivered
  from a stream that breaks off anywhere, and when an error is returned.
\<close>

section \<open>Readers\<close>

datatype read_error = EOF | UnexpectedEOF | ReadFailure string

text \<open>\<open>rd_fail = None\<close>: the data ends with \<open>io.EOF\<close>; otherwise with the given error.\<close>

record byte_reader =
  rd_data :: "byte list"
  rd_fail :: "string option"

definition read_full :: "nat \<Rightarrow> byte_reader \<Rightarrow> (read_error + byte list) \<times> byte_reader" where
  "read_full n r =
     (if n \<le> length (rd_data r)
      then (Inr (take n (rd_data r)), r\<lparr>rd_data := drop n (rd_data r)\<rparr>)
      else (Inl (case rd_fail r of
                   Some e \<Rightarrow> ReadFailure e
                 | None \<Rightarrow> if rd_data r = [] then EOF else UnexpectedEOF),
            r\<lparr>rd_data := []\<rparr>))"

section \<open>Big-endian lengths\<close>

type_synonym u32 = "32 word"

text \<open>\<open>binary.BigEndian.Uint32\<close> and \<open>PutUint32\<close>.\<close>

definition be_uint32 :: "byte list \<Rightarrow> u32" where
  "be_uint32 b = ucast (b ! 3) OR push_bit 8 (ucast (b ! 2)) OR push_bit 16 (ucast (b ! 1))
     OR push_bit 24 (ucast (b ! 0))"

definition be_put_uint32 :: "u32 \<Rightarrow> byte list" where
  "be_put_uint32 v = [ucast (drop_bit 24 v), ucast (drop_bit 16 v), ucast (drop_bit 8 v), ucast v]"

lemma be_put_uint32_length [simp]: "length (be_put_uint32 v) = 4"
  by (simp add: be_put_uint32_def)

lemma be_uint32_put [simp]: "be_uint32 (be_put_uint32 v) = v"
proof (rule bit_word_eqI)
  fix n
  assume "n < LENGTH(32)"
  then consider "n < 8" | "8 \<le> n" "n < 16" | "16 \<le> n" "n < 24" | "24 \<le> n" "n < 32"
    by fastforce
  then show "bit (be_uint32 (be_put_uint32 v)) n = bit v n"
    by cases (auto simp: be_uint32_def be_put_uint32_def bit_simps)
qed

section \<open>Demultiplexing and encoding\<close>

definition is_eof :: "read_error \<Rightarrow> bool" where
  "is_eof e \<longleftrightarrow> e = EOF \<or> e = UnexpectedEOF"

fun error_text :: "read_error \<Rightarrow> string" where
  "error_text EOF = ''EOF''"
| "error_text UnexpectedEOF = ''unexpected EOF''"
| "error_text (ReadFailure e) = e"

text \<open>
  \<open>DemuxStream\<close>: the calls of \<open>onLog\<close> in order, and the returned error. Each round consumes at
  least a header, which is the termination argument.
\<close>

function demux_stream :: "bool \<Rightarrow> byte_reader \<Rightarrow> (int \<times> byte list) list \<times> string option" where
  "demux_stream on_log r =
     (case read_full 8 r of
        (Inl err, _) \<Rightarrow>
          ([], if is_eof err then None
               else Some (''failed reading docker frame header: '' @ error_text err))
      | (Inr header, r1) \<Rightarrow>
          (let stream_type = uint (header ! 0);
               payload_len = be_uint32 (drop 4 header)
           in if payload_len = 0 then demux_stream on_log r1
              else (case read_full (unat payload_len) r1 of
                      (Inl err, _) \<Rightarrow>
                        ([], if is_eof err then None
                             else Some (''failed reading docker frame payload: '' @ error_text err))
                    | (Inr payload, r2) \<Rightarrow>
                        (let (logs, err) = demux_stream on_log r2
                         in (if on_log then (stream_type, payload) # logs else logs, err)))))"
  by pat_completeness auto
termination
  by (relation "measure (\<lambda>(on_log, r). length (rd_data r))")
     (auto simp: read_full_def split: if_splits)

declare demux_stream.simps [simp del]

definition encode_docker_frame :: "byte \<Rightarrow> byte list \<Rightarrow> byte list" where
  "encode_docker_frame stream_type payload =
     [stream_type, 0, 0, 0] @ be_put_uint32 (word_of_nat (length payload)) @ payload"

lemma encode_docker_frame_length [simp]:
  "length (encode_docker_frame ty payload) = 8 + length payload"
  by (simp add: encode_docker_frame_def)

lemma read_full_append:
  "length xs = n \<Longrightarrow> read_full n \<lparr>rd_data = xs @ ys, rd_fail = e\<rparr> = (Inr xs, \<lparr>rd_data = ys, rd_fail = e\<rparr>)"
  by (simp add: read_full_def)

definition frame_header :: "byte \<Rightarrow> byte list \<Rightarrow> byte list" where
  "frame_header ty payload = [ty, 0, 0, 0] @ be_put_uint32 (word_of_nat (length payload))"

lemma frame_header_simps [simp]:
  "length (frame_header ty payload) = 8"
  "frame_header ty payload ! 0 = ty"
  "be_uint32 (drop 4 (frame_header ty payload)) = word_of_nat (length payload)"
  by (simp_all add: frame_header_def)

lemma encode_split: "encode_docker_frame ty payload = frame_header ty payload @ payload"
  by (simp add: encode_docker_frame_def frame_header_def)

lemma word_len_simps:
  assumes "length xs < 2 ^ 32"
  shows "unat (word_of_nat (length xs) :: u32) = length xs"
    and "(word_of_nat (length xs) :: u32) = 0 \<longleftrightarrow> xs = []"
proof -
  show *: "unat (word_of_nat (length xs) :: u32) = length xs"
    using assms by (simp add: unat_of_nat take_bit_nat_eq_self)
  show "(word_of_nat (length xs) :: u32) = 0 \<longleftrightarrow> xs = []"
    unfolding unat_eq_0 [symmetric] * by simp
qed

text \<open>One encoded frame at the front of the stream.\<close>

lemma demux_encode_step:
  assumes "length payload < 2 ^ 32"
  shows "demux_stream True \<lparr>rd_data = encode_docker_frame ty payload @ rest, rd_fail = e\<rparr> =
    (let (logs, err) = demux_stream True \<lparr>rd_data = rest, rd_fail = e\<rparr>
     in (if payload = [] then logs else (uint ty, payload) # logs, err))"
  using word_len_simps [OF assms]
  by (subst demux_stream.simps)
     (simp add: encode_split read_full_append Let_def split: prod.split)

lemma demux_empty:
  "demux_stream on_log \<lparr>rd_data = [], rd_fail = None\<rparr> = ([], None)"
  by (subst demux_stream.simps) (simp add: read_full_def is_eof_def)

text \<open>A frame that is cut short delivers nothing and is no error.\<close>

lemma demux_truncated_frame:
  assumes "length payload < 2 ^ 32" "k < 8 + length payload"
  shows "demux_stream True \<lparr>rd_data = take k (encode_docker_frame ty payload), rd_fail = None\<rparr>
    = ([], None)"
proof (cases "k < 8")
  case True
  then show ?thesis
    by (subst demux_stream.simps) (simp add: read_full_def is_eof_def)
next
  case False
  then have tk: "take k (encode_docker_frame ty payload) = frame_header ty payload @ take (k - 8) payload"
    by (simp add: encode_split)
  show ?thesis
  proof (cases "payload = []")
    case True
    with False assms(2) show ?thesis by simp
  next
    case ne: False
    have "read_full (length payload) \<lparr>rd_data = take (k - 8) payload, rd_fail = None\<rparr> =
        (Inl (if take (k - 8) payload = [] then EOF else UnexpectedEOF), \<lparr>rd_data = [], rd_fail = None\<rparr>)"
      using assms(2) False by (simp add: read_full_def)
    then show ?thesis
      using word_len_simps [OF assms(1)] ne unfolding tk
      by (subst demux_stream.simps) (simp add: read_full_append Let_def is_eof_def)
  qed
qed

section \<open>Properties\<close>

definition log_frames :: "(byte \<times> byte list) list \<Rightarrow> byte list" where
  "log_frames fs = concat (map (\<lambda>(ty, p). encode_docker_frame ty p) fs)"

definition delivered :: "(byte \<times> byte list) list \<Rightarrow> (int \<times> byte list) list" where
  "delivered fs = map (\<lambda>(ty, p). (uint ty, p)) (filter (\<lambda>(ty, p). p \<noteq> []) fs)"

text \<open>
  C10: demultiplexing a stream of encoded frames delivers their stream types and payloads in order
  (frames with an empty payload are skipped) and returns no error.
\<close>

theorem demux_roundtrip:
  assumes "\<forall>f \<in> set fs. length (snd f) < 2 ^ 32"
  shows "demux_stream True \<lparr>rd_data = log_frames fs, rd_fail = None\<rparr> = (delivered fs, None)"
  using assms
proof (induction fs)
  case Nil
  then show ?case by (simp add: log_frames_def delivered_def demux_empty)
next
  case (Cons f fs)
  obtain ty p where f: "f = (ty, p)" by (cases f)
  have "log_frames (f # fs) = encode_docker_frame ty p @ log_frames fs"
    by (simp add: log_frames_def f)
  with Cons f show ?case
    by (simp add: demux_encode_step delivered_def)
qed

theorem demux_roundtrip_witness:
  "demux_stream True \<lparr>rd_data = log_frames [(1, [104, 105]), (2, []), (2, [33])], rd_fail = None\<rparr>
     = ([(1, [104, 105]), (2, [33])], None)"
  using demux_roundtrip [of "[(1, [104, 105]), (2, []), (2, [33])]"]
  by (simp add: delivered_def)

text \<open>
  a stream of frames that breaks off after any number of bytes delivers a prefix of the frames,
  each of them whole, and returns no error.
\<close>

theorem demux_truncation_safe:
  assumes "\<forall>f \<in> set fs. length (snd f) < 2 ^ 32"
  shows "\<exists>n. demux_stream True \<lparr>rd_data = take k (log_frames fs), rd_fail = None\<rparr> = (delivered (take n fs), None)"
  using assms
proof (induction fs arbitrary: k)
  case Nil
  then show ?case by (auto simp: log_frames_def delivered_def demux_empty)
next
  case (Cons f fs)
  obtain ty p where f: "f = (ty, p)" by (cases f)
  have lf: "log_frames (f # fs) = encode_docker_frame ty p @ log_frames fs"
    by (simp add: log_frames_def f)
  have p: "length p < 2 ^ 32" using Cons.prems f by simp
  show ?case
  proof (cases "k < 8 + length p")
    case True
    have "demux_stream True \<lparr>rd_data = take k (log_frames (f # fs)), rd_fail = None\<rparr>
        = (delivered (take 0 (f # fs)), None)"
      using demux_truncated_frame [OF p True, of ty] True by (simp add: lf delivered_def)
    then show ?thesis by blast
  next
    case False
    obtain n where "demux_stream True \<lparr>rd_data = take (k - (8 + length p)) (log_frames fs), rd_fail = None\<rparr>
        = (delivered (take n fs), None)"
      using Cons by (meson list.set_intros(2))
    moreover have "take k (log_frames (f # fs))
        = encode_docker_frame ty p @ take (k - (8 + length p)) (log_frames fs)"
      using False by (simp only: lf take_append encode_docker_frame_length) simp
    ultimately have "demux_stream True \<lparr>rd_data = take k (log_frames (f # fs)), rd_fail = None\<rparr>
        = (delivered (take (Suc n) (f # fs)), None)"
      using p by (simp add: demux_encode_step delivered_def f)
    then show ?thesis by blast
  qed
qed

theorem demux_truncation_safe_witness:
  "\<exists>n. demux_stream True \<lparr>rd_data = take 13 (log_frames [(1, [104, 105]), (2, [33])]), rd_fail = None\<rparr>
     = (delivered (take n [(1, [104, 105]), (2, [33])]), None)"
  using demux_truncation_safe [of "[(1, [104, 105]), (2, [33])]" 13] by simp

text \<open>
  for every input, \<open>DemuxStream\<close> returns an error exactly when the reader ends with an error
  other than end of file, and it never delivers an empty payload.
\<close>

theorem demux_error_iff_reader_failed:
  "(snd (demux_stream on_log r) = None \<longleftrightarrow> rd_fail r = None)
   \<and> [] \<notin> snd ` set (fst (demux_stream on_log r))"
proof (induction on_log r rule: demux_stream.induct)
  case (1 on_log r)
  show ?case
  proof (cases "8 \<le> length (rd_data r)")
    case False
    then show ?thesis
      by (subst (1 2) demux_stream.simps)
         (auto simp: read_full_def is_eof_def split: option.splits)
  next
    case True
    let ?header = "take 8 (rd_data r)" and ?r1 = "r\<lparr>rd_data := drop 8 (rd_data r)\<rparr>"
    let ?len = "be_uint32 (drop 4 ?header)"
    have rf: "read_full 8 r = (Inr ?header, ?r1)" using True by (simp add: read_full_def)
    show ?thesis
    proof (cases "?len = 0")
      case True
      then have "demux_stream on_log r = demux_stream on_log ?r1"
        by (subst demux_stream.simps) (simp add: rf Let_def)
      with "1.IH"(1) [OF rf [symmetric] refl refl refl True] show ?thesis by simp
    next
      case nz: False
      show ?thesis
      proof (cases "unat ?len \<le> length (rd_data ?r1)")
        case False
        then have "read_full (unat ?len) ?r1 =
            (Inl (case rd_fail r of Some e \<Rightarrow> ReadFailure e
                  | None \<Rightarrow> if rd_data ?r1 = [] then EOF else UnexpectedEOF), ?r1\<lparr>rd_data := []\<rparr>)"
          by (simp add: read_full_def)
        then show ?thesis
          using nz by (subst (1 2) demux_stream.simps)
            (auto simp: rf Let_def is_eof_def split: option.splits)
      next
        case True
        let ?payload = "take (unat ?len) (rd_data ?r1)"
        let ?r2 = "?r1\<lparr>rd_data := drop (unat ?len) (rd_data ?r1)\<rparr>"
        have rf2: "read_full (unat ?len) ?r1 = (Inr ?payload, ?r2)"
          using True by (simp add: read_full_def)
        have "unat ?len \<noteq> 0" using nz by (simp add: unat_eq_0)
        with True have ne: "?payload \<noteq> []" by auto
        have "demux_stream on_log r = (let (logs, err) = demux_stream on_log ?r2
            in (if on_log then (uint (?header ! 0), ?payload) # logs else logs, err))"
          by (subst demux_stream.simps)
             (simp only: rf rf2 Let_def nz prod.case sum.case if_False)
        moreover have "(snd (demux_stream on_log ?r2) = None \<longleftrightarrow> rd_fail ?r2 = None)
            \<and> [] \<notin> snd ` set (fst (demux_stream on_log ?r2))"
          using "1.IH"(2) [OF rf [symmetric] refl refl refl nz rf2 [symmetric] refl] .
        ultimately show ?thesis
          using ne by (auto split: prod.splits)
      qed
    qed
  qed
qed

end
