(* ===== verification/Http_Header.thy ===== *)
theory Http_Header
  imports Prelude
begin

text \<open>
  \<open>net/http.Header\<close> as the sources use it: a Go map from canonical field names to lists of values,
  with \<open>Get\<close>, \<open>Set\<close>, \<open>Add\<close> and \<open>Del\<close> over \<open>textproto.CanonicalMIMEHeaderKey\<close>, and
  \<open>extractHeaders\<close> of src/pkg/proxy/engine.go, which flattens a header for the telemetry.
\<close>

section \<open>Canonical field names\<close>

text \<open>The token characters of RFC 7230; a name with any other byte is left as it is.\<close>

definition token_char :: "char \<Rightarrow> bool" where
  "token_char c \<longleftrightarrow> (let n = of_char c :: nat
     in (48 \<le> n \<and> n \<le> 57) \<or> (65 \<le> n \<and> n \<le> 90) \<or> (97 \<le> n \<and> n \<le> 122)
        \<or> c \<in> set ''!#$%&*+-.^_|~'' \<or> n = 39 \<or> n = 96)"

fun canonical_loop :: "bool \<Rightarrow> string \<Rightarrow> string" where
  "canonical_loop up [] = []"
| "canonical_loop up (c # cs) =
     (if up then upper_char c else lower_char c) # canonical_loop (c = CHR ''-'') cs"

definition canonical_key :: "string \<Rightarrow> string" where
  "canonical_key k = (if list_all token_char k then canonical_loop True k else k)"

lemma canonical_keys [simp]:
  "canonical_key ''traceparent'' = ''Traceparent''"
  "canonical_key ''X-DevHub-Trace-ID'' = ''X-Devhub-Trace-Id''"
  "canonical_key ''X-DevHub-Span-ID'' = ''X-Devhub-Span-Id''"
  "canonical_key ''X-DevHub-Parent-Span-ID'' = ''X-Devhub-Parent-Span-Id''"
  "canonical_key ''X-DevHub-Egress'' = ''X-Devhub-Egress''"
  by code_simp+

text \<open>Canonicalising is idempotent: an upper-cased letter stays, and so does a lower-cased one.\<close>

lemma of_char_upper:
  "(of_char (upper_char c) :: nat) =
     (if 97 \<le> (of_char c :: nat) \<and> (of_char c :: nat) \<le> 122 then of_char c - 32 else of_char c)"
  by (auto simp: upper_char_def)

lemma of_char_lower:
  "(of_char (lower_char c) :: nat) =
     (if 65 \<le> (of_char c :: nat) \<and> (of_char c :: nat) \<le> 90 then of_char c + 32 else of_char c)"
  by (auto simp: lower_char_def ascii_upper_def)

lemma char_eq_iff_nat: "c = d \<longleftrightarrow> (of_char c :: nat) = of_char d"
  by simp

lemma upper_upper [simp]: "upper_char (upper_char c) = upper_char c"
  by (subst char_eq_iff_nat) (auto simp: of_char_upper)

lemma lower_lower [simp]: "lower_char (lower_char c) = lower_char c"
  by (subst char_eq_iff_nat) (simp add: of_char_lower)

lemma upper_dash [simp]: "upper_char c = CHR ''-'' \<longleftrightarrow> c = CHR ''-''"
  by (subst (1 2) char_eq_iff_nat) (auto simp: of_char_upper)

lemma lower_dash [simp]: "lower_char c = CHR ''-'' \<longleftrightarrow> c = CHR ''-''"
  by (subst (1 2) char_eq_iff_nat) (auto simp: of_char_lower)

lemma canonical_loop_idem: "canonical_loop up (canonical_loop up k) = canonical_loop up k"
  by (induction k arbitrary: up) auto

lemma token_letter:
  "(65 \<le> (of_char c :: nat) \<and> of_char c \<le> (90 :: nat)) \<or> (97 \<le> (of_char c :: nat) \<and> of_char c \<le> (122 :: nat))
   \<Longrightarrow> token_char c"
  unfolding token_char_def Let_def by blast

lemma token_upper: "token_char c \<Longrightarrow> token_char (upper_char c)"
proof (cases "97 \<le> (of_char c :: nat) \<and> of_char c \<le> (122 :: nat)")
  case True
  then have "65 \<le> (of_char c - 32 :: nat) \<and> of_char c - 32 \<le> (90 :: nat)" by linarith
  with True show ?thesis by (intro token_letter disjI1) (simp add: of_char_upper)
next
  case False
  then have "upper_char c = c" unfolding upper_char_def by argo
  then show "token_char c \<Longrightarrow> ?thesis" by simp
qed

lemma token_lower: "token_char c \<Longrightarrow> token_char (lower_char c)"
proof (cases "ascii_upper c")
  case True
  then show ?thesis
    unfolding ascii_upper_def by (intro token_letter) (simp add: of_char_lower)
next
  case False
  then show "token_char c \<Longrightarrow> ?thesis" by (simp add: lower_char_def)
qed

lemma canonical_loop_token: "list_all token_char k \<Longrightarrow> list_all token_char (canonical_loop up k)"
  by (induction k arbitrary: up) (auto simp: token_upper token_lower)

lemma canonical_key_idem [simp]: "canonical_key (canonical_key k) = canonical_key k"
  by (simp add: canonical_key_def canonical_loop_idem canonical_loop_token)

section \<open>Headers\<close>

type_synonym header = "(string \<times> string list) list"

definition hdr_get :: "header \<Rightarrow> string \<Rightarrow> string" where
  "hdr_get h k = (case map_of h (canonical_key k) of Some (v # _) \<Rightarrow> v | _ \<Rightarrow> [])"

definition hdr_set :: "header \<Rightarrow> string \<Rightarrow> string \<Rightarrow> header" where
  "hdr_set h k v = AList.update (canonical_key k) [v] h"

definition hdr_add :: "header \<Rightarrow> string \<Rightarrow> string \<Rightarrow> header" where
  "hdr_add h k v =
     AList.update (canonical_key k) (case map_of h (canonical_key k) of Some vs \<Rightarrow> vs @ [v] | None \<Rightarrow> [v]) h"

definition hdr_del :: "header \<Rightarrow> string \<Rightarrow> header" where
  "hdr_del h k = AList.delete (canonical_key k) h"

text \<open>A header built by the server or with \<open>Set\<close> and \<open>Add\<close>: distinct canonical names.\<close>

definition header_ok :: "header \<Rightarrow> bool" where
  "header_ok h \<longleftrightarrow> map_ok h \<and> (\<forall>k \<in> fst ` set h. canonical_key k = k)"

lemma hdr_get_set [simp]: "hdr_get (hdr_set h k v) k = v"
  by (simp add: hdr_get_def hdr_set_def)

lemma hdr_get_set_other [simp]:
  "canonical_key k \<noteq> canonical_key l \<Longrightarrow> hdr_get (hdr_set h k v) l = hdr_get h l"
  by (simp add: hdr_get_def hdr_set_def)

lemma hdr_get_del [simp]: "hdr_get (hdr_del h k) k = []"
  by (simp add: hdr_get_def hdr_del_def)

lemma hdr_get_del_other [simp]:
  "canonical_key k \<noteq> canonical_key l \<Longrightarrow> hdr_get (hdr_del h k) l = hdr_get h l"
  by (simp add: hdr_get_def hdr_del_def)

lemma header_ok_Nil [simp]: "header_ok []"
  by (simp add: header_ok_def)

lemma header_ok_set [simp]: "header_ok h \<Longrightarrow> header_ok (hdr_set h k v)"
  by (auto simp: header_ok_def hdr_set_def dom_update)

lemma header_ok_add [simp]: "header_ok h \<Longrightarrow> header_ok (hdr_add h k v)"
  by (auto simp: header_ok_def hdr_add_def dom_update)

lemma header_ok_del [simp]: "header_ok h \<Longrightarrow> header_ok (hdr_del h k)"
  by (auto simp: header_ok_def hdr_del_def dest: set_delete_subset)

section \<open>Flattening a header for the telemetry\<close>

text \<open>
  \<open>extractHeaders\<close>: the first value of every field that has one. A nil and an empty Go map are both
  the empty association list; no source distinguishes them.
\<close>

definition extract_headers :: "header \<Rightarrow> (string \<times> string) list" where
  "extract_headers h =
     (if h = [] then [] else map (\<lambda>(k, vs). (k, hd vs)) (filter (\<lambda>(k, vs). vs \<noteq> []) h))"

lemma extract_headers_keys: "fst ` set (extract_headers h) \<subseteq> fst ` set h"
  by (auto simp: extract_headers_def intro: rev_image_eqI)

lemma extract_headers_lookup:
  "map_ok h \<Longrightarrow> map_of (extract_headers h) k = (case map_of h k of Some (v # _) \<Rightarrow> Some v | _ \<Rightarrow> None)"
proof (induction h)
  case Nil
  then show ?case by (simp add: extract_headers_def)
next
  case (Cons p h)
  obtain l vs where p: "p = (l, vs)" by (cases p)
  have rest: "map_of (map (\<lambda>(k, vs). (k, hd vs)) (filter (\<lambda>(k, vs). vs \<noteq> []) h)) k =
      (case map_of h k of Some (v # _) \<Rightarrow> Some v | _ \<Rightarrow> None)"
    using Cons by (cases "h = []") (simp_all add: extract_headers_def)
  from Cons.prems p have "map_of h l = None"
    by (simp add: map_of_eq_None_iff)
  with rest show ?case
    by (cases vs) (auto simp: extract_headers_def p split: list.split)
qed

text \<open>\<open>m[k]\<close> on a \<open>map[string]string\<close>: the empty string for an absent key.\<close>

definition str_map_get :: "(string \<times> string) list \<Rightarrow> string \<Rightarrow> string" where
  "str_map_get m k = (case map_of m k of Some v \<Rightarrow> v | None \<Rightarrow> [])"

end
