(* ===== verification/Trace_Context.thy ===== *)
theory Trace_Context
  imports Http_Header
begin

text \<open>
  Trace and span identifiers and the W3C trace context of src/pkg/tracing/context.go, with the two
  places of src/pkg/proxy/engine.go that stamp them into a request. The two package-level atomic
  counters are the state; \<open>crypto/rand\<close> is the argument \<open>rnd\<close>, the eight bytes one call delivers.
\<close>

section \<open>Identifiers\<close>

type_synonym u64 = "64 word"

record id_counters =
  trace_seq :: u64
  span_seq :: u64

definition generate_trace_id :: "byte list \<Rightarrow> id_counters \<Rightarrow> string \<times> id_counters" where
  "generate_trace_id rnd c =
     (let val = trace_seq c + 1
      in (hex_encode (take 8 rnd @ be_bytes64 val), c\<lparr>trace_seq := val\<rparr>))"

definition generate_span_id :: "id_counters \<Rightarrow> string \<times> id_counters" where
  "generate_span_id c =
     (let val = span_seq c + 1 in (hex_encode (be_bytes64 val), c\<lparr>span_seq := val\<rparr>))"

text \<open>\<open>fastTraceID\<close> of engine.go, over its own counter \<open>traceCounter\<close>.\<close>

definition fast_trace_id :: "u64 \<Rightarrow> string \<times> u64" where
  "fast_trace_id counter = (let val = counter + 1 in (hex_encode (be_bytes64 val), val))"

section \<open>The traceparent header\<close>

definition format_traceparent :: "string \<Rightarrow> string \<Rightarrow> string" where
  "format_traceparent trace_id span_id = ''00-'' @ trace_id @ ''-'' @ span_id @ ''-01''"

text \<open>\<open>None\<close> is \<open>ok = false\<close>; otherwise version, trace id, span id and the sampled flag.\<close>

definition parse_traceparent :: "string \<Rightarrow> (string \<times> string \<times> string \<times> bool) option" where
  "parse_traceparent raw =
     (let parts = split_on CHR ''-'' (trim_space raw)
      in if length parts \<noteq> 4 then None
         else let version = parts ! 0; trace_id = parts ! 1; span_id = parts ! 2; flags = parts ! 3
              in if length version \<noteq> 2 \<or> length trace_id \<noteq> 32 \<or> length span_id \<noteq> 16 \<or> length flags \<noteq> 2
                 then None
                 else Some (version, trace_id, span_id, flags = ''01''))"

text \<open>\<open>(traceID, parentSpanID, spanID, traceparent)\<close>.\<close>

type_synonym trace_context = "string \<times> string \<times> string \<times> string"

definition extract_or_generate_context ::
  "byte list \<Rightarrow> header \<Rightarrow> id_counters \<Rightarrow> trace_context \<times> id_counters" where
  "extract_or_generate_context rnd h c =
     (let (span_id, c) = generate_span_id c;
          raw_tp = hdr_get h ''traceparent''
      in case (if raw_tp \<noteq> [] then parse_traceparent raw_tp else None) of
           Some (_, t_id, p_span_id, _) \<Rightarrow>
             ((t_id, p_span_id, span_id, format_traceparent t_id span_id), c)
         | None \<Rightarrow>
             (let trace_id = hdr_get h ''X-DevHub-Trace-ID'';
                  (trace_id, c) =
                    (if trace_id = [] then generate_trace_id rnd c
                     else if length trace_id < 32 then (trace_id @ replicate (32 - length trace_id) CHR ''0'', c)
                     else if length trace_id > 32 then (take 32 trace_id, c)
                     else (trace_id, c));
                  parent_span_id = hdr_get h ''X-DevHub-Span-ID''
              in ((trace_id, parent_span_id, span_id, format_traceparent trace_id span_id), c)))"

text \<open>
  The stamping code of \<open>ServeHTTP\<close> (the same four \<open>Set\<close> calls stand in \<open>Rewrite\<close> and in
  \<open>handleForwardProxyHTTP\<close>).
\<close>

definition stamp_headers :: "trace_context \<Rightarrow> header \<Rightarrow> header" where
  "stamp_headers ctx h =
     (let (trace_id, parent_span_id, span_id, traceparent) = ctx;
          h = hdr_set h ''traceparent'' traceparent;
          h = hdr_set h ''X-DevHub-Trace-ID'' trace_id;
          h = hdr_set h ''X-DevHub-Span-ID'' span_id
      in if parent_span_id \<noteq> [] then hdr_set h ''X-DevHub-Parent-Span-ID'' parent_span_id else h)"

text \<open>
  One routed request: \<open>ServeHTTP\<close> stamps the inbound header, which the trace event records, and
  \<open>Rewrite\<close> derives a second context from the stamped header for the outbound one.
\<close>

definition routed_headers ::
  "byte list \<Rightarrow> byte list \<Rightarrow> header \<Rightarrow> header \<Rightarrow> id_counters \<Rightarrow> header \<times> header \<times> id_counters" where
  "routed_headers rnd rnd' h out c =
     (let (ctx, c) = extract_or_generate_context rnd h c;
          recorded = stamp_headers ctx h;
          (ctx', c) = extract_or_generate_context rnd' recorded c
      in (recorded, stamp_headers ctx' out, c))"

section \<open>Identifiers are fresh\<close>

lemma hex_digit_char: "hex_digit n \<in> set ''0123456789abcdef''"
  unfolding hex_digit_def by (rule nth_mem) simp

lemma hex_encode_no_dash [simp]: "CHR ''-'' \<notin> set (hex_encode bs)"
proof -
  have "\<forall>x \<in> set (hex_encode bs). x \<in> set ''0123456789abcdef''"
    unfolding hex_encode_def hex_byte_def using hex_digit_char by auto
  then show ?thesis by fastforce
qed

lemma generate_span_id_simps [simp]:
  "fst (generate_span_id c) = hex_encode (be_bytes64 (span_seq c + 1))"
  "snd (generate_span_id c) = c\<lparr>span_seq := span_seq c + 1\<rparr>"
  by (simp_all add: generate_span_id_def Let_def)

lemma generate_span_id_eq:
  "generate_span_id c = (hex_encode (be_bytes64 (span_seq c + 1)), c\<lparr>span_seq := span_seq c + 1\<rparr>)"
  by (simp add: generate_span_id_def Let_def)

lemma counter_id_inj: "hex_encode (be_bytes64 v) = hex_encode (be_bytes64 w) \<Longrightarrow> v = w"
  by (blast dest: hex_encode_inj be_bytes64_inj)

lemma counter_ids_distinct:
  assumes "n \<le> 2 ^ 64"
  shows "distinct (map (\<lambda>i. hex_encode (be_bytes64 (c + 1 + of_nat i))) [0..<n])"
proof -
  have "inj_on (\<lambda>i. hex_encode (be_bytes64 (c + 1 + of_nat i))) {0..<n}"
  proof (rule inj_onI)
    fix i j
    assume ij: "i \<in> {0..<n}" "j \<in> {0..<n}"
      and "hex_encode (be_bytes64 (c + 1 + of_nat i)) = hex_encode (be_bytes64 (c + 1 + of_nat j))"
    then have "(of_nat i :: u64) = of_nat j"
      by (auto dest: counter_id_inj)
    moreover have "i < 2 ^ LENGTH(64)" "j < 2 ^ LENGTH(64)"
      using ij assms by auto
    ultimately show "i = j"
      by (metis of_nat_inverse)
  qed
  then show ?thesis by (simp add: distinct_map)
qed

text \<open>The first \<open>n\<close> span ids handed out from counters \<open>c\<close>, and the first \<open>n\<close> trace ids.\<close>

fun span_ids :: "nat \<Rightarrow> id_counters \<Rightarrow> string list" where
  "span_ids 0 c = []"
| "span_ids (Suc n) c = (let (s, c) = generate_span_id c in s # span_ids n c)"

fun trace_ids :: "byte list list \<Rightarrow> id_counters \<Rightarrow> string list" where
  "trace_ids [] c = []"
| "trace_ids (rnd # rnds) c = (let (t, c) = generate_trace_id rnd c in t # trace_ids rnds c)"

lemma span_ids_eq:
  "span_ids n c = map (\<lambda>i. hex_encode (be_bytes64 (span_seq c + 1 + of_nat i))) [0..<n]"
proof (induction n arbitrary: c)
  case (Suc n)
  have "[0..<Suc n] = 0 # map Suc [0..<n]"
    by (simp add: map_Suc_upt upt_conv_Cons del: upt_Suc)
  with Suc show ?case
    by (simp add: generate_span_id_eq ac_simps del: upt_Suc)
qed simp

lemma drop_hex_encode: "drop (2 * n) (hex_encode bs) = hex_encode (drop n bs)"
proof (induction n arbitrary: bs)
  case (Suc n)
  then show ?case
    by (cases bs) (simp_all add: hex_encode_def hex_byte_def)
qed simp

lemma trace_ids_tails:
  assumes "\<forall>r \<in> set rnds. length r = 8"
  shows "map (drop 16) (trace_ids rnds c)
    = map (\<lambda>i. hex_encode (be_bytes64 (trace_seq c + 1 + of_nat i))) [0..<length rnds]"
  using assms
proof (induction rnds arbitrary: c)
  case (Cons r rnds)
  have "[0..<Suc (length rnds)] = 0 # map Suc [0..<length rnds]"
    by (simp add: map_Suc_upt upt_conv_Cons del: upt_Suc)
  moreover have "drop 16 (hex_encode (take 8 r @ be_bytes64 v)) = hex_encode (be_bytes64 v)" for v
    using drop_hex_encode [of 8 "take 8 r @ be_bytes64 v"] Cons.prems by simp
  ultimately show ?case
    using Cons by (simp add: generate_trace_id_def Let_def ac_simps del: upt_Suc)
qed simp

section \<open>Parsing\<close>

lemma trim_left_seqs_noop:
  "list_all (\<lambda>q. q = [] \<or> hd q \<noteq> c) qs \<Longrightarrow> trim_left_seqs qs (c # s) = c # s"
proof -
  assume *: "list_all (\<lambda>q. q = [] \<or> hd q \<noteq> c) qs"
  have "find (\<lambda>q. q \<noteq> [] \<and> has_prefix (c # s) q) qs = None"
    unfolding find_None_iff
  proof
    assume "\<exists>q. q \<in> set qs \<and> q \<noteq> [] \<and> has_prefix (c # s) q"
    then obtain q where "q \<in> set qs" "q \<noteq> []" "has_prefix (c # s) q" by blast
    with * show False by (cases q) (auto simp: list_all_iff)
  qed
  then show ?thesis by (subst trim_left_seqs.simps) simp
qed

lemma trim_space_noop:
  assumes "s = CHR ''0'' # a" "s = b @ [CHR ''1'']"
  shows "trim_space s = s"
proof -
  have "list_all (\<lambda>q. q = [] \<or> hd q \<noteq> CHR ''0'') space_seqs"
    by (simp add: space_seqs_def char_of_eq_iff)
  then have "trim_left_seqs space_seqs s = s"
    unfolding assms(1) by (rule trim_left_seqs_noop)
  moreover have "list_all (\<lambda>q. q = [] \<or> hd q \<noteq> CHR ''1'') (map rev space_seqs)"
    by (simp add: space_seqs_def char_of_eq_iff)
  then have "trim_left_seqs (map rev space_seqs) (rev s) = rev s"
    unfolding assms(2) rev.simps rev_append by (simp add: trim_left_seqs_noop)
  ultimately show ?thesis
    by (simp add: trim_space_def)
qed

lemma trim_space_traceparent: "trim_space (format_traceparent t s) = format_traceparent t s"
  by (rule trim_space_noop [where a = "''0-'' @ t @ ''-'' @ s @ ''-01''" and b = "''00-'' @ t @ ''-'' @ s @ ''-0''"])
     (simp_all add: format_traceparent_def)

lemma split_on_append_sep:
  "split_on c (a @ c # b) = split_on c a @ split_on c b"
proof (induction a)
  case (Cons x a)
  then show ?case
    by (cases "split_on c a") auto
qed simp

lemma split_traceparent:
  "split_on CHR ''-'' (format_traceparent t s) =
     [''00''] @ split_on CHR ''-'' t @ split_on CHR ''-'' s @ [''01'']"
proof -
  have "format_traceparent t s = ''00'' @ CHR ''-'' # (t @ CHR ''-'' # (s @ CHR ''-'' # ''01''))"
    by (simp add: format_traceparent_def)
  then show ?thesis
    by (simp only: split_on_append_sep) simp
qed

lemma split_on_length_dash: "c \<in> set w \<Longrightarrow> 2 \<le> length (split_on c w)"
proof -
  assume "c \<in> set w"
  then obtain a b where "w = a @ c # b" by (meson split_list)
  then have "split_on c w = split_on c a @ split_on c b"
    by (simp add: split_on_append_sep)
  moreover have "1 \<le> length (split_on c a)" "1 \<le> length (split_on c b)"
    by (simp_all add: Suc_le_eq)
  ultimately show ?thesis by simp
qed

lemma parse_format:
  assumes "length t = 32" "length s = 16" "CHR ''-'' \<notin> set t" "CHR ''-'' \<notin> set s"
  shows "parse_traceparent (format_traceparent t s) = Some (''00'', t, s, True)"
  using assms by (simp add: parse_traceparent_def trim_space_traceparent split_traceparent Let_def)

lemma parse_format_dash:
  assumes "CHR ''-'' \<in> set t"
  shows "parse_traceparent (format_traceparent t s) = None"
proof -
  have "2 \<le> length (split_on CHR ''-'' t)" "1 \<le> length (split_on CHR ''-'' s)"
    using assms split_on_length_dash by (auto simp: Suc_le_eq)
  then show ?thesis
    by (simp add: parse_traceparent_def trim_space_traceparent split_traceparent Let_def)
qed

lemma parse_some:
  assumes "parse_traceparent raw = Some (v, t, s, f)"
  shows "length t = 32 \<and> length s = 16 \<and> CHR ''-'' \<notin> set t \<and> CHR ''-'' \<notin> set s"
proof -
  let ?parts = "split_on CHR ''-'' (trim_space raw)"
  from assms have "length ?parts = 4" "t = ?parts ! 1" "s = ?parts ! 2" "length t = 32" "length s = 16"
    by (auto simp: parse_traceparent_def Let_def split: if_splits)
  moreover from this have "t \<in> set ?parts" "s \<in> set ?parts"
    by (simp_all add: nth_mem)
  ultimately show ?thesis
    using split_on_no_sep by blast
qed

section \<open>Contexts\<close>

lemma extract_valid_traceparent:
  assumes "parse_traceparent (hdr_get h ''traceparent'') = Some (v, t, p, f)"
    and "hdr_get h ''traceparent'' \<noteq> []"
  shows "extract_or_generate_context rnd h c =
    (let s = fst (generate_span_id c)
     in ((t, p, s, format_traceparent t s), snd (generate_span_id c)))"
  using assms by (simp add: extract_or_generate_context_def generate_span_id_eq Let_def)

lemma extract_fallback:
  assumes "hdr_get h ''traceparent'' = [] \<or> parse_traceparent (hdr_get h ''traceparent'') = None"
  shows "extract_or_generate_context rnd h c =
    (let s = fst (generate_span_id c); c1 = snd (generate_span_id c);
         x = hdr_get h ''X-DevHub-Trace-ID'';
         (t, c2) = (if x = [] then generate_trace_id rnd c1
                    else if length x < 32 then (x @ replicate (32 - length x) CHR ''0'', c1)
                    else if length x > 32 then (take 32 x, c1) else (x, c1))
     in ((t, hdr_get h ''X-DevHub-Span-ID'', s, format_traceparent t s), c2))"
proof -
  have "(if hdr_get h ''traceparent'' \<noteq> [] then parse_traceparent (hdr_get h ''traceparent'') else None) = None"
    using assms by auto
  then show ?thesis
    unfolding extract_or_generate_context_def generate_span_id_eq Let_def
    by (simp only: prod.case option.case fst_conv snd_conv)
qed

lemma extract_shape:
  assumes "length rnd = 8" "extract_or_generate_context rnd h c = ((t, p, s, tp), c')"
  shows "length t = 32" "s = fst (generate_span_id c)" "tp = format_traceparent t s"
    "span_seq c' = span_seq c + 1"
proof -
  let ?raw = "hdr_get h ''traceparent''"
  have "length t = 32 \<and> s = fst (generate_span_id c) \<and> tp = format_traceparent t s
      \<and> span_seq c' = span_seq c + 1"
  proof (cases "?raw = [] \<or> parse_traceparent ?raw = None")
    case True
    have gen: "length (fst (generate_trace_id rnd k)) = 32" "span_seq (snd (generate_trace_id rnd k)) = span_seq k"
      for k using assms(1) by (simp_all add: generate_trace_id_def Let_def)
    from assms(2) show ?thesis
      unfolding extract_fallback [OF True] Let_def
      using gen [of "snd (generate_span_id c)"]
      by (auto split: if_splits prod.splits)
  next
    case False
    then obtain v t' p' f where parse: "parse_traceparent ?raw = Some (v, t', p', f)" "?raw \<noteq> []"
      by (metis option.exhaust prod_cases4)
    from assms(2) parse_some [OF parse(1)] show ?thesis
      unfolding extract_valid_traceparent [OF parse] Let_def by auto
  qed
  then show "length t = 32" "s = fst (generate_span_id c)" "tp = format_traceparent t s"
    "span_seq c' = span_seq c + 1" by simp_all
qed

lemma span_id_length: "length (fst (generate_span_id c)) = 16"
  by simp

lemma span_id_no_dash: "CHR ''-'' \<notin> set (fst (generate_span_id c))"
  by simp

lemma stamped_fields:
  "hdr_get (stamp_headers (t, p, s, tp) h) ''traceparent'' = tp"
  "hdr_get (stamp_headers (t, p, s, tp) h) ''X-DevHub-Trace-ID'' = t"
  "hdr_get (stamp_headers (t, p, s, tp) h) ''X-DevHub-Span-ID'' = s"
  by (simp_all add: stamp_headers_def Let_def)

lemma stamp_headers_ok: "header_ok h \<Longrightarrow> header_ok (stamp_headers ctx h)"
  by (cases ctx) (simp add: stamp_headers_def Let_def)

text \<open>A context derived from a stamped header continues the trace with the stamped span as parent.\<close>

lemma extract_stamped:
  assumes "length t = 32" "length s = 16" "CHR ''-'' \<notin> set s"
  shows "\<exists>c'. extract_or_generate_context rnd (stamp_headers (t, p, s, format_traceparent t s) h) c =
    (let s' = fst (generate_span_id c) in ((t, s, s', format_traceparent t s'), c'))"
proof (cases "CHR ''-'' \<in> set t")
  case True
  with assms(1) have "t \<noteq> []" by auto
  with assms show ?thesis
    by (subst extract_fallback) (simp_all add: stamped_fields parse_format_dash [OF True] Let_def)
next
  case False
  let ?h = "stamp_headers (t, p, s, format_traceparent t s) h"
  have "parse_traceparent (hdr_get ?h ''traceparent'') = Some (''00'', t, s, True)"
    using parse_format [OF assms(1,2) False assms(3)] by (simp add: stamped_fields)
  moreover have "hdr_get ?h ''traceparent'' \<noteq> []"
    by (simp add: stamped_fields format_traceparent_def)
  ultimately show ?thesis
    by (simp add: extract_valid_traceparent Let_def)
qed

section \<open>Properties\<close>

text \<open>
  a formatted \<open>traceparent\<close> parses back to its trace id and span id, sampled, with version 00;
  and whatever parses has a 32-byte trace id and a 16-byte span id without dashes.
\<close>

theorem traceparent_roundtrip:
  "(length t = 32 \<longrightarrow> length s = 16 \<longrightarrow> CHR ''-'' \<notin> set t \<union> set s \<longrightarrow>
      parse_traceparent (format_traceparent t s) = Some (''00'', t, s, True))
   \<and> (\<forall>raw v t' s' f. parse_traceparent raw = Some (v, t', s', f) \<longrightarrow>
        parse_traceparent (format_traceparent t' s') = Some (''00'', t', s', True))"
  using parse_format parse_some by simp

theorem traceparent_roundtrip_witness:
  "parse_traceparent (format_traceparent (replicate 32 CHR ''a'') (replicate 16 CHR ''b''))
     = Some (''00'', replicate 32 CHR ''a'', replicate 16 CHR ''b'', True)"
  using traceparent_roundtrip [of "replicate 32 CHR ''a''" "replicate 16 CHR ''b''"] by simp

text \<open>
  C22: whatever headers a request brings, the trace id chosen for it has 32 bytes, and the next hop
  that reads the stamped headers continues the same trace with this request's span as parent, even
  if the trace id makes the \<open>traceparent\<close> header invalid.
\<close>

theorem trace_id_survives_hop:
  assumes "length rnd = 8"
    and "extract_or_generate_context rnd h c = ((t, p, s, tp), c1)"
  shows "length t = 32 \<and> length s = 16
    \<and> (\<forall>rnd' h' c2. \<exists>s' tp' c3.
         extract_or_generate_context rnd' (stamp_headers (t, p, s, tp) h') c2 = ((t, s, s', tp'), c3))"
proof -
  note shape = extract_shape [OF assms]
  have "length s = 16" "CHR ''-'' \<notin> set s"
    by (simp_all add: shape(2))
  with extract_stamped [OF shape(1)] show ?thesis
    by (simp add: shape(1,3) Let_def) blast
qed

theorem trace_id_survives_hop_witness:
  "\<exists>t s tp c1. extract_or_generate_context [1, 2, 3, 4, 5, 6, 7, 8] [(''X-Devhub-Trace-Id'', [''short''])]
      \<lparr>trace_seq = 0, span_seq = 0\<rparr> = ((t, [], s, tp), c1) \<and> length t = 32 \<and> length s = 16"
proof -
  let ?c = "\<lparr>trace_seq = 0, span_seq = 0\<rparr> :: id_counters"
    and ?h = "[(''X-Devhub-Trace-Id'', [''short''])] :: header"
  obtain t p s tp c1 where e: "extract_or_generate_context [1, 2, 3, 4, 5, 6, 7, 8] ?h ?c = ((t, p, s, tp), c1)"
    by (metis prod.exhaust)
  moreover have "p = []"
    using e by (subst (asm) extract_fallback) (auto simp: hdr_get_def Let_def)
  ultimately show ?thesis
    using trace_id_survives_hop [OF _ e] by auto
qed

text \<open>
  span ids do not repeat within \<open>2^64\<close> requests, and trace ids do not either, whatever the
  random bytes are.
\<close>

theorem generated_ids_distinct:
  "(n \<le> 2 ^ 64 \<longrightarrow> distinct (span_ids n c))
   \<and> (length rnds \<le> 2 ^ 64 \<longrightarrow> (\<forall>r \<in> set rnds. length r = 8) \<longrightarrow> distinct (trace_ids rnds c))"
proof (intro conjI impI)
  assume "n \<le> 2 ^ 64"
  then show "distinct (span_ids n c)"
    by (simp add: span_ids_eq counter_ids_distinct)
next
  assume "length rnds \<le> 2 ^ 64" "\<forall>r \<in> set rnds. length r = 8"
  then have "distinct (map (drop 16) (trace_ids rnds c))"
    by (simp add: trace_ids_tails counter_ids_distinct)
  then show "distinct (trace_ids rnds c)"
    by (simp add: distinct_map)
qed

theorem generated_ids_distinct_witness:
  "distinct (span_ids 5 \<lparr>trace_seq = 0, span_seq = - 3\<rparr>)"
  using generated_ids_distinct [of 5] by simp

text \<open>
  a dash among the first 32 bytes of an \<open>X-DevHub-Trace-ID\<close>, as every UUID has, yields a
  \<open>traceparent\<close> header that no W3C parser of this code accepts.
\<close>

theorem dashed_trace_id_breaks_traceparent:
  assumes "hdr_get h ''traceparent'' = []"
    and "CHR ''-'' \<in> set (take 32 (hdr_get h ''X-DevHub-Trace-ID''))"
    and "extract_or_generate_context rnd h c = ((t, p, s, tp), c')"
  shows "parse_traceparent tp = None"
proof -
  have "hdr_get h ''X-DevHub-Trace-ID'' \<noteq> []"
    using assms(2) by auto
  then have "CHR ''-'' \<in> set t \<and> tp = format_traceparent t s"
    using assms(2,3) unfolding extract_fallback [OF disjI1, OF assms(1)] Let_def
    by (auto split: if_splits)
  then show ?thesis
    by (simp add: parse_format_dash)
qed

theorem dashed_trace_id_breaks_traceparent_witness:
  "parse_traceparent (snd (snd (snd (fst (extract_or_generate_context []
      [(''X-Devhub-Trace-Id'', [''123e4567-e89b-12d3-a456-426614174000''])] \<lparr>trace_seq = 0, span_seq = 0\<rparr>))))) = None"
proof -
  let ?h = "[(''X-Devhub-Trace-Id'', [''123e4567-e89b-12d3-a456-426614174000''])] :: header"
    and ?c = "\<lparr>trace_seq = 0, span_seq = 0\<rparr> :: id_counters"
  obtain t p s tp c' where e: "extract_or_generate_context [] ?h ?c = ((t, p, s, tp), c')"
    by (metis prod.exhaust)
  have "hdr_get ?h ''traceparent'' = []" "CHR ''-'' \<in> set (take 32 (hdr_get ?h ''X-DevHub-Trace-ID''))"
    by (simp_all add: hdr_get_def)
  from dashed_trace_id_breaks_traceparent [OF this e] show ?thesis
    by (simp add: e)
qed

text \<open>
  for a routed request the span id recorded in the telemetry is not the span id the upstream
  receives: the upstream is told a second, unrecorded span whose parent is the recorded one.
\<close>

theorem recorded_span_never_sent:
  assumes "length rnd = 8" "routed_headers rnd rnd' h out c = (recorded, sent, c')"
  shows "hdr_get sent ''X-DevHub-Span-ID'' \<noteq> hdr_get recorded ''X-DevHub-Span-ID''
    \<and> hdr_get sent ''X-DevHub-Parent-Span-ID'' = hdr_get recorded ''X-DevHub-Span-ID''
    \<and> hdr_get sent ''X-DevHub-Trace-ID'' = hdr_get recorded ''X-DevHub-Trace-ID''"
proof -
  obtain t p s tp c1 where e: "extract_or_generate_context rnd h c = ((t, p, s, tp), c1)"
    by (metis prod.exhaust)
  note shape = extract_shape [OF assms(1) e]
  have s: "length s = 16" "CHR ''-'' \<notin> set s"
    by (simp_all add: shape(2))
  let ?s' = "fst (generate_span_id c1)"
  obtain c2 where e2: "extract_or_generate_context rnd' (stamp_headers (t, p, s, tp) h) c1
      = ((t, s, ?s', format_traceparent t ?s'), c2)"
    using extract_stamped [OF shape(1) s, of rnd' p h c1] by (auto simp: shape(3) Let_def)
  have "span_seq c + 1 + 1 \<noteq> span_seq c + 1"
    by simp
  then have "?s' \<noteq> s"
    using counter_id_inj [of "span_seq c + 1 + 1" "span_seq c + 1"] by (auto simp: shape(2,4))
  moreover have "recorded = stamp_headers (t, p, s, tp) h"
    "sent = stamp_headers (t, s, ?s', format_traceparent t ?s') out"
    using assms(2) by (auto simp: routed_headers_def e e2 Let_def)
  moreover have "s \<noteq> []" using s(1) by auto
  ultimately show ?thesis
    by (simp add: stamped_fields) (simp add: stamp_headers_def Let_def)
qed

theorem recorded_span_never_sent_witness:
  "\<exists>recorded sent c'. routed_headers (replicate 8 0) (replicate 8 0) [] [] \<lparr>trace_seq = 0, span_seq = 0\<rparr> = (recorded, sent, c')
     \<and> hdr_get sent ''X-DevHub-Span-ID'' \<noteq> hdr_get recorded ''X-DevHub-Span-ID''"
proof -
  obtain recorded sent c' where "routed_headers (replicate 8 0) (replicate 8 0) [] [] \<lparr>trace_seq = 0, span_seq = 0\<rparr>
      = (recorded, sent, c')" by (metis prod.exhaust)
  then show ?thesis
    using recorded_span_never_sent [of "replicate 8 0"] by auto
qed

end
