(* ===== verification/Waterfall.thy ===== *)
theory Waterfall
  imports Trace_Context Ring_Buffer
begin

text \<open>
  The span tree of src/pkg/tracing/waterfall.go. Nodes live in a map keyed by event id and are
  linked through pointers; the model keeps the map and writes a node's id for its pointer. The two
  nested \<open>range\<close> loops visit the map in an order Go leaves open: the orders are arguments, and the
  theorems hold for all of them.
\<close>

section \<open>Nodes\<close>

record span_node =
  sn_id :: string
  sn_parent_span_id :: string
  sn_span_id :: string
  sn_trace_id :: string
  sn_timestamp :: string
  sn_method :: string
  sn_path :: string
  sn_target :: string
  sn_status_code :: int
  sn_duration_ms :: int
  sn_children :: "string list"

type_synonym span_map = "(string \<times> span_node) list"

definition span_node_of :: "trace_event \<Rightarrow> span_node" where
  "span_node_of ev =
     \<lparr>sn_id = ev_id ev,
      sn_parent_span_id = str_map_get (ev_req_headers ev) ''X-DevHub-Parent-Span-ID'',
      sn_span_id = str_map_get (ev_req_headers ev) ''X-DevHub-Span-ID'',
      sn_trace_id = ev_trace_id ev, sn_timestamp = ev_timestamp ev, sn_method = ev_method ev,
      sn_path = ev_path ev, sn_target = ev_target ev, sn_status_code = ev_status ev,
      sn_duration_ms = ev_duration ev, sn_children = []\<rparr>"

definition build_nodes :: "trace_event list \<Rightarrow> span_map" where
  "build_nodes matching = foldl (\<lambda>nodes ev. AList.update (ev_id ev) (span_node_of ev) nodes) [] matching"

section \<open>Linking\<close>

text \<open>The inner loop: the first potential parent in iteration order.\<close>

definition find_parent :: "span_map \<Rightarrow> string list \<Rightarrow> span_node \<Rightarrow> string option" where
  "find_parent nodes order node =
     find (\<lambda>k. case map_of nodes k of
              Some p \<Rightarrow> sn_span_id p \<noteq> [] \<and> sn_span_id p = sn_parent_span_id node
            | None \<Rightarrow> False) order"

definition add_child :: "span_map \<Rightarrow> string \<Rightarrow> string \<Rightarrow> span_map" where
  "add_child nodes p k =
     (case map_of nodes p of
        Some n \<Rightarrow> AList.update p (n\<lparr>sn_children := sn_children n @ [k]\<rparr>) nodes
      | None \<Rightarrow> nodes)"

text \<open>One round of the outer loop on the node map and the roots found so far.\<close>

definition link_node :: "(string \<Rightarrow> string list) \<Rightarrow> span_map \<times> string list \<Rightarrow> string \<Rightarrow> span_map \<times> string list" where
  "link_node inner st k =
     (let (nodes, roots) = st
      in case map_of nodes k of
           None \<Rightarrow> st
         | Some node \<Rightarrow>
             if sn_parent_span_id node = [] then (nodes, roots @ [k])
             else (case find_parent nodes (inner k) node of
                     Some p \<Rightarrow> (add_child nodes p k, roots)
                   | None \<Rightarrow> (nodes, roots @ [k])))"

definition matching_events :: "trace_event list \<Rightarrow> string \<Rightarrow> trace_event list" where
  "matching_events events tid = filter (\<lambda>ev. ev_trace_id ev = tid) events"

definition build_waterfall ::
  "string list \<Rightarrow> (string \<Rightarrow> string list) \<Rightarrow> trace_event list \<Rightarrow> string \<Rightarrow> span_map \<times> string list" where
  "build_waterfall outer inner events tid =
     (let matching = matching_events events tid
      in if matching = [] then ([], [])
         else foldl (link_node inner) (build_nodes matching, []) outer)"

text \<open>An order in which a loop may visit the keys of the node map.\<close>

definition range_order :: "span_map \<Rightarrow> string list \<Rightarrow> bool" where
  "range_order nodes order \<longleftrightarrow> distinct order \<and> set order = fst ` set nodes"

definition children_of :: "span_map \<Rightarrow> string \<Rightarrow> string list" where
  "children_of nodes p = (case map_of nodes p of Some n \<Rightarrow> sn_children n | None \<Rightarrow> [])"

section \<open>The shape of the node map does not change while linking\<close>

text \<open>The part of the map that linking only reads.\<close>

definition span_shape :: "span_map \<Rightarrow> (string \<Rightarrow> (string \<times> string) option)" where
  "span_shape nodes = (\<lambda>k. map_option (\<lambda>n. (sn_parent_span_id n, sn_span_id n)) (map_of nodes k))"

lemma span_shape_add_child [simp]: "span_shape (add_child nodes p k) = span_shape nodes"
  by (rule ext) (auto simp: span_shape_def add_child_def split: option.splits)

lemma children_add_child [simp]:
  "children_of (add_child nodes p k) q =
     (if q = p \<and> map_of nodes p \<noteq> None then children_of nodes q @ [k] else children_of nodes q)"
  by (auto simp: children_of_def add_child_def split: option.splits)

lemma find_parent_shape:
  "find_parent nodes order node =
     find (\<lambda>k. case span_shape nodes k of
              Some (_, s) \<Rightarrow> s \<noteq> [] \<and> s = sn_parent_span_id node | None \<Rightarrow> False) order"
  unfolding find_parent_def span_shape_def
  by (rule arg_cong [where f = "\<lambda>P. find P order"]) (auto split: option.splits)

text \<open>The parent of \<open>k\<close> as a function of the unchanging part: \<open>None\<close> for a root.\<close>

definition parent_in :: "(string \<Rightarrow> (string \<times> string) option) \<Rightarrow> (string \<Rightarrow> string list) \<Rightarrow> string \<Rightarrow> string option" where
  "parent_in shp inner k =
     (case shp k of
        None \<Rightarrow> None
      | Some (par, _) \<Rightarrow>
          if par = [] then None
          else find (\<lambda>q. case shp q of Some (_, s) \<Rightarrow> s \<noteq> [] \<and> s = par | None \<Rightarrow> False) (inner k))"

lemma find_Some_D: "find P xs = Some x \<Longrightarrow> P x \<and> x \<in> set xs"
  by (auto simp: find_Some_iff)

lemma parent_in_Some:
  assumes "parent_in shp inner k = Some p"
  shows "\<exists>par s a b. shp k = Some (par, a) \<and> par \<noteq> [] \<and> shp p = Some (b, par) \<and> p \<in> set (inner k)"
  using assms by (auto simp: parent_in_def split: option.splits if_splits dest!: find_Some_D)

lemma link_node_cases:
  assumes "map_of (fst st) k \<noteq> None"
  shows "link_node inner st k =
    (case parent_in (span_shape (fst st)) inner k of
       Some p \<Rightarrow> (add_child (fst st) p k, snd st)
     | None \<Rightarrow> (fst st, snd st @ [k]))"
proof -
  obtain nodes roots where st: "st = (nodes, roots)" by (cases st)
  with assms obtain node where n: "map_of nodes k = Some node" by auto
  then have "span_shape nodes k = Some (sn_parent_span_id node, sn_span_id node)"
    by (simp add: span_shape_def)
  then show ?thesis
    by (simp add: link_node_def st n parent_in_def find_parent_shape split: option.split)
qed

lemma link_node_shape [simp]: "span_shape (fst (link_node inner st k)) = span_shape (fst st)"
  by (cases st) (auto simp: link_node_def split: option.splits)

lemma shape_dom: "span_shape nodes k = None \<longleftrightarrow> map_of nodes k = None"
  by (simp add: span_shape_def)

text \<open>After the outer loop: every visited node is appended once, to its parent or to the roots.\<close>

lemma link_fold:
  assumes "\<forall>k \<in> set ks. shp k \<noteq> None" "span_shape (fst st) = shp"
  shows "span_shape (fst (foldl (link_node inner) st ks)) = shp
    \<and> snd (foldl (link_node inner) st ks) = snd st @ filter (\<lambda>k. parent_in shp inner k = None) ks
    \<and> (\<forall>p. children_of (fst (foldl (link_node inner) st ks)) p
          = children_of (fst st) p @ filter (\<lambda>k. parent_in shp inner k = Some p) ks)"
  using assms
proof (induction ks arbitrary: st)
  case Nil
  then show ?case by simp
next
  case (Cons k ks)
  let ?st = "link_node inner st k"
  from Cons.prems have k: "map_of (fst st) k \<noteq> None"
    using shape_dom [of "fst st" k] by auto
  note step = link_node_cases [OF k, of inner, unfolded Cons.prems(2)]
  have IH: "span_shape (fst (foldl (link_node inner) ?st ks)) = shp
      \<and> snd (foldl (link_node inner) ?st ks) = snd ?st @ filter (\<lambda>k. parent_in shp inner k = None) ks
      \<and> (\<forall>p. children_of (fst (foldl (link_node inner) ?st ks)) p
          = children_of (fst ?st) p @ filter (\<lambda>k. parent_in shp inner k = Some p) ks)"
    using Cons.prems by (intro Cons.IH) simp_all
  show ?case
  proof (cases "parent_in shp inner k")
    case None
    with IH step show ?thesis by simp
  next
    case (Some p)
    obtain b par where "shp p = Some (b, par)"
      using parent_in_Some [OF Some] by auto
    then obtain n where n: "map_of (fst st) p = Some n"
      using Cons.prems(2) shape_dom [of "fst st" p] by fastforce
    from step Some have "?st = (add_child (fst st) p k, snd st)" by simp
    with IH Some n show ?thesis by simp
  qed
qed

section \<open>The node map\<close>

lemma build_nodes_snoc:
  "build_nodes (es @ [ev]) = AList.update (ev_id ev) (span_node_of ev) (build_nodes es)"
  by (simp add: build_nodes_def)

lemma build_nodes_keys: "fst ` set (build_nodes es) = ev_id ` set es"
  by (induction es rule: rev_induct) (auto simp: build_nodes_snoc dom_update, simp add: build_nodes_def)

lemma build_nodes_entry:
  "map_of (build_nodes es) k = Some n \<Longrightarrow> \<exists>ev \<in> set es. ev_id ev = k \<and> n = span_node_of ev"
proof (induction es rule: rev_induct)
  case (snoc ev es)
  then show ?case
    by (auto simp: build_nodes_snoc split: if_splits)
qed (simp add: build_nodes_def)

lemma build_nodes_no_children: "children_of (build_nodes es) p = []"
  by (auto simp: children_of_def span_node_of_def dest!: build_nodes_entry split: option.split)

lemma build_waterfall_links:
  fixes events :: "trace_event list" and tid :: string
  defines "nodes \<equiv> build_nodes (matching_events events tid)"
  defines "shp \<equiv> span_shape nodes"
  assumes "range_order nodes outer"
    and "build_waterfall outer inner events tid = (nodes', roots)"
  shows "span_shape nodes' = shp" "roots = filter (\<lambda>k. parent_in shp inner k = None) outer"
    "children_of nodes' p = filter (\<lambda>k. parent_in shp inner k = Some p) outer"
proof -
  have dom: "\<forall>k \<in> set outer. shp k \<noteq> None"
    using assms(3) by (auto simp: shp_def range_order_def shape_dom map_of_eq_None_iff)
  have "span_shape nodes' = shp \<and> roots = filter (\<lambda>k. parent_in shp inner k = None) outer
      \<and> (\<forall>p. children_of nodes' p = filter (\<lambda>k. parent_in shp inner k = Some p) outer)"
  proof (cases "matching_events events tid = []")
    case True
    with assms show ?thesis
      by (auto simp: build_waterfall_def nodes_def shp_def build_nodes_def range_order_def children_of_def)
  next
    case False
    with assms(4) have "foldl (link_node inner) (nodes, []) outer = (nodes', roots)"
      by (simp add: build_waterfall_def nodes_def Let_def)
    with link_fold [OF dom, of "(nodes, [])" inner] show ?thesis
      by (simp add: shp_def) (simp add: nodes_def build_nodes_no_children)
  qed
  then show "span_shape nodes' = shp" "roots = filter (\<lambda>k. parent_in shp inner k = None) outer"
    "children_of nodes' p = filter (\<lambda>k. parent_in shp inner k = Some p) outer" by simp_all
qed

section \<open>Properties\<close>

text \<open>
  every event of the trace appears exactly once in the waterfall, either among the roots or as
  a child of one other entry, in whatever order the map is iterated.
\<close>

theorem waterfall_places_each_event_once:
  assumes "range_order (build_nodes (matching_events events tid)) outer"
    and "build_waterfall outer inner events tid = (nodes, roots)"
    and "ev \<in> set events" "ev_trace_id ev = tid"
  shows "distinct roots \<and> (\<forall>p. distinct (children_of nodes p))
    \<and> (\<exists>!place. case place of None \<Rightarrow> ev_id ev \<in> set roots
                            | Some p \<Rightarrow> ev_id ev \<in> set (children_of nodes p))"
proof -
  note links = build_waterfall_links [OF assms(1,2)]
  let ?par = "parent_in (span_shape (build_nodes (matching_events events tid))) inner"
  have "ev_id ev \<in> set outer"
    using assms(1,3,4) by (auto simp: range_order_def build_nodes_keys matching_events_def)
  then have place: "(case q of None \<Rightarrow> ev_id ev \<in> set roots | Some p \<Rightarrow> ev_id ev \<in> set (children_of nodes p))
      \<longleftrightarrow> q = ?par (ev_id ev)" for q
    by (auto simp: links(2,3) split: option.split)
  have "distinct outer" using assms(1) by (simp add: range_order_def)
  then show ?thesis
    unfolding place by (simp add: links(2,3))
qed

definition sample_span_event :: "string \<Rightarrow> string \<Rightarrow> string \<Rightarrow> trace_event" where
  "sample_span_event k s p = zero_event\<lparr>ev_id := k, ev_trace_id := ''t'',
     ev_req_headers := [(''X-DevHub-Span-ID'', s), (''X-DevHub-Parent-Span-ID'', p)]\<rparr>"

theorem waterfall_places_each_event_once_witness:
  "set (snd (build_waterfall [''2'', ''1''] (\<lambda>_. [''1'', ''2''])
      [sample_span_event ''1'' ''s1'' [], sample_span_event ''2'' ''s2'' ''s1''] ''t'')) \<subseteq> {''1'', ''2''}
   \<and> distinct (snd (build_waterfall [''2'', ''1''] (\<lambda>_. [''1'', ''2''])
      [sample_span_event ''1'' ''s1'' [], sample_span_event ''2'' ''s2'' ''s1''] ''t''))"
proof -
  let ?es = "[sample_span_event ''1'' ''s1'' [], sample_span_event ''2'' ''s2'' ''s1'']"
  obtain nodes roots where w: "build_waterfall [''2'', ''1''] (\<lambda>_. [''1'', ''2'']) ?es ''t'' = (nodes, roots)"
    by (metis prod.exhaust)
  have "range_order (build_nodes (matching_events ?es ''t'')) [''2'', ''1'']"
    by (auto simp: range_order_def build_nodes_keys matching_events_def sample_span_event_def)
  note o = this
  have "set roots \<subseteq> {''1'', ''2''}"
    using build_waterfall_links(2) [OF o w] by auto
  moreover have "ev_trace_id (sample_span_event ''1'' ''s1'' []) = ''t''"
    by (simp add: sample_span_event_def)
  ultimately show ?thesis
    using waterfall_places_each_event_once [OF o w, of "sample_span_event ''1'' ''s1'' []"]
    by (simp add: w)
qed

text \<open>
  an event whose recorded headers have canonical field names, as every header this server
  records has, is always a root: the lookups of the two span headers use names that are not
  canonical, so no live request is ever linked to its parent.
\<close>

theorem waterfall_live_events_flat:
  assumes "\<forall>ev \<in> set events. \<forall>k \<in> fst ` set (ev_req_headers ev). canonical_key k = k"
    and "range_order (build_nodes (matching_events events tid)) outer"
    and "build_waterfall outer inner events tid = (nodes, roots)"
  shows "roots = outer \<and> (\<forall>p. children_of nodes p = [])"
proof -
  note links = build_waterfall_links [OF assms(2,3)]
  have "parent_in (span_shape (build_nodes (matching_events events tid))) inner k = None" for k
  proof (cases "map_of (build_nodes (matching_events events tid)) k")
    case None
    then show ?thesis by (simp add: parent_in_def span_shape_def)
  next
    case (Some n)
    then obtain ev where ev: "ev \<in> set events" "n = span_node_of ev"
      by (auto simp: matching_events_def dest!: build_nodes_entry)
    have "''X-DevHub-Parent-Span-ID'' \<notin> fst ` set (ev_req_headers ev)"
    proof
      assume "''X-DevHub-Parent-Span-ID'' \<in> fst ` set (ev_req_headers ev)"
      with assms(1) ev(1) have "canonical_key ''X-DevHub-Parent-Span-ID'' = ''X-DevHub-Parent-Span-ID''"
        by blast
      then show False by simp
    qed
    then have "map_of (ev_req_headers ev) ''X-DevHub-Parent-Span-ID'' = None"
      by (simp only: map_of_eq_None_iff not_False_eq_True)
    then have "sn_parent_span_id n = []"
      by (simp add: ev(2) span_node_of_def str_map_get_def)
    with Some show ?thesis by (simp add: parent_in_def span_shape_def)
  qed
  then show ?thesis by (simp add: links(2,3))
qed

theorem waterfall_live_events_flat_witness:
  "snd (build_waterfall [''2'', ''1''] (\<lambda>_. [''1'', ''2''])
      [zero_event\<lparr>ev_id := ''1'', ev_trace_id := ''t'', ev_req_headers := [(''X-Devhub-Span-Id'', ''a'')]\<rparr>,
       zero_event\<lparr>ev_id := ''2'', ev_trace_id := ''t'', ev_req_headers := [(''X-Devhub-Parent-Span-Id'', ''a'')]\<rparr>] ''t'')
   = [''2'', ''1'']"
proof -
  let ?es = "[zero_event\<lparr>ev_id := ''1'', ev_trace_id := ''t'', ev_req_headers := [(''X-Devhub-Span-Id'', ''a'')]\<rparr>,
       zero_event\<lparr>ev_id := ''2'', ev_trace_id := ''t'', ev_req_headers := [(''X-Devhub-Parent-Span-Id'', ''a'')]\<rparr>]"
  obtain nodes roots where w: "build_waterfall [''2'', ''1''] (\<lambda>_. [''1'', ''2'']) ?es ''t'' = (nodes, roots)"
    by (metis prod.exhaust)
  have "range_order (build_nodes (matching_events ?es ''t'')) [''2'', ''1'']"
    by (auto simp: range_order_def build_nodes_keys matching_events_def)
  moreover have "canonical_key ''X-Devhub-Span-Id'' = ''X-Devhub-Span-Id''"
    "canonical_key ''X-Devhub-Parent-Span-Id'' = ''X-Devhub-Parent-Span-Id''"
    by code_simp+
  ultimately show ?thesis
    using waterfall_live_events_flat [OF _ _ w] by (simp add: w)
qed

end
