(* ===== verification/Net_Address.thy ===== *)
theory Net_Address
  imports Prelude
begin

text \<open>
  Host and port splitting as in Go's \<open>net.SplitHostPort\<close>, which src/pkg/proxy/engine.go
  (\<open>hasPort\<close>, the WebSocket proxy), src/pkg/proxy/health.go and src/pkg/proxy/security.go call.
\<close>

definition index_byte :: "string \<Rightarrow> char \<Rightarrow> nat option" where
  "index_byte s c =
     (let n = length (takeWhile (\<lambda>x. x \<noteq> c) s) in if n < length s then Some n else None)"

definition last_index_byte :: "string \<Rightarrow> char \<Rightarrow> nat option" where
  "last_index_byte s c =
     (case index_byte (rev s) c of Some n \<Rightarrow> Some (length s - 1 - n) | None \<Rightarrow> None)"

text \<open>The error text is that of \<open>net.AddrError\<close>.\<close>

definition addr_err :: "string \<Rightarrow> string \<Rightarrow> string + 'a" where
  "addr_err hostport why = Inl (''address '' @ hostport @ '': '' @ why)"

definition split_host_port :: "string \<Rightarrow> string + (string \<times> string)" where
  "split_host_port hostport =
     (case last_index_byte hostport CHR '':'' of
        None \<Rightarrow> addr_err hostport ''missing port in address''
      | Some i \<Rightarrow>
          (let checked = (\<lambda>host j k.
                 if CHR ''['' \<in> set (drop j hostport) then addr_err hostport ''unexpected '[' in address''
                 else if CHR '']'' \<in> set (drop k hostport) then addr_err hostport ''unexpected ']' in address''
                 else Inr (host, drop (i + 1) hostport))
           in if hostport ! 0 = CHR ''[''
              then (case index_byte hostport CHR '']'' of
                      None \<Rightarrow> addr_err hostport ''missing ']' in address''
                    | Some e \<Rightarrow>
                        if e + 1 = length hostport then addr_err hostport ''missing port in address''
                        else if e + 1 = i then checked (drop 1 (take e hostport)) 1 (e + 1)
                        else if hostport ! (e + 1) = CHR '':''
                        then addr_err hostport ''too many colons in address''
                        else addr_err hostport ''missing port in address'')
              else (let host = take i hostport
                    in if CHR '':'' \<in> set host then addr_err hostport ''too many colons in address''
                       else checked host 0 0)))"

text \<open>\<open>hasPort\<close> of engine.go.\<close>

definition has_port :: "string \<Rightarrow> bool" where
  "has_port host = (case split_host_port host of Inr _ \<Rightarrow> True | Inl _ \<Rightarrow> False)"

text \<open>
  The address net/http's transport dials for a URL (\<open>canonicalAddr\<close>): host and port as \<open>net/url\<close>
  splits them, the port of the scheme when there is none, a non-ASCII host in its IDNA form.
\<close>

definition valid_optional_port :: "string \<Rightarrow> bool" where
  "valid_optional_port s = (case s of [] \<Rightarrow> True | c # cs \<Rightarrow> c = CHR '':'' \<and> list_all dec_digit cs)"

definition split_url_host :: "string \<Rightarrow> string \<times> string" where
  "split_url_host host_port =
     (let (host, port) = (case last_index_byte host_port CHR '':'' of
            Some i \<Rightarrow> if valid_optional_port (drop i host_port)
                      then (take i host_port, drop (i + 1) host_port) else (host_port, [])
          | None \<Rightarrow> (host_port, []))
      in if host \<noteq> [] \<and> hd host = CHR ''['' \<and> last host = CHR '']''
         then (butlast (drop 1 host), port) else (host, port))"

definition join_host_port :: "string \<Rightarrow> string \<Rightarrow> string" where
  "join_host_port host port =
     (if CHR '':'' \<in> set host then ''['' @ host @ '']:'' @ port else host @ '':'' @ port)"

definition canonical_addr :: "(string \<Rightarrow> string) \<Rightarrow> string \<Rightarrow> string \<Rightarrow> string" where
  "canonical_addr idna scheme url_host =
     (let (host, port) = split_url_host url_host;
          port = (if port = [] then (if scheme = ''https'' then ''443'' else ''80'') else port)
      in join_host_port (if is_ascii host then host else idna host) port)"

lemma index_byte_append: "c \<notin> set xs \<Longrightarrow> index_byte (xs @ c # ys) c = Some (length xs)"
proof -
  assume "c \<notin> set xs"
  then have "takeWhile (\<lambda>x. x \<noteq> c) (xs @ c # ys) = xs"
    by (induction xs) auto
  then show ?thesis by (simp add: index_byte_def Let_def)
qed

lemma index_byte_None [simp]: "index_byte s c = None \<longleftrightarrow> c \<notin> set s"
proof -
  have "length (takeWhile (\<lambda>x. x \<noteq> c) s) < length s \<longleftrightarrow> c \<in> set s"
    by (induction s) auto
  then show ?thesis by (simp add: index_byte_def Let_def)
qed

lemma last_index_byte_append: "c \<notin> set ys \<Longrightarrow> last_index_byte (xs @ c # ys) c = Some (length xs)"
  by (simp add: last_index_byte_def index_byte_append)

lemma split_host_port_name:
  assumes "{CHR '':'', CHR ''['', CHR '']''} \<inter> set h = {}" "{CHR '':'', CHR ''['', CHR '']''} \<inter> set p = {}"
  shows "split_host_port (h @ '':'' @ p) = Inr (h, p)"
proof -
  have "last_index_byte (h @ CHR '':'' # p) CHR '':'' = Some (length h)"
    using assms by (intro last_index_byte_append) auto
  moreover have "(h @ CHR '':'' # p) ! 0 \<noteq> CHR ''[''"
    using assms by (cases h) auto
  ultimately show ?thesis
    using assms by (auto simp: split_host_port_def Let_def)
qed

lemma has_port_name:
  assumes "{CHR '':'', CHR ''['', CHR '']''} \<inter> set h = {}"
  shows "\<not> has_port h" "has_port (h @ '':80'')"
proof -
  have "index_byte (rev h) CHR '':'' = None"
    using assms by simp
  then have "last_index_byte h CHR '':'' = None"
    by (simp only: last_index_byte_def option.case)
  then show "\<not> has_port h"
    by (simp add: has_port_def split_host_port_def addr_err_def)
  show "has_port (h @ '':80'')"
    using split_host_port_name [of h "''80''"] assms by (simp add: has_port_def)
qed

end
