(* ===== verification/Health.thy ===== *)
theory Health
  imports Route_Trie Net_Address
begin

text \<open>
  The upstream health monitor and circuit breaker of src/pkg/proxy/health.go. Every operation holds
  the mutex for its whole body, so it is one step on the monitor; a probe is two: the network part,
  whose outcome is classified by \<open>probe_outcome\<close>, and the locked update. The status callback is
  modelled by the list of snapshots it is called with.
\<close>

section \<open>State\<close>

record target_health =
  th_name :: string
  th_url :: string
  th_host :: string
  th_healthy :: bool
  th_status :: string
  th_fails :: int
  th_last_checked :: int
  th_latency_ms :: int
  th_health_path :: string
  th_message :: string

definition status_healthy :: string where "status_healthy = ''HEALTHY''"
definition status_degraded :: string where "status_degraded = ''DEGRADED''"
definition status_unhealthy :: string where "status_unhealthy = ''UNHEALTHY''"
definition status_unknown :: string where "status_unknown = ''UNKNOWN''"

lemma status_distinct [simp]:
  "status_healthy \<noteq> status_unhealthy" "status_degraded \<noteq> status_unhealthy"
  "status_unknown \<noteq> status_unhealthy"
  by (simp_all add: status_healthy_def status_degraded_def status_unhealthy_def status_unknown_def)

text \<open>\<open>hm_notify\<close>: a status callback is set.\<close>

record health_monitor =
  hm_targets :: "(string \<times> target_health) list"
  hm_notify :: bool
  hm_enforce :: bool

definition new_health_monitor :: health_monitor where
  "new_health_monitor = \<lparr>hm_targets = [], hm_notify = False, hm_enforce = False\<rparr>"

section \<open>Operations\<close>

definition set_circuit_breaker_enforcement :: "bool \<Rightarrow> health_monitor \<Rightarrow> health_monitor" where
  "set_circuit_breaker_enforcement enabled h = h\<lparr>hm_enforce := enabled\<rparr>"

definition set_on_status_change :: "bool \<Rightarrow> health_monitor \<Rightarrow> health_monitor" where
  "set_on_status_change fn h = h\<lparr>hm_notify := fn\<rparr>"

text \<open>A nil URL is \<open>None\<close>.\<close>

definition register_target :: "gurl option \<Rightarrow> string \<Rightarrow> health_monitor \<Rightarrow> health_monitor" where
  "register_target u health_path h =
     (case u of
        None \<Rightarrow> h
      | Some u \<Rightarrow>
          if map_of (hm_targets h) (u_string u) = None
          then h\<lparr>hm_targets := AList.update (u_string u)
                 \<lparr>th_name = u_host u, th_url = u_string u, th_host = u_host u, th_healthy = True,
                  th_status = status_healthy, th_fails = 0, th_last_checked = 0, th_latency_ms = 0,
                  th_health_path = (if health_path = [] then ''tcp'' else health_path),
                  th_message = []\<rparr> (hm_targets h)\<rparr>
          else h)"

definition is_healthy :: "gurl option \<Rightarrow> health_monitor \<Rightarrow> bool" where
  "is_healthy u h =
     (case u of
        None \<Rightarrow> False
      | Some u \<Rightarrow> (case map_of (hm_targets h) (u_string u) of
                    Some target \<Rightarrow> th_healthy target
                  | None \<Rightarrow> True))"

definition is_circuit_broken :: "gurl option \<Rightarrow> health_monitor \<Rightarrow> bool" where
  "is_circuit_broken u h =
     (case u of
        None \<Rightarrow> False
      | Some u \<Rightarrow>
          if \<not> hm_enforce h then False
          else (case map_of (hm_targets h) (u_string u) of
                  Some target \<Rightarrow> \<not> th_healthy target
                | None \<Rightarrow> False))"

definition record_success :: "int \<Rightarrow> gurl option \<Rightarrow> health_monitor \<Rightarrow> health_monitor \<times> target_health list" where
  "record_success now u h =
     (case u of
        None \<Rightarrow> (h, [])
      | Some u \<Rightarrow>
          (case map_of (hm_targets h) (u_string u) of
             None \<Rightarrow> (h, [])
           | Some target \<Rightarrow>
               (let was_unhealthy = \<not> th_healthy target;
                    target = target\<lparr>th_fails := 0, th_healthy := True, th_status := status_healthy,
                                    th_last_checked := now\<rparr>
                in (h\<lparr>hm_targets := AList.update (u_string u) target (hm_targets h)\<rparr>,
                    if was_unhealthy \<and> hm_notify h then [target] else []))))"

definition record_failure :: "int \<Rightarrow> gurl option \<Rightarrow> health_monitor \<Rightarrow> health_monitor \<times> target_health list" where
  "record_failure now u h =
     (case u of
        None \<Rightarrow> (h, [])
      | Some u \<Rightarrow>
          (case map_of (hm_targets h) (u_string u) of
             None \<Rightarrow> (h, [])
           | Some target \<Rightarrow>
               (let was_healthy = th_healthy target;
                    target = target\<lparr>th_fails := th_fails target + 1, th_last_checked := now\<rparr>;
                    tripped = 3 \<le> th_fails target;
                    target = (if tripped
                              then target\<lparr>th_healthy := False, th_status := status_unhealthy\<rparr>
                              else target)
                in (h\<lparr>hm_targets := AList.update (u_string u) target (hm_targets h)\<rparr>,
                    if tripped \<and> was_healthy \<and> hm_notify h then [target] else []))))"

definition get_all_status :: "health_monitor \<Rightarrow> target_health list" where
  "get_all_status h = map snd (hm_targets h)"

section \<open>Probing\<close>

text \<open>
  What the network delivers to a probe: \<open>NewRequestError\<close>, \<open>ClientError\<close> and \<open>Response\<close> for the
  HTTP probe, \<open>DialOk\<close> and \<open>DialError\<close> for the TCP probe.
\<close>

datatype probe_result =
  NewRequestError string | ClientError string | Response int | DialOk | DialError string

text \<open>
  A target with a health path other than \<open>tcp\<close> is probed over HTTP, the others by a TCP dial with
  port 80 as the default; \<open>http\<close> and \<open>dial\<close> are what the network answers.
\<close>

definition probe_target ::
  "(string \<Rightarrow> probe_result) \<Rightarrow> (string \<Rightarrow> probe_result) \<Rightarrow> target_health \<Rightarrow> probe_result" where
  "probe_target http dial t =
     (if th_health_path t \<noteq> [] \<and> th_health_path t \<noteq> ''tcp'' then http (th_url t @ th_health_path t)
      else dial (if \<not> has_port (th_host t) then th_host t @ '':80'' else th_host t))"

text \<open>\<open>http.StatusText\<close> is the argument \<open>stext\<close>. The result is \<open>(isSuccess, status, msg)\<close>.\<close>

fun probe_outcome :: "(int \<Rightarrow> string) \<Rightarrow> probe_result \<Rightarrow> bool \<times> string \<times> string" where
  "probe_outcome stext (NewRequestError msg) = (False, status_degraded, msg)"
| "probe_outcome stext (ClientError msg) = (False, status_degraded, msg)"
| "probe_outcome stext (Response code) =
     (if 200 \<le> code \<and> code < 400 then (True, status_healthy, [])
      else if code = 404 then (True, status_unknown, ''Service port active; health path returned 404'')
      else (False, status_degraded, stext code))"
| "probe_outcome stext DialOk = (True, status_healthy, [])"
| "probe_outcome stext (DialError msg) = (False, status_degraded, msg)"

definition probe_update ::
  "int \<Rightarrow> int \<Rightarrow> bool \<times> string \<times> string \<Rightarrow> target_health \<Rightarrow> target_health" where
  "probe_update now latency outcome target =
     (let (is_success, status, msg) = outcome;
          target = target\<lparr>th_last_checked := now, th_latency_ms := latency, th_message := msg\<rparr>
      in if is_success
         then target\<lparr>th_fails := 0, th_healthy := True, th_status := status\<rparr>
         else (let target = target\<lparr>th_fails := th_fails target + 1\<rparr>
               in if 3 \<le> th_fails target
                  then target\<lparr>th_healthy := False, th_status := status_unhealthy\<rparr>
                  else target\<lparr>th_status := status_degraded\<rparr>))"

text \<open>
  The locked part of a probe. The pointer the probe loop holds is the entry of its key: targets are
  never removed or replaced.
\<close>

definition probe_record ::
  "int \<Rightarrow> int \<Rightarrow> bool \<times> string \<times> string \<Rightarrow> string \<Rightarrow> health_monitor \<Rightarrow> health_monitor \<times> target_health list" where
  "probe_record now latency outcome key h =
     (case map_of (hm_targets h) key of
        None \<Rightarrow> (h, [])
      | Some target \<Rightarrow>
          (let was_state = th_healthy target;
               target = probe_update now latency outcome target
           in (h\<lparr>hm_targets := AList.update key target (hm_targets h)\<rparr>,
               if was_state \<noteq> th_healthy target \<and> hm_notify h then [target] else [])))"

text \<open>
  \<open>probeAll\<close> without interference: the targets are listed once and probed in that order. \<open>clock\<close> is
  the time and latency of each probe; the context is cancelled before the \<open>n\<close>-th target.
\<close>

definition probe_all ::
  "(int \<Rightarrow> string) \<Rightarrow> (string \<Rightarrow> probe_result) \<Rightarrow> (string \<Rightarrow> probe_result) \<Rightarrow> (string \<Rightarrow> int \<times> int) \<Rightarrow> nat \<Rightarrow>
   health_monitor \<Rightarrow> health_monitor \<times> target_health list" where
  "probe_all stext http dial clock n h =
     foldl (\<lambda>(h, out) (key, target).
        (let (h, out') = probe_record (fst (clock key)) (snd (clock key))
                           (probe_outcome stext (probe_target http dial target)) key h
         in (h, out @ out')))
       (h, []) (take n (hm_targets h))"

section \<open>Steps\<close>

datatype health_op =
    Register "gurl option" string
  | Success int "gurl option"
  | Failure int "gurl option"
  | Probe int int probe_result string
  | Enforce bool
  | OnChange bool

fun health_step :: "(int \<Rightarrow> string) \<Rightarrow> health_monitor \<Rightarrow> health_op \<Rightarrow> health_monitor \<times> target_health list" where
  "health_step stext h (Register u path) = (register_target u path h, [])"
| "health_step stext h (Success now u) = record_success now u h"
| "health_step stext h (Failure now u) = record_failure now u h"
| "health_step stext h (Probe now latency result key) =
     probe_record now latency (probe_outcome stext result) key h"
| "health_step stext h (Enforce b) = (set_circuit_breaker_enforcement b h, [])"
| "health_step stext h (OnChange b) = (set_on_status_change b h, [])"

fun health_run :: "(int \<Rightarrow> string) \<Rightarrow> health_monitor \<Rightarrow> health_op list \<Rightarrow> health_monitor \<times> target_health list" where
  "health_run stext h [] = (h, [])"
| "health_run stext h (op # ops) =
     (let (h', out) = health_step stext h op; (h'', out') = health_run stext h' ops in (h'', out @ out'))"

lemma health_run_Cons:
  "health_run stext h (op # ops) =
     (fst (health_run stext (fst (health_step stext h op)) ops),
      snd (health_step stext h op) @ snd (health_run stext (fst (health_step stext h op)) ops))"
  by (simp add: Let_def split: prod.split)

text \<open>A whole probing round is a sequence of probe steps.\<close>

lemma probe_all_fold:
  "foldl (\<lambda>(h, out) (key, target).
        (let (h, out') = probe_record (fst (clock key)) (snd (clock key))
                           (probe_outcome stext (probe_target http dial target)) key h
         in (h, out @ out'))) (h, out) kts
   = (let r = health_run stext h (map (\<lambda>(key, target). Probe (fst (clock key)) (snd (clock key))
            (probe_target http dial target) key) kts)
      in (fst r, out @ snd r))"
  by (induction kts arbitrary: h out)
     (auto simp: health_run_Cons Let_def simp del: health_run.simps(2) split: prod.splits)

lemma probe_all_run:
  "probe_all stext http dial clock n h =
     health_run stext h (map (\<lambda>(key, target). Probe (fst (clock key)) (snd (clock key))
            (probe_target http dial target) key) (take n (hm_targets h)))"
  by (simp only: probe_all_def probe_all_fold) (simp add: Let_def)

section \<open>Invariant\<close>

definition target_ok :: "string \<Rightarrow> target_health \<Rightarrow> bool" where
  "target_ok key t \<longleftrightarrow> th_url t = key \<and> 0 \<le> th_fails t \<and> (th_healthy t \<longleftrightarrow> th_fails t < 3)
     \<and> (th_status t = status_unhealthy \<longleftrightarrow> \<not> th_healthy t) \<and> th_health_path t \<noteq> []"

definition health_inv :: "health_monitor \<Rightarrow> bool" where
  "health_inv h \<longleftrightarrow> map_ok (hm_targets h) \<and> (\<forall>(k, t) \<in> set (hm_targets h). target_ok k t)"

lemma health_invD: "health_inv h \<Longrightarrow> map_of (hm_targets h) k = Some t \<Longrightarrow> target_ok k t"
  by (auto simp: health_inv_def dest: map_of_SomeD)

lemma health_inv_update:
  "health_inv h \<Longrightarrow> target_ok k t \<Longrightarrow> health_inv (h\<lparr>hm_targets := AList.update k t (hm_targets h)\<rparr>)"
  by (auto simp: health_inv_def dest: set_update_cases)

lemma health_inv_new: "health_inv new_health_monitor"
  by (simp add: health_inv_def new_health_monitor_def)

text \<open>
  What one result does to a target, whichever operation reports it: the three operations that carry
  a result agree on the counter and on the health flag.
\<close>

definition result_update :: "bool \<Rightarrow> target_health \<Rightarrow> int \<times> bool" where
  "result_update ok t =
     (if ok then (0, True) else (th_fails t + 1, th_healthy t \<and> th_fails t + 1 < 3))"

fun op_result :: "(int \<Rightarrow> string) \<Rightarrow> health_op \<Rightarrow> (string \<times> bool) option" where
  "op_result stext (Success now (Some u)) = Some (u_string u, True)"
| "op_result stext (Failure now (Some u)) = Some (u_string u, False)"
| "op_result stext (Probe now latency result key) = Some (key, fst (probe_outcome stext result))"
| "op_result stext _ = None"

lemma probe_outcome_status: "snd (probe_outcome stext r) = (st, msg) \<Longrightarrow> st \<noteq> status_unhealthy"
  by (cases "(stext, r)" rule: probe_outcome.cases) (auto split: if_splits)

text \<open>An operation that carries a result for an absent target does nothing.\<close>

lemma result_step_absent:
  assumes "op_result stext op = Some (k, ok)" "map_of (hm_targets h) k = None"
  shows "health_step stext h op = (h, [])"
  using assms
  by (cases "(stext, op)" rule: op_result.cases)
     (auto simp: record_success_def record_failure_def probe_record_def)

lemma result_step:
  assumes "op_result stext op = Some (k, ok)" "map_of (hm_targets h) k = Some t" "target_ok k t"
  shows "\<exists>t'. health_step stext h op = (h\<lparr>hm_targets := AList.update k t' (hm_targets h)\<rparr>,
        if th_healthy t' \<noteq> th_healthy t \<and> hm_notify h then [t'] else [])
    \<and> target_ok k t' \<and> (th_fails t', th_healthy t') = result_update ok t"
proof (cases "(stext, op)" rule: op_result.cases)
  case (1 tx now u)
  with assms show ?thesis
    by (intro exI [of _ "t\<lparr>th_fails := 0, th_healthy := True, th_status := status_healthy,
          th_last_checked := now\<rparr>"])
       (simp add: record_success_def target_ok_def result_update_def Let_def)
next
  case (2 tx now u)
  with assms show ?thesis
    by (intro exI [of _ "let t = t\<lparr>th_fails := th_fails t + 1, th_last_checked := now\<rparr>
          in if 3 \<le> th_fails t then t\<lparr>th_healthy := False, th_status := status_unhealthy\<rparr> else t"])
       (auto simp: record_failure_def target_ok_def result_update_def Let_def)
next
  case (3 tx now latency result key)
  obtain ok' st msg where o: "probe_outcome stext result = (ok', st, msg)" by (metis prod_cases3)
  with probe_outcome_status [of stext result] have "st \<noteq> status_unhealthy" by auto
  with 3 o assms show ?thesis
    by (intro exI [of _ "probe_update now latency (ok', st, msg) t"])
       (auto simp: probe_record_def probe_update_def target_ok_def result_update_def Let_def)
qed (use assms in auto)

lemma other_step:
  assumes "op_result stext op = None" "map_of (hm_targets h) k = Some t"
  shows "map_of (hm_targets (fst (health_step stext h op))) k = Some t \<and> snd (health_step stext h op) = []"
  using assms
  by (cases "(stext, op)" rule: op_result.cases)
     (auto simp: record_success_def record_failure_def register_target_def
       set_circuit_breaker_enforcement_def set_on_status_change_def split: option.split)

text \<open>
  The effect of a step on the target registered under \<open>key\<close>: a result for another key, or no
  result, leaves it alone; a result for it counts, and the callback fires exactly on a flip.
\<close>

lemma health_step_target:
  assumes inv: "health_inv h" and t: "map_of (hm_targets h) key = Some t"
  shows "\<exists>t'. map_of (hm_targets (fst (health_step stext h op))) key = Some t' \<and> target_ok key t'
    \<and> (case op_result stext op of
         Some (k, ok) \<Rightarrow> (if k = key then (th_fails t', th_healthy t') = result_update ok t else t' = t)
       | None \<Rightarrow> t' = t)
    \<and> filter (\<lambda>s. th_url s = key) (snd (health_step stext h op)) =
        (if th_healthy t' \<noteq> th_healthy t \<and> hm_notify h then [t'] else [])"
proof (cases "op_result stext op")
  case None
  with other_step [OF None t] health_invD [OF inv t] t show ?thesis by auto
next
  case (Some r)
  obtain k ok where r: "op_result stext op = Some (k, ok)" using Some by (cases r) auto
  show ?thesis
  proof (cases "map_of (hm_targets h) k")
    case None
    with result_step_absent [OF r None] r t health_invD [OF inv t] show ?thesis by auto
  next
    case (Some s)
    obtain s' where s': "health_step stext h op = (h\<lparr>hm_targets := AList.update k s' (hm_targets h)\<rparr>,
          if th_healthy s' \<noteq> th_healthy s \<and> hm_notify h then [s'] else [])"
      "target_ok k s'" "(th_fails s', th_healthy s') = result_update ok s"
      using result_step [OF r Some health_invD [OF inv Some]] by blast
    from s'(2) have "th_url s' = k" by (simp add: target_ok_def)
    with s' r t Some health_invD [OF inv t] show ?thesis
      by (cases "k = key") auto
  qed
qed

lemma health_inv_step:
  assumes "health_inv h"
  shows "health_inv (fst (health_step stext h op))"
proof (cases "op_result stext op")
  case None
  then show ?thesis
    using assms
    by (cases "(stext, op)" rule: op_result.cases)
       (auto simp: register_target_def set_circuit_breaker_enforcement_def set_on_status_change_def
          record_success_def record_failure_def target_ok_def health_inv_def
          dest: set_update_cases split: option.split)
next
  case (Some r)
  obtain k ok where r: "op_result stext op = Some (k, ok)" using Some by (cases r) auto
  show ?thesis
  proof (cases "map_of (hm_targets h) k")
    case None
    with result_step_absent [OF r None] assms show ?thesis by simp
  next
    case (Some s)
    with result_step [OF r Some health_invD [OF assms Some]] assms show ?thesis
      by (auto intro: health_inv_update)
  qed
qed

lemma health_inv_run: "health_inv h \<Longrightarrow> health_inv (fst (health_run stext h ops))"
  by (induction ops arbitrary: h)
     (simp_all add: health_run_Cons health_inv_step del: health_run.simps(2))

section \<open>Properties\<close>

text \<open>
  in every state the monitor can reach, a target is healthy exactly when fewer than three
  failures in a row are counted, its status is \<open>UNHEALTHY\<close> exactly when it is not, and it is stored
  under its own URL.
\<close>

theorem health_reachable_invariant:
  "map_of (hm_targets (fst (health_run stext new_health_monitor ops))) key = Some t \<Longrightarrow> target_ok key t"
  by (rule health_invD [OF health_inv_run [OF health_inv_new]])

definition sample_upstream :: gurl where
  "sample_upstream = \<lparr>u_scheme = ''http'', u_host = ''db:5432'', u_string = ''http://db:5432''\<rparr>"

definition sample_failures :: "nat \<Rightarrow> health_op list" where
  "sample_failures n = Register (Some sample_upstream) [] # replicate n (Failure 7 (Some sample_upstream))"

theorem health_reachable_invariant_witness:
  "\<exists>t. map_of (hm_targets (fst (health_run (\<lambda>_. []) new_health_monitor (sample_failures 3)))) ''http://db:5432'' = Some t
     \<and> target_ok ''http://db:5432'' t \<and> \<not> th_healthy t"
proof -
  have "\<exists>t. map_of (hm_targets (fst (health_run (\<lambda>_. []) new_health_monitor (sample_failures 3)))) ''http://db:5432'' = Some t
     \<and> \<not> th_healthy t"
    by (simp add: sample_failures_def numeral_3_eq_3 new_health_monitor_def register_target_def
        record_failure_def sample_upstream_def Let_def)
  then show ?thesis
    using health_reachable_invariant by blast
qed

text \<open>The results reported for \<open>key\<close>, in order: \<open>True\<close> is a success.\<close>

definition results_for :: "(int \<Rightarrow> string) \<Rightarrow> string \<Rightarrow> health_op list \<Rightarrow> bool list" where
  "results_for stext key ops = map snd (filter (\<lambda>(k, ok). k = key) (List.map_filter (op_result stext) ops))"

definition failure_streak :: "bool list \<Rightarrow> nat" where
  "failure_streak rs = length (takeWhile Not (rev rs))"

lemma results_for_simps:
  "results_for stext key [] = []"
  "results_for stext key (op # ops) =
     (case op_result stext op of Some (k, ok) \<Rightarrow> if k = key then [ok] else [] | None \<Rightarrow> [])
     @ results_for stext key ops"
  by (auto simp: results_for_def List.map_filter_def split: option.split)

lemma takeWhile_Not_snoc:
  "takeWhile Not (xs @ [r]) =
     (if list_all Not xs then xs @ (if r then [] else [r]) else takeWhile Not xs)"
  by (induction xs) auto

lemma failure_streak_Cons:
  "failure_streak (r # rs) = (if r \<or> \<not> list_all Not rs then failure_streak rs else Suc (length rs))"
proof -
  have all: "length (takeWhile Not (rev rs)) = length rs" if "list_all Not rs"
  proof -
    from that have "takeWhile Not (rev rs) = rev rs"
      by (simp add: list_all_iff)
    then show ?thesis by (simp only: length_rev)
  qed
  have "takeWhile Not (rev (r # rs)) =
      (if list_all Not rs then rev rs @ (if r then [] else [r]) else takeWhile Not (rev rs))"
    by (simp add: takeWhile_Not_snoc list_all_iff)
  with all show ?thesis by (simp add: failure_streak_def del: rev.simps)
qed

lemma failure_streak_all: "list_all Not rs \<Longrightarrow> failure_streak rs = length rs"
  by (simp add: failure_streak_def list_all_iff takeWhile_eq_all_conv [THEN iffD2])

text \<open>The counter of a target is its old value plus all results if none succeeded, else the streak.\<close>

lemma health_run_fails:
  assumes "health_inv h" "map_of (hm_targets h) key = Some t"
  shows "\<exists>t'. map_of (hm_targets (fst (health_run stext h ops))) key = Some t'
    \<and> th_fails t' = (if list_all Not (results_for stext key ops)
         then th_fails t + int (length (results_for stext key ops))
         else int (failure_streak (results_for stext key ops)))"
  using assms
proof (induction ops arbitrary: h t)
  case Nil
  then show ?case by (simp add: results_for_simps)
next
  case (Cons op ops)
  obtain t1 where t1: "map_of (hm_targets (fst (health_step stext h op))) key = Some t1"
    "case op_result stext op of
       Some (k, ok) \<Rightarrow> if k = key then (th_fails t1, th_healthy t1) = result_update ok t else t1 = t
     | None \<Rightarrow> t1 = t"
    using health_step_target [OF Cons.prems, of stext op] by blast
  obtain t' where t': "map_of (hm_targets (fst (health_run stext (fst (health_step stext h op)) ops))) key = Some t'"
    "th_fails t' = (if list_all Not (results_for stext key ops)
         then th_fails t1 + int (length (results_for stext key ops))
         else int (failure_streak (results_for stext key ops)))"
    using Cons.IH [OF health_inv_step [OF Cons.prems(1)] t1(1)] by blast
  from t1(2) t' show ?case
    by (auto simp: health_run_Cons results_for_simps result_update_def failure_streak_Cons failure_streak_all
        simp del: health_run.simps(2) split: option.splits if_splits)
qed

text \<open>
  C14: the circuit of a registered upstream is broken exactly when enforcement is on and the last
  three or more results reported for it, by requests or by probes, were failures; one success
  closes it again. An upstream that was never registered is never blocked.
\<close>

theorem breaker_tracks_failure_streak:
  fixes ops :: "health_op list" and stext :: "int \<Rightarrow> string"
  assumes "health_inv h" "map_of (hm_targets h) (u_string u) = Some t" "th_fails t = 0"
  defines "h' \<equiv> fst (health_run stext h ops)"
  defines "streak \<equiv> failure_streak (results_for stext (u_string u) ops)"
  shows "(is_circuit_broken (Some u) h' \<longleftrightarrow> hm_enforce h' \<and> 3 \<le> streak)
    \<and> (is_healthy (Some u) h' \<longleftrightarrow> streak < 3)"
proof -
  obtain t' where t': "map_of (hm_targets h') (u_string u) = Some t'" "th_fails t' = int streak"
    using health_run_fails [OF assms(1,2), of stext ops] assms(3)
    by (auto simp: h'_def streak_def failure_streak_all split: if_splits)
  moreover have "th_healthy t' \<longleftrightarrow> th_fails t' < 3"
    using health_invD [OF health_inv_run [OF assms(1)]] t'(1) by (simp add: h'_def target_ok_def)
  ultimately show ?thesis
    by (auto simp: is_circuit_broken_def is_healthy_def)
qed

theorem breaker_tracks_failure_streak_witness:
  "is_circuit_broken (Some sample_upstream)
     (fst (health_run (\<lambda>_. []) (register_target (Some sample_upstream) [] (new_health_monitor\<lparr>hm_enforce := True\<rparr>))
        [Failure 1 (Some sample_upstream), Probe 2 5 (Response 503) ''http://db:5432'', Failure 3 (Some sample_upstream)]))"
proof -
  let ?h = "register_target (Some sample_upstream) [] (new_health_monitor\<lparr>hm_enforce := True\<rparr>)"
  let ?ops = "[Failure 1 (Some sample_upstream), Probe 2 5 (Response 503) ''http://db:5432'', Failure 3 (Some sample_upstream)]"
  have inv: "health_inv ?h"
    using health_inv_step [of "new_health_monitor\<lparr>hm_enforce := True\<rparr>" "\<lambda>_. []" "Register (Some sample_upstream) []"]
    by (simp add: health_inv_def new_health_monitor_def)
  obtain t where t: "map_of (hm_targets ?h) (u_string sample_upstream) = Some t" "th_fails t = 0"
    by (simp add: register_target_def new_health_monitor_def)
  have "failure_streak (results_for (\<lambda>_. []) (u_string sample_upstream) ?ops) = 3"
    by (simp add: results_for_simps failure_streak_def sample_upstream_def)
  moreover have "hm_enforce (fst (health_run (\<lambda>_. []) ?h ?ops))"
    by (simp add: register_target_def new_health_monitor_def record_failure_def probe_record_def
        sample_upstream_def Let_def)
  ultimately show ?thesis
    using breaker_tracks_failure_streak [OF inv t, of "\<lambda>_. []" ?ops] by simp
qed

text \<open>Each flag of the list differs from the one before it, starting from \<open>b\<close>.\<close>

fun alternates :: "bool \<Rightarrow> bool list \<Rightarrow> bool" where
  "alternates b [] = True"
| "alternates b (x # xs) = (x = (\<not> b) \<and> alternates x xs)"

definition flips_for :: "string \<Rightarrow> target_health list \<Rightarrow> bool list" where
  "flips_for key out = map th_healthy (filter (\<lambda>s. th_url s = key) out)"

lemma hm_notify_step:
  "hm_notify h \<Longrightarrow> op \<noteq> OnChange False \<Longrightarrow> hm_notify (fst (health_step stext h op))"
  by (cases "(stext, h, op)" rule: health_step.cases)
     (auto simp: register_target_def record_success_def record_failure_def probe_record_def
        set_circuit_breaker_enforcement_def set_on_status_change_def Let_def split: option.splits)

text \<open>
  while a status callback is set, the notifications of a target are exactly its health flips:
  they alternate, starting with the opposite of its health at the beginning, and the last one
  agrees with the health it ends with.
\<close>

theorem notifications_are_flips:
  assumes "health_inv h" "map_of (hm_targets h) key = Some t"
    and "hm_notify h" "OnChange False \<notin> set ops"
  shows "alternates (th_healthy t) (flips_for key (snd (health_run stext h ops)))
    \<and> (\<exists>t'. map_of (hm_targets (fst (health_run stext h ops))) key = Some t'
         \<and> th_healthy t' = last (th_healthy t # flips_for key (snd (health_run stext h ops))))"
  using assms
proof (induction ops arbitrary: h t)
  case Nil
  then show ?case by (simp add: flips_for_def)
next
  case (Cons op ops)
  let ?h1 = "fst (health_step stext h op)"
  obtain t1 where t1: "map_of (hm_targets ?h1) key = Some t1"
    "filter (\<lambda>s. th_url s = key) (snd (health_step stext h op)) =
       (if th_healthy t1 \<noteq> th_healthy t \<and> hm_notify h then [t1] else [])"
    using health_step_target [OF Cons.prems(1,2), of stext op] by blast
  have "hm_notify ?h1"
    using Cons.prems(3,4) by (intro hm_notify_step) auto
  then have IH: "alternates (th_healthy t1) (flips_for key (snd (health_run stext ?h1 ops)))
      \<and> (\<exists>t'. map_of (hm_targets (fst (health_run stext ?h1 ops))) key = Some t'
         \<and> th_healthy t' = last (th_healthy t1 # flips_for key (snd (health_run stext ?h1 ops))))"
    using Cons.prems t1(1) by (intro Cons.IH health_inv_step) auto
  have "flips_for key (snd (health_run stext h (op # ops))) =
      (if th_healthy t1 \<noteq> th_healthy t then [th_healthy t1] else [])
      @ flips_for key (snd (health_run stext ?h1 ops))"
    using t1(2) Cons.prems(3) by (simp add: health_run_Cons flips_for_def del: health_run.simps(2))
  with IH show ?case
    by (auto simp: health_run_Cons simp del: health_run.simps(2))
qed

theorem notifications_are_flips_witness:
  "alternates True (flips_for ''http://db:5432'' (snd (health_run (\<lambda>_. [])
     (register_target (Some sample_upstream) [] (new_health_monitor\<lparr>hm_notify := True\<rparr>))
     (replicate 4 (Failure 1 (Some sample_upstream)) @ [Success 2 (Some sample_upstream)]))))"
proof -
  let ?h = "register_target (Some sample_upstream) [] (new_health_monitor\<lparr>hm_notify := True\<rparr>)"
  have inv: "health_inv ?h"
    using health_inv_step [of "new_health_monitor\<lparr>hm_notify := True\<rparr>" "\<lambda>_. []" "Register (Some sample_upstream) []"]
    by (simp add: health_inv_def new_health_monitor_def)
  obtain t where t: "map_of (hm_targets ?h) ''http://db:5432'' = Some t" "th_healthy t"
    by (simp add: register_target_def new_health_monitor_def sample_upstream_def)
  have "hm_notify ?h"
    by (simp add: register_target_def new_health_monitor_def)
  from notifications_are_flips [OF inv t(1) this, of
      "replicate 4 (Failure 1 (Some sample_upstream)) @ [Success 2 (Some sample_upstream)]" "\<lambda>_. []"] t(2)
  show ?thesis by simp
qed

text \<open>
  as long as enforcement is not switched on, no sequence of results makes the monitor block an
  upstream; and an upstream that was not registered is never blocked.
\<close>

theorem passive_monitor_never_blocks:
  "(\<not> hm_enforce h \<longrightarrow> Enforce True \<notin> set ops \<longrightarrow> \<not> is_circuit_broken u (fst (health_run stext h ops)))
   \<and> (\<forall>v. map_of (hm_targets h) (u_string v) = None \<longrightarrow> \<not> is_circuit_broken (Some v) h)"
proof (intro conjI impI allI)
  have step: "\<not> hm_enforce (fst (health_step stext h op))"
    if "\<not> hm_enforce h" "Enforce True \<noteq> op" for h op
    using that
    by (cases "(stext, h, op)" rule: health_step.cases)
       (auto simp: register_target_def record_success_def record_failure_def probe_record_def
          set_circuit_breaker_enforcement_def set_on_status_change_def Let_def split: option.splits)
  assume "\<not> hm_enforce h" "Enforce True \<notin> set ops"
  then have "\<not> hm_enforce (fst (health_run stext h ops))"
    by (induction ops arbitrary: h)
       (simp_all add: health_run_Cons step del: health_run.simps(2))
  then show "\<not> is_circuit_broken u (fst (health_run stext h ops))"
    by (simp add: is_circuit_broken_def split: option.split)
next
  fix v :: gurl
  assume "map_of (hm_targets h) (u_string v) = None"
  then show "\<not> is_circuit_broken (Some v) h"
    by (simp add: is_circuit_broken_def)
qed

theorem passive_monitor_never_blocks_witness:
  "\<not> is_circuit_broken (Some sample_upstream)
     (fst (health_run (\<lambda>_. []) new_health_monitor (sample_failures 3)))"
proof -
  have "\<not> hm_enforce new_health_monitor" "Enforce True \<notin> set (sample_failures 3)"
    by (simp_all add: new_health_monitor_def sample_failures_def)
  with passive_monitor_never_blocks show ?thesis by blast
qed

end
