(* ===== verification/Mock_Rules.thy ===== *)
theory Mock_Rules
  imports Prelude "HOL-Library.Multiset"
begin

text \<open>
  The mock rules of src/pkg/mock/mock.go: a map from clean prefixes to rules. \<open>GetRule\<close> ranges over
  the map; the list that stands for the map is the order of one such loop, and the theorems show
  that the answer does not depend on it.
\<close>

section \<open>Rules\<close>

definition mode_always :: string where "mode_always = ''always''"
definition mode_on_error :: string where "mode_on_error = ''on_error''"

text \<open>\<open>mr_headers = None\<close> is the nil map.\<close>

record mock_rule =
  mr_prefix :: string
  mr_enabled :: bool
  mr_mode :: string
  mr_status_code :: int
  mr_status :: int
  mr_headers :: "(string \<times> string) list option"
  mr_body :: string
  mr_delay_ms :: int

type_synonym mock_rules = "(string \<times> mock_rule) list"

definition new_mocks :: mock_rules where
  "new_mocks = []"

text \<open>The normalisation every operation begins with.\<close>

definition clean_prefix :: "string \<Rightarrow> string" where
  "clean_prefix p = (if p = ''/'' then ''/'' else ''/'' @ trim_slashes p)"

definition json_headers :: "(string \<times> string) list" where
  "json_headers = [(''Content-Type'', ''application/json'')]"

text \<open>The defaults \<open>SetRule\<close> fills in, in the order of the code.\<close>

definition normalise_rule :: "mock_rule \<Rightarrow> mock_rule" where
  "normalise_rule rule =
     (let rule = (if mr_status_code rule \<le> 0 \<and> 0 < mr_status rule
                  then rule\<lparr>mr_status_code := mr_status rule\<rparr> else rule);
          rule = (if mr_status_code rule \<le> 0 then rule\<lparr>mr_status_code := 200\<rparr> else rule);
          rule = (if mr_mode rule = [] then rule\<lparr>mr_mode := mode_always\<rparr> else rule);
          rule = (if mr_headers rule = None then rule\<lparr>mr_headers := Some json_headers\<rparr> else rule)
      in if mr_body rule = []
         then rule\<lparr>mr_body := ''{\"status\":\"mocked_ok\",\"message\":\"DevHub Mock Response\"}''\<rparr>
         else rule)"

definition set_rule :: "mock_rule \<Rightarrow> mock_rules \<Rightarrow> mock_rules" where
  "set_rule rule m =
     (let cp = clean_prefix (mr_prefix rule)
      in AList.update cp ((normalise_rule rule)\<lparr>mr_prefix := cp\<rparr>) m)"

text \<open>One round of the loop of \<open>GetRule\<close> on \<open>(bestMatch, bestLen)\<close>.\<close>

definition best_step :: "string \<Rightarrow> mock_rule option \<times> int \<Rightarrow> string \<times> mock_rule \<Rightarrow> mock_rule option \<times> int" where
  "best_step cpath best entry =
     (let (pre, rule) = entry
      in if \<not> mr_enabled rule then best
         else if pre = ''/'' \<or> has_prefix cpath pre
         then (if int (length pre) > snd best then (Some rule, int (length pre)) else best)
         else best)"

definition get_rule :: "string \<Rightarrow> mock_rules \<Rightarrow> mock_rule option" where
  "get_rule path m = fst (foldl (best_step (clean_prefix path)) (None, - 1) m)"

definition toggle_rule :: "string \<Rightarrow> bool \<Rightarrow> mock_rules \<Rightarrow> bool \<times> mock_rules" where
  "toggle_rule pre enabled m =
     (let cp = clean_prefix pre
      in case map_of m cp of
           Some rule \<Rightarrow> (True, AList.update cp (rule\<lparr>mr_enabled := enabled\<rparr>) m)
         | None \<Rightarrow>
             (True, AList.update cp
                \<lparr>mr_prefix = cp, mr_enabled = enabled, mr_mode = mode_always, mr_status_code = 200,
                 mr_status = 0, mr_headers = Some json_headers,
                 mr_body = ''{\"status\":\"mocked_ok\"}'', mr_delay_ms = 0\<rparr> m))"

text \<open>\<open>ListRules\<close> repairs a missing status code in place, under the read lock.\<close>

definition list_rules :: "mock_rules \<Rightarrow> mock_rule list \<times> mock_rules" where
  "list_rules m =
     (let m = map (\<lambda>(k, r). (k, if mr_status_code r \<le> 0 \<and> 0 < mr_status r
                                then r\<lparr>mr_status_code := mr_status r\<rparr> else r)) m
      in (map snd m, m))"

section \<open>Clean prefixes\<close>

lemma trim_right_idem [simp]: "trim_right P (trim_right P s) = trim_right P s"
  by (simp add: trim_right_def)

lemma trim_slashes_idem [simp]: "trim_slashes (trim_slashes s) = trim_slashes s"
proof (cases "trim_slashes s")
  case Nil
  then show ?thesis by simp
next
  case (Cons c cs)
  then have "c \<noteq> CHR ''/''" by (rule trim_slashes_no_leading)
  then have "trim_left (\<lambda>c. c = CHR ''/'') (trim_slashes s) = trim_slashes s"
    by (simp add: trim_left_def Cons)
  then show ?thesis
    by (simp add: trim_slashes_def)
qed

lemma clean_prefix_eq: "clean_prefix p = CHR ''/'' # trim_slashes p"
  by (simp add: clean_prefix_def)

lemma clean_prefix_idem [simp]: "clean_prefix (clean_prefix p) = clean_prefix p"
  by (simp add: clean_prefix_eq)

section \<open>Invariant\<close>

definition rule_ok :: "string \<Rightarrow> mock_rule \<Rightarrow> bool" where
  "rule_ok k r \<longleftrightarrow> mr_prefix r = k \<and> clean_prefix k = k \<and> 0 < mr_status_code r \<and> mr_mode r \<noteq> []
     \<and> mr_headers r \<noteq> None \<and> mr_body r \<noteq> []"

definition mock_inv :: "mock_rules \<Rightarrow> bool" where
  "mock_inv m \<longleftrightarrow> map_ok m \<and> (\<forall>(k, r) \<in> set m. rule_ok k r)"

lemma mock_inv_new: "mock_inv new_mocks"
  by (simp add: mock_inv_def new_mocks_def)

lemma mock_inv_update: "mock_inv m \<Longrightarrow> rule_ok k r \<Longrightarrow> mock_inv (AList.update k r m)"
  by (auto simp: mock_inv_def dest: set_update_cases)

lemma mock_invD: "mock_inv m \<Longrightarrow> (k, r) \<in> set m \<Longrightarrow> rule_ok k r"
  by (auto simp: mock_inv_def)

lemma normalise_rule_fields:
  "0 < mr_status_code (normalise_rule r)" "mr_mode (normalise_rule r) \<noteq> []"
  "mr_headers (normalise_rule r) \<noteq> None" "mr_body (normalise_rule r) \<noteq> []"
  "mr_enabled (normalise_rule r) = mr_enabled r" "mr_delay_ms (normalise_rule r) = mr_delay_ms r"
  "0 < mr_status_code r \<Longrightarrow> mr_status_code (normalise_rule r) = mr_status_code r"
  by (auto simp: normalise_rule_def mode_always_def Let_def)

lemma set_rule_ok: "rule_ok (clean_prefix p) ((normalise_rule r)\<lparr>mr_prefix := clean_prefix p\<rparr>)"
  using normalise_rule_fields [of r] by (simp add: rule_ok_def)

lemma mock_inv_set: "mock_inv m \<Longrightarrow> mock_inv (set_rule rule m)"
  by (simp add: set_rule_def Let_def mock_inv_update set_rule_ok)

lemma mock_inv_toggle: "mock_inv m \<Longrightarrow> mock_inv (snd (toggle_rule p b m))"
  by (auto simp: toggle_rule_def Let_def rule_ok_def mode_always_def split: option.split
      intro!: mock_inv_update dest!: map_of_SomeD dest: mock_invD)

lemma list_rules_pure: "mock_inv m \<Longrightarrow> list_rules m = (map snd m, m)"
proof -
  assume "mock_inv m"
  then have "map (\<lambda>(k, r). (k, if mr_status_code r \<le> 0 \<and> 0 < mr_status r
      then r\<lparr>mr_status_code := mr_status r\<rparr> else r)) m = m"
    by (intro map_idI) (auto dest!: mock_invD simp: rule_ok_def)
  then show ?thesis by (simp add: list_rules_def)
qed

section \<open>The loop of \<open>GetRule\<close>\<close>

text \<open>The entries the loop considers: enabled, and with a prefix of the clean path.\<close>

definition applicable :: "string \<Rightarrow> string \<times> mock_rule \<Rightarrow> bool" where
  "applicable cpath e \<longleftrightarrow> mr_enabled (snd e) \<and> (fst e = ''/'' \<or> has_prefix cpath (fst e))"

lemma best_step_applicable:
  "best_step cpath best e =
     (if applicable cpath e \<and> snd best < int (length (fst e)) then (Some (snd e), int (length (fst e)))
      else best)"
  by (auto simp: best_step_def applicable_def Let_def split: prod.split)

text \<open>What the loop holds after some rounds: the best entry \<open>seen\<close> so far, or nothing.\<close>

definition best_of :: "string \<Rightarrow> (string \<times> mock_rule) list \<Rightarrow> mock_rule option \<times> int \<Rightarrow> bool" where
  "best_of cpath seen best \<longleftrightarrow>
     (best = (None, - 1) \<and> (\<forall>e \<in> set seen. \<not> applicable cpath e))
     \<or> (\<exists>e \<in> set seen. applicable cpath e \<and> best = (Some (snd e), int (length (fst e)))
          \<and> (\<forall>e' \<in> set seen. applicable cpath e' \<longrightarrow> length (fst e') \<le> length (fst e)))"

lemma best_of_step: "best_of cpath seen best \<Longrightarrow> best_of cpath (seen @ [e]) (best_step cpath best e)"
proof -
  assume *: "best_of cpath seen best"
  show ?thesis
  proof (cases "applicable cpath e \<and> snd best < int (length (fst e))")
    case True
    then have step: "best_step cpath best e = (Some (snd e), int (length (fst e)))"
      by (simp add: best_step_applicable)
    have "\<forall>e' \<in> set seen. applicable cpath e' \<longrightarrow> length (fst e') \<le> length (fst e)"
      using * True unfolding best_of_def by auto
    with True show ?thesis
      unfolding step best_of_def by (intro disjI2 bexI [of _ e]) auto
  next
    case False
    then have step: "best_step cpath best e = best"
      by (auto simp: best_step_applicable)
    from * consider "best = (None, - 1)" "\<forall>e \<in> set seen. \<not> applicable cpath e"
      | f where "f \<in> set seen" "applicable cpath f" "best = (Some (snd f), int (length (fst f)))"
          "\<forall>e' \<in> set seen. applicable cpath e' \<longrightarrow> length (fst e') \<le> length (fst f)"
      unfolding best_of_def by blast
    then show ?thesis
    proof cases
      case 1
      with False show ?thesis unfolding step best_of_def by auto
    next
      case (2 f)
      with False show ?thesis
        unfolding step best_of_def by (intro disjI2 bexI [of _ f]) auto
    qed
  qed
qed

lemma best_fold: "best_of cpath seen best \<Longrightarrow> best_of cpath (seen @ m) (foldl (best_step cpath) best m)"
proof (induction m arbitrary: seen best)
  case (Cons e m)
  from Cons.IH [OF best_of_step [OF Cons.prems]] show ?case by simp
qed simp

lemma get_rule_cases:
  "(get_rule path m = None \<and> (\<forall>e \<in> set m. \<not> applicable (clean_prefix path) e))
   \<or> (\<exists>e \<in> set m. applicable (clean_prefix path) e \<and> get_rule path m = Some (snd e)
        \<and> (\<forall>e' \<in> set m. applicable (clean_prefix path) e' \<longrightarrow> length (fst e') \<le> length (fst e)))"
  using best_fold [of "clean_prefix path" "[]" "(None, - 1)" m]
  unfolding get_rule_def best_of_def by auto

lemma applicable_prefix:
  "applicable (clean_prefix path) e \<Longrightarrow> has_prefix (clean_prefix path) (fst e)"
  by (auto simp: applicable_def clean_prefix_eq)

lemma applicable_root: "mr_enabled (snd e) \<Longrightarrow> has_prefix cpath (fst e) \<Longrightarrow> applicable cpath e"
  by (simp add: applicable_def)

section \<open>Properties\<close>

text \<open>The operations that change the rules, as steps.\<close>

datatype mock_op = SetRule mock_rule | ToggleRule string bool | ListRules

fun mock_step :: "mock_rules \<Rightarrow> mock_op \<Rightarrow> mock_rules" where
  "mock_step m (SetRule r) = set_rule r m"
| "mock_step m (ToggleRule p b) = snd (toggle_rule p b m)"
| "mock_step m ListRules = snd (list_rules m)"

lemma mock_inv_step: "mock_inv m \<Longrightarrow> mock_inv (mock_step m op)"
  by (cases op) (simp_all add: mock_inv_set mock_inv_toggle list_rules_pure)

text \<open>
  after any sequence of operations every rule is stored under its own clean prefix and has a
  positive status code, a mode, headers and a body; so \<open>ListRules\<close>, which repairs rules under a
  read lock, never changes anything.
\<close>

theorem mock_rules_invariant:
  "mock_inv (foldl mock_step new_mocks ops)
   \<and> list_rules (foldl mock_step new_mocks ops)
     = (map snd (foldl mock_step new_mocks ops), foldl mock_step new_mocks ops)"
proof -
  have "mock_inv m \<Longrightarrow> mock_inv (foldl mock_step m ops)" for m
    by (induction ops arbitrary: m) (simp_all add: mock_inv_step)
  then show ?thesis
    by (simp add: mock_inv_new list_rules_pure)
qed

text \<open>
  C23: \<open>GetRule\<close> returns a rule exactly when an enabled rule's prefix starts the cleaned path; it is
  then the rule with the longest such prefix, in whatever order the map is iterated.
\<close>

theorem get_rule_longest_prefix:
  assumes "mock_inv m"
  shows "(get_rule path m = None \<longleftrightarrow>
            (\<forall>(k, r) \<in> set m. mr_enabled r \<longrightarrow> \<not> has_prefix (clean_prefix path) k))
    \<and> (\<forall>r. get_rule path m = Some r \<longrightarrow>
         mr_enabled r \<and> has_prefix (clean_prefix path) (mr_prefix r) \<and> map_of m (mr_prefix r) = Some r
         \<and> (\<forall>(k, r') \<in> set m. mr_enabled r' \<and> has_prefix (clean_prefix path) k
              \<longrightarrow> length k \<le> length (mr_prefix r)))
    \<and> (\<forall>m'. mset m' = mset m \<longrightarrow> get_rule path m' = get_rule path m)"
proof (intro conjI allI impI)
  note app = applicable_prefix [of path] applicable_root [of _ "clean_prefix path"]
  show "get_rule path m = None \<longleftrightarrow>
      (\<forall>(k, r) \<in> set m. mr_enabled r \<longrightarrow> \<not> has_prefix (clean_prefix path) k)"
    using get_rule_cases [of path m] app by (fastforce simp: applicable_def)
next
  fix r assume "get_rule path m = Some r"
  then obtain k where e: "(k, r) \<in> set m" "applicable (clean_prefix path) (k, r)"
    "\<forall>e' \<in> set m. applicable (clean_prefix path) e' \<longrightarrow> length (fst e') \<le> length k"
    using get_rule_cases [of path m] by fastforce
  have "mr_prefix r = k"
    using assms e(1) by (auto dest: mock_invD simp: rule_ok_def)
  moreover have "map_of m k = Some r"
    using assms e(1) by (simp add: mock_inv_def)
  ultimately show "mr_enabled r" "has_prefix (clean_prefix path) (mr_prefix r)"
    "map_of m (mr_prefix r) = Some r"
    "\<forall>(k, r') \<in> set m. mr_enabled r' \<and> has_prefix (clean_prefix path) k \<longrightarrow> length k \<le> length (mr_prefix r)"
    using e(2,3) applicable_prefix [OF e(2)] by (auto simp: applicable_def)
next
  fix m' :: mock_rules
  assume perm: "mset m' = mset m"
  then have sets: "set m' = set m" by (rule mset_eq_setD)
  from get_rule_cases [of path m] show "get_rule path m' = get_rule path m"
  proof
    assume "get_rule path m = None \<and> (\<forall>e \<in> set m. \<not> applicable (clean_prefix path) e)"
    with get_rule_cases [of path m'] sets show ?thesis by auto
  next
    assume "\<exists>e \<in> set m. applicable (clean_prefix path) e \<and> get_rule path m = Some (snd e)
      \<and> (\<forall>e' \<in> set m. applicable (clean_prefix path) e' \<longrightarrow> length (fst e') \<le> length (fst e))"
    then obtain e where e: "e \<in> set m" "applicable (clean_prefix path) e" "get_rule path m = Some (snd e)"
      "\<forall>e' \<in> set m. applicable (clean_prefix path) e' \<longrightarrow> length (fst e') \<le> length (fst e)" by blast
    with get_rule_cases [of path m'] sets
    obtain e' where e': "e' \<in> set m" "applicable (clean_prefix path) e'" "get_rule path m' = Some (snd e')"
      "\<forall>e \<in> set m. applicable (clean_prefix path) e \<longrightarrow> length (fst e) \<le> length (fst e')" by auto
    have "length (fst e) = length (fst e')"
      using e e' by (meson le_antisym)
    then have "fst e = fst e'"
      using applicable_prefix [OF e(2)] applicable_prefix [OF e'(2)] by (metis has_prefix_same_length)
    then have "e = e'"
      using e(1) e'(1) assms by (metis map_ok_in_set mock_inv_def option.inject prod.collapse)
    with e(3) e'(3) show ?thesis by simp
  qed
qed

definition sample_mock :: "string \<Rightarrow> int \<Rightarrow> mock_rule" where
  "sample_mock p code = \<lparr>mr_prefix = p, mr_enabled = True, mr_mode = [], mr_status_code = code,
     mr_status = 0, mr_headers = None, mr_body = [], mr_delay_ms = 0\<rparr>"

theorem get_rule_longest_prefix_witness:
  "get_rule ''/none'' (set_rule (sample_mock ''/auth/login/'' 201) (set_rule (sample_mock ''auth'' 200) new_mocks)) = None"
proof -
  let ?m = "set_rule (sample_mock ''/auth/login/'' 201) (set_rule (sample_mock ''auth'' 200) new_mocks)"
  have "mock_inv ?m" by (intro mock_inv_set mock_inv_new)
  moreover have keys: "fst ` set ?m = {''/auth'', ''/auth/login''}"
    by (simp add: set_rule_def sample_mock_def new_mocks_def Let_def clean_prefix_def trim_slashes_def
        trim_left_def trim_right_def)
  have none: "clean_prefix ''/none'' = ''/none''"
    by (simp add: clean_prefix_def trim_slashes_def trim_left_def trim_right_def)
  have "\<not> has_prefix ''/none'' k" if "(k, r) \<in> set ?m" for k r
    using imageI [OF that, of fst] unfolding keys by (auto simp: has_prefix_def)
  then have "\<forall>(k, r) \<in> set ?m. mr_enabled r \<longrightarrow> \<not> has_prefix (clean_prefix ''/none'') k"
    unfolding none by blast
  ultimately have "mock_inv ?m" "\<forall>(k, r) \<in> set ?m. mr_enabled r \<longrightarrow> \<not> has_prefix (clean_prefix ''/none'') k"
    by blast+
  with get_rule_longest_prefix [of ?m "''/none''"] show ?thesis by blast
qed

text \<open>
  a rule that was just set and enabled answers for its own prefix, with the configured status
  code; and toggling it off or on changes no other rule.
\<close>

theorem set_rule_then_get_rule:
  assumes "mock_inv m" "mr_enabled rule"
  shows "\<exists>r. get_rule (mr_prefix rule) (set_rule rule m) = Some r
      \<and> mr_prefix r = clean_prefix (mr_prefix rule)
      \<and> (0 < mr_status_code rule \<longrightarrow> mr_status_code r = mr_status_code rule)
    \<and> (\<forall>b k. k \<noteq> mr_prefix r \<longrightarrow>
         map_of (snd (toggle_rule (mr_prefix rule) b (set_rule rule m))) k = map_of m k)"
proof -
  let ?cp = "clean_prefix (mr_prefix rule)" and ?m = "set_rule rule m"
  let ?r = "(normalise_rule rule)\<lparr>mr_prefix := ?cp\<rparr>"
  have m: "?m = AList.update ?cp ?r m" by (simp add: set_rule_def Let_def)
  have inv: "mock_inv ?m" using assms(1) by (rule mock_inv_set)
  have en: "mr_enabled ?r" using assms(2) by (simp add: normalise_rule_fields)
  have look: "map_of ?m ?cp = Some ?r" by (simp add: m)
  note spec = get_rule_longest_prefix [OF inv, of "mr_prefix rule"]
  from look have mem: "(?cp, ?r) \<in> set ?m" by (rule map_of_SomeD)
  with en spec have "get_rule (mr_prefix rule) ?m \<noteq> None" by fastforce
  then obtain r where r: "get_rule (mr_prefix rule) ?m = Some r" by blast
  from spec r have r': "has_prefix ?cp (mr_prefix r)" "map_of ?m (mr_prefix r) = Some r"
    "length ?cp \<le> length (mr_prefix r)"
    using mem en by fastforce+
  then have "mr_prefix r = ?cp"
    by (metis has_prefix_length has_prefix_same_length has_prefix_self le_antisym)
  moreover from this r'(2) look have "r = ?r" by simp
  ultimately show ?thesis
    using r by (auto simp: normalise_rule_fields toggle_rule_def Let_def look m split: option.split)
qed

theorem set_rule_then_get_rule_witness:
  "\<exists>r. get_rule ''auth'' (set_rule (sample_mock ''auth'' 418) new_mocks) = Some r \<and> mr_status_code r = 418"
  using set_rule_then_get_rule [OF mock_inv_new, of "sample_mock ''auth'' 418"]
  by (auto simp: sample_mock_def)

text \<open>
  rules match by bytes, not by path segments: an enabled rule for \<open>/auth\<close> alone also answers
  for \<open>/auth\<close> followed by any other characters, such as \<open>/authors\<close>.
\<close>

theorem mock_prefix_crosses_segments:
  assumes "mr_enabled rule" "s \<noteq> []" "CHR ''/'' \<notin> set s"
  shows "\<exists>r. get_rule (clean_prefix (mr_prefix rule) @ s) (set_rule rule new_mocks) = Some r
    \<and> mr_prefix r = clean_prefix (mr_prefix rule)"
proof -
  let ?cp = "clean_prefix (mr_prefix rule)" and ?m = "set_rule rule new_mocks"
  let ?r = "(normalise_rule rule)\<lparr>mr_prefix := ?cp\<rparr>"
  obtain w where w: "?cp = CHR ''/'' # w" "w = trim_slashes (mr_prefix rule)"
    by (simp add: clean_prefix_eq)
  have "hd (w @ s) \<noteq> CHR ''/''" "w @ s \<noteq> []"
    using w(2) assms(2,3) trim_slashes_no_leading by (cases w; cases s; force)+
  then have l: "trim_left (\<lambda>c. c = CHR ''/'') (w @ s) = w @ s"
    by (cases "w @ s") (simp_all add: trim_left_def)
  have "trim_right (\<lambda>c. c = CHR ''/'') (w @ s) = w @ s"
    using assms(2,3) by (cases s rule: rev_cases) (auto simp: trim_right_def)
  with l have "trim_slashes (w @ s) = w @ s"
    by (simp only: trim_slashes_def)
  then have "clean_prefix (?cp @ s) = ?cp @ s"
    by (simp add: clean_prefix_eq w(2) [symmetric])
  moreover have "applicable (?cp @ s) (?cp, ?r)"
    using assms(1) by (simp add: applicable_def normalise_rule_fields)
  moreover have "?m = [(?cp, ?r)]"
    by (simp add: set_rule_def new_mocks_def Let_def)
  ultimately show ?thesis
    using get_rule_cases [of "?cp @ s" ?m] by auto
qed

theorem mock_prefix_crosses_segments_witness:
  "\<exists>r. get_rule ''/authors'' (set_rule (sample_mock ''/auth'' 200) new_mocks) = Some r \<and> mr_prefix r = ''/auth''"
proof -
  have "clean_prefix ''/auth'' = ''/auth''"
    by (simp add: clean_prefix_def trim_slashes_def trim_left_def trim_right_def)
  then show ?thesis
    using mock_prefix_crosses_segments [of "sample_mock ''/auth'' 200" "''ors''"]
    by (simp add: sample_mock_def)
qed

end
