(* ===== verification/Capture.thy ===== *)
theory Capture
  imports Prelude
begin

text \<open>
  Payload capture in src/pkg/proxy/engine.go: the pooled \<open>captureBuffer\<close>, the \<open>bodySniffer\<close> around
  a request body and the pooled \<open>responseCapturer\<close> around a response writer. Pooled objects come
  back with the contents of earlier requests, so every theorem is stated for an arbitrary old
  state. A byte of a payload is a \<open>char\<close>.
\<close>

section \<open>The capture buffer\<close>

definition max_capture_size :: nat where
  "max_capture_size = 64 * 1024"

record capture_buffer =
  cb_data :: string
  cb_len :: nat

text \<open>\<open>copy(dst[off:], src)\<close>: as many bytes as fit.\<close>

definition copy_at :: "string \<Rightarrow> nat \<Rightarrow> string \<Rightarrow> string" where
  "copy_at dst off src =
     take off dst @ take (length dst - off) src @ drop (off + length src) dst"

definition capture_reset :: "capture_buffer \<Rightarrow> capture_buffer" where
  "capture_reset c = c\<lparr>cb_len := 0\<rparr>"

definition capture_write :: "capture_buffer \<Rightarrow> string \<Rightarrow> capture_buffer" where
  "capture_write c b =
     (if cb_len c \<ge> max_capture_size then c
      else let can_write = max_capture_size - cb_len c
           in if length b \<le> can_write
              then c\<lparr>cb_data := copy_at (cb_data c) (cb_len c) b, cb_len := cb_len c + length b\<rparr>
              else c\<lparr>cb_data := copy_at (cb_data c) (cb_len c) (take can_write b),
                     cb_len := cb_len c + can_write\<rparr>)"

definition capture_string :: "capture_buffer \<Rightarrow> string" where
  "capture_string c = (if cb_len c = 0 then [] else take (cb_len c) (cb_data c))"

text \<open>What the pool creates; every buffer keeps this length.\<close>

definition new_capture_buffer :: capture_buffer where
  "new_capture_buffer = \<lparr>cb_data = replicate max_capture_size (char_of (0 :: nat)), cb_len = 0\<rparr>"

definition capture_ok :: "capture_buffer \<Rightarrow> bool" where
  "capture_ok c \<longleftrightarrow> length (cb_data c) = max_capture_size \<and> cb_len c \<le> max_capture_size"

lemma copy_at_length [simp]: "off + length src \<le> length dst \<Longrightarrow> length (copy_at dst off src) = length dst"
  by (simp add: copy_at_def)

lemma copy_at_take:
  "off + length src \<le> length dst \<Longrightarrow> take (off + length src) (copy_at dst off src) = take off dst @ src"
  by (simp add: copy_at_def)

lemma capture_ok_new: "capture_ok new_capture_buffer"
  by (simp add: capture_ok_def new_capture_buffer_def)

lemma capture_ok_reset: "capture_ok c \<Longrightarrow> capture_ok (capture_reset c)"
  by (simp add: capture_ok_def capture_reset_def)

lemma capture_string_take: "capture_string c = take (cb_len c) (cb_data c)"
  by (simp add: capture_string_def)

lemma capture_write_step:
  assumes "capture_ok c"
  shows "capture_ok (capture_write c b)"
    "capture_string (capture_write c b) = take max_capture_size (capture_string c @ b)"
proof -
  let ?n = "cb_len c" and ?d = "cb_data c"
  have len: "length (capture_string c) = ?n"
    using assms by (simp add: capture_string_take capture_ok_def)
  have "capture_ok (capture_write c b)
      \<and> capture_string (capture_write c b) = take max_capture_size (capture_string c @ b)"
  proof (cases "?n \<ge> max_capture_size")
    case True
    with assms len show ?thesis
      by (simp add: capture_write_def capture_ok_def)
  next
    case False
    define b' where "b' = take (max_capture_size - ?n) b"
    have b': "?n + length b' \<le> length ?d" "length b' \<le> max_capture_size - ?n"
      using assms False by (auto simp: b'_def capture_ok_def)
    have w: "capture_write c b = c\<lparr>cb_data := copy_at ?d ?n b', cb_len := ?n + length b'\<rparr>"
      using False by (auto simp: capture_write_def Let_def b'_def)
    have "capture_string (capture_write c b) = capture_string c @ b'"
      using copy_at_take [OF b'(1)] by (simp add: w capture_string_take)
    also have "\<dots> = take max_capture_size (capture_string c @ b)"
      using len False by (simp add: b'_def)
    finally show ?thesis
      using assms b' False by (simp add: w capture_ok_def)
  qed
  then show "capture_ok (capture_write c b)"
    "capture_string (capture_write c b) = take max_capture_size (capture_string c @ b)" by simp_all
qed

lemma take_append_take: "take n (take n xs @ ys) = take n (xs @ ys)"
  by (simp add: min_def)

text \<open>The contract of a bounded sink, shared by the capture buffer and the response capturer.\<close>

locale bounded_sink =
  fixes sink_write :: "'s \<Rightarrow> string \<Rightarrow> 's"
    and sink_text :: "'s \<Rightarrow> string"
    and sink_ok :: "'s \<Rightarrow> bool"
    and bound :: nat
  assumes sink_ok_write: "sink_ok s \<Longrightarrow> sink_ok (sink_write s b)"
    and sink_text_write: "sink_ok s \<Longrightarrow> sink_text (sink_write s b) = take bound (sink_text s @ b)"
begin

lemma sink_ok_fold: "sink_ok s \<Longrightarrow> sink_ok (foldl sink_write s bs)"
  by (induction bs arbitrary: s) (simp_all add: sink_ok_write)

lemma sink_text_fold:
  "sink_ok s \<Longrightarrow> length (sink_text s) \<le> bound \<Longrightarrow>
     sink_text (foldl sink_write s bs) = take bound (sink_text s @ concat bs)"
proof (induction bs arbitrary: s)
  case (Cons b bs)
  have "sink_text (foldl sink_write s (b # bs)) = take bound (take bound (sink_text s @ b) @ concat bs)"
    using Cons by (simp add: sink_ok_write sink_text_write)
  also have "\<dots> = take bound (sink_text s @ concat (b # bs))"
    by (simp only: take_append_take append_assoc concat.simps)
  finally show ?case .
qed simp

end

interpretation capture: bounded_sink capture_write capture_string capture_ok max_capture_size
  by unfold_locales (simp_all add: capture_write_step)

section \<open>The request body sniffer\<close>

text \<open>
  One \<open>Read\<close>: the wrapped reader delivered \<open>data\<close> and \<open>err\<close>; the caller gets both unchanged.
  \<open>None\<close> is a nil capture.
\<close>

definition sniffer_read ::
  "capture_buffer option \<Rightarrow> string \<times> string option \<Rightarrow> (string \<times> string option) \<times> capture_buffer option" where
  "sniffer_read cap res =
     (let (data, err) = res
      in (res, case cap of
                 Some c \<Rightarrow> if 0 < length data then Some (capture_write c data) else Some c
               | None \<Rightarrow> None))"

fun sniffer_reads ::
  "capture_buffer option \<Rightarrow> (string \<times> string option) list \<Rightarrow> (string \<times> string option) list \<times> capture_buffer option" where
  "sniffer_reads cap [] = ([], cap)"
| "sniffer_reads cap (r # rs) =
     (let (out, cap) = sniffer_read cap r; (outs, cap) = sniffer_reads cap rs in (out # outs, cap))"

text \<open>\<open>Close\<close> passes to the wrapped reader; a nil reader closes without error.\<close>

definition sniffer_close :: "(unit \<Rightarrow> string option) option \<Rightarrow> string option" where
  "sniffer_close reader = (case reader of Some close \<Rightarrow> close () | None \<Rightarrow> None)"

lemma capture_write_Nil: "capture_ok c \<Longrightarrow> capture_string (capture_write c []) = capture_string c"
  using capture_write_step(2) [of c "[]"] by (auto simp: capture_string_take capture_ok_def)

lemma sniffer_reads_fold:
  "sniffer_reads (Some c) rs = (rs, Some (foldl capture_write c (filter (\<lambda>d. d \<noteq> []) (map fst rs))))"
  by (induction rs arbitrary: c) (auto simp: sniffer_read_def Let_def split: prod.split)

section \<open>The response capturer\<close>

text \<open>
  The wrapped response writer: the calls it received, whether it can flush and hijack, and what
  its \<open>Write\<close> returns.
\<close>

datatype writer_call = HeaderCall int | WriteCall string | FlushCall

record response_writer =
  rw_calls :: "writer_call list"
  rw_flusher :: bool
  rw_hijacker :: bool
  rw_result :: "string \<Rightarrow> nat \<times> string option"

record response_capturer =
  rc_writer :: response_writer
  rc_status_code :: int
  rc_body_buf :: string
  rc_body_len :: nat
  rc_wrote_head :: bool

definition writer_call :: "response_writer \<Rightarrow> writer_call \<Rightarrow> response_writer" where
  "writer_call w c = w\<lparr>rw_calls := rw_calls w @ [c]\<rparr>"

definition capturer_reset :: "response_capturer \<Rightarrow> response_writer \<Rightarrow> response_capturer" where
  "capturer_reset r w =
     r\<lparr>rc_writer := w, rc_status_code := 200, rc_body_len := 0, rc_wrote_head := False\<rparr>"

definition capturer_string :: "response_capturer \<Rightarrow> string" where
  "capturer_string r = (if rc_body_len r = 0 then [] else take (rc_body_len r) (rc_body_buf r))"

definition capturer_write_header :: "response_capturer \<Rightarrow> int \<Rightarrow> response_capturer" where
  "capturer_write_header r code =
     (if \<not> rc_wrote_head r
      then r\<lparr>rc_status_code := code, rc_wrote_head := True,
             rc_writer := writer_call (rc_writer r) (HeaderCall code)\<rparr>
      else r)"

definition capturer_flush :: "response_capturer \<Rightarrow> response_capturer" where
  "capturer_flush r =
     (if rw_flusher (rc_writer r) then r\<lparr>rc_writer := writer_call (rc_writer r) FlushCall\<rparr> else r)"

definition capturer_write :: "response_capturer \<Rightarrow> string \<Rightarrow> (nat \<times> string option) \<times> response_capturer" where
  "capturer_write r b =
     (let r = (if \<not> rc_wrote_head r then capturer_write_header r 200 else r);
          r = (if rc_body_len r < max_capture_size
               then let can_write = max_capture_size - rc_body_len r
                    in if length b \<le> can_write
                       then r\<lparr>rc_body_buf := copy_at (rc_body_buf r) (rc_body_len r) b,
                              rc_body_len := rc_body_len r + length b\<rparr>
                       else r\<lparr>rc_body_buf := copy_at (rc_body_buf r) (rc_body_len r) (take can_write b),
                              rc_body_len := rc_body_len r + can_write\<rparr>
               else r);
          res = rw_result (rc_writer r) b;
          r = r\<lparr>rc_writer := writer_call (rc_writer r) (WriteCall b)\<rparr>
      in (res, capturer_flush r))"

text \<open>\<open>Hijack\<close>: \<open>conn\<close> is what the wrapped writer's \<open>Hijack\<close> returns.\<close>

definition capturer_hijack :: "response_capturer \<Rightarrow> string + 'c \<Rightarrow> string + 'c" where
  "capturer_hijack r conn =
     (if rw_hijacker (rc_writer r) then conn
      else Inl ''underlying ResponseWriter does not support http.Hijacker'')"

definition capturer_unwrap :: "response_capturer \<Rightarrow> response_writer" where
  "capturer_unwrap r = rc_writer r"

text \<open>The capture part of a response capturer is a capture buffer.\<close>

definition body_of :: "response_capturer \<Rightarrow> capture_buffer" where
  "body_of r = \<lparr>cb_data = rc_body_buf r, cb_len = rc_body_len r\<rparr>"

lemma capturer_string_body: "capturer_string r = capture_string (body_of r)"
  by (simp add: capturer_string_def capture_string_def body_of_def)

lemma body_of_write_header [simp]: "body_of (capturer_write_header r code) = body_of r"
  by (simp add: body_of_def capturer_write_header_def)

lemma body_of_flush [simp]: "body_of (capturer_flush r) = body_of r"
  by (simp add: body_of_def capturer_flush_def)

lemma body_of_write: "body_of (snd (capturer_write r b)) = capture_write (body_of r) b"
proof -
  define r1 where "r1 = (if \<not> rc_wrote_head r then capturer_write_header r 200 else r)"
  have "body_of r1 = body_of r" by (simp add: r1_def)
  then have "rc_body_buf r1 = rc_body_buf r" "rc_body_len r1 = rc_body_len r"
    by (simp_all add: body_of_def)
  then show ?thesis
    unfolding capturer_write_def r1_def [symmetric] Let_def snd_conv body_of_flush
    by (auto simp: body_of_def capture_write_def Let_def)
qed

definition capturer_ok :: "response_capturer \<Rightarrow> bool" where
  "capturer_ok r \<longleftrightarrow> capture_ok (body_of r)"

interpretation response: bounded_sink "\<lambda>r b. snd (capturer_write r b)" capturer_string capturer_ok max_capture_size
  by unfold_locales (simp_all add: capturer_ok_def capturer_string_body body_of_write capture_write_step)

section \<open>Sequences of calls on a response capturer\<close>

datatype capturer_op = DoHeader int | DoWrite string | DoFlush

fun capturer_step :: "response_capturer \<Rightarrow> capturer_op \<Rightarrow> response_capturer" where
  "capturer_step r (DoHeader code) = capturer_write_header r code"
| "capturer_step r (DoWrite b) = snd (capturer_write r b)"
| "capturer_step r DoFlush = capturer_flush r"

fun written :: "capturer_op list \<Rightarrow> string list" where
  "written [] = []"
| "written (DoWrite b # ops) = b # written ops"
| "written (op # ops) = written ops"

text \<open>The status code a client of the interface asked for first; 200 when it never did.\<close>

fun first_status :: "capturer_op list \<Rightarrow> int" where
  "first_status [] = 200"
| "first_status (DoHeader code # ops) = code"
| "first_status (DoWrite b # ops) = 200"
| "first_status (DoFlush # ops) = first_status ops"

fun header_calls :: "writer_call list \<Rightarrow> int list" where
  "header_calls [] = []"
| "header_calls (HeaderCall code # cs) = code # header_calls cs"
| "header_calls (c # cs) = header_calls cs"

fun write_calls :: "writer_call list \<Rightarrow> string list" where
  "write_calls [] = []"
| "write_calls (WriteCall b # cs) = b # write_calls cs"
| "write_calls (c # cs) = write_calls cs"

lemma header_calls_append [simp]: "header_calls (xs @ ys) = header_calls xs @ header_calls ys"
  by (induction xs rule: header_calls.induct) auto

lemma write_calls_append [simp]: "write_calls (xs @ ys) = write_calls xs @ write_calls ys"
  by (induction xs rule: write_calls.induct) auto

abbreviation out_calls :: "response_capturer \<Rightarrow> writer_call list" where
  "out_calls r \<equiv> rw_calls (rc_writer r)"

lemma capturer_step_body:
  "body_of (capturer_step r op) = foldl capture_write (body_of r) (written [op])"
  by (cases op) (simp_all add: body_of_write)

lemma capturer_step_calls:
  "write_calls (out_calls (capturer_step r op)) = write_calls (out_calls r) @ written [op]"
  "header_calls (out_calls (capturer_step r op)) = header_calls (out_calls r)
     @ (if rc_wrote_head r \<or> op = DoFlush then [] else [first_status [op]])"
  "rc_wrote_head (capturer_step r op) = (rc_wrote_head r \<or> op \<noteq> DoFlush)"
  "rc_status_code (capturer_step r op) =
     (if rc_wrote_head r \<or> op = DoFlush then rc_status_code r else first_status [op])"
  by (cases op; auto simp: capturer_write_header_def capturer_flush_def capturer_write_def writer_call_def
      Let_def)+

lemma capturer_run:
  "body_of (foldl capturer_step r ops) = foldl capture_write (body_of r) (written ops)
   \<and> write_calls (out_calls (foldl capturer_step r ops)) = write_calls (out_calls r) @ written ops
   \<and> (rc_wrote_head r \<longrightarrow> header_calls (out_calls (foldl capturer_step r ops)) = header_calls (out_calls r)
        \<and> rc_status_code (foldl capturer_step r ops) = rc_status_code r)
   \<and> (\<not> rc_wrote_head r \<longrightarrow> header_calls (out_calls (foldl capturer_step r ops)) = header_calls (out_calls r)
          @ (if list_all (\<lambda>op. op = DoFlush) ops then [] else [first_status ops])
        \<and> rc_status_code (foldl capturer_step r ops) =
            (if list_all (\<lambda>op. op = DoFlush) ops then rc_status_code r else first_status ops))"
proof (induction ops arbitrary: r)
  case Nil
  then show ?case by simp
next
  case (Cons op ops)
  have "written (op # ops) = written [op] @ written ops"
    by (cases op) simp_all
  moreover have "op \<noteq> DoFlush \<Longrightarrow> first_status (op # ops) = first_status [op]"
    by (cases op) simp_all
  ultimately show ?case
    using Cons [of "capturer_step r op"]
    using capturer_step_calls [of r DoFlush]
    by (cases "op = DoFlush") (simp_all add: capturer_step_body capturer_step_calls)
qed

section \<open>Properties\<close>

text \<open>
  reading a body through the sniffer delivers to the proxy exactly what the reader delivered,
  errors included, and records its first 64 KB, whatever an earlier request left in the pooled
  buffer.
\<close>

theorem sniffer_transparent_and_bounded:
  assumes "capture_ok pooled"
  shows "\<exists>c. sniffer_reads (Some (capture_reset pooled)) rs = (rs, Some c) \<and> capture_ok c
    \<and> capture_string c = take (64 * 1024) (concat (map fst rs))"
proof -
  let ?c = "capture_reset pooled" and ?ds = "filter (\<lambda>d. d \<noteq> []) (map fst rs)"
  have ok: "capture_ok ?c" using assms by (rule capture_ok_reset)
  have empty: "capture_string ?c = []" by (simp add: capture_string_take capture_reset_def)
  have "concat ?ds = concat (map fst rs)"
    by (induction rs) auto
  then have "capture_string (foldl capture_write ?c ?ds) = take max_capture_size (concat (map fst rs))"
    using capture.sink_text_fold [OF ok, of ?ds] empty by simp
  with capture.sink_ok_fold [OF ok] show ?thesis
    by (simp add: sniffer_reads_fold max_capture_size_def)
qed

theorem sniffer_transparent_and_bounded_witness:
  "\<exists>c. sniffer_reads (Some (capture_reset new_capture_buffer)) [(''ab'', None), ([], None), (''c'', Some ''EOF'')]
      = ([(''ab'', None), ([], None), (''c'', Some ''EOF'')], Some c)
     \<and> capture_string c = ''abc''"
  using sniffer_transparent_and_bounded [OF capture_ok_new, of "[(''ab'', None), ([], None), (''c'', Some ''EOF'')]"]
  by auto

text \<open>
  C24: whatever calls a handler makes on a recycled response capturer, the client's writer receives
  every body byte in order and at most one status code; the recorded status is that code, and the
  recorded body is the first 64 KB.
\<close>

theorem capturer_forwards_and_records:
  fixes ops :: "capturer_op list"
  assumes "capturer_ok pooled" "rw_calls w = []"
  defines "r \<equiv> foldl capturer_step (capturer_reset pooled w) ops"
  shows "concat (write_calls (out_calls r)) = concat (written ops)
    \<and> capturer_string r = take (64 * 1024) (concat (written ops))
    \<and> header_calls (out_calls r) = (if list_all (\<lambda>op. op = DoFlush) ops then [] else [rc_status_code r])
    \<and> rc_status_code r = first_status ops"
proof -
  let ?r0 = "capturer_reset pooled w"
  have r0: "\<not> rc_wrote_head ?r0" "out_calls ?r0 = []" "rc_status_code ?r0 = 200"
    using assms(2) by (simp_all add: capturer_reset_def)
  have ok: "capture_ok (body_of ?r0)" and empty: "capture_string (body_of ?r0) = []"
    using assms(1) by (simp_all add: capturer_ok_def body_of_def capturer_reset_def capture_ok_def capture_string_take)
  have flush: "first_status ops = 200" if "list_all (\<lambda>op. op = DoFlush) ops"
    using that by (induction ops) auto
  note run = capturer_run [of ?r0 ops]
  have "capturer_string r = take max_capture_size (concat (written ops))"
    using run capture.sink_text_fold [OF ok, of "written ops"] empty
    by (simp add: capturer_string_body r_def)
  then show ?thesis
    using run r0 flush by (auto simp: r_def max_capture_size_def)
qed

definition sample_writer :: response_writer where
  "sample_writer = \<lparr>rw_calls = [], rw_flusher = True, rw_hijacker = True, rw_result = (\<lambda>b. (length b, None))\<rparr>"

definition new_capturer :: response_capturer where
  "new_capturer = \<lparr>rc_writer = sample_writer, rc_status_code = 0,
     rc_body_buf = replicate max_capture_size (char_of (0 :: nat)), rc_body_len = 0, rc_wrote_head = False\<rparr>"

lemma capturer_ok_new: "capturer_ok new_capturer"
  by (simp add: capturer_ok_def new_capturer_def body_of_def capture_ok_def)

theorem capturer_forwards_and_records_witness:
  "capturer_string (foldl capturer_step (capturer_reset new_capturer sample_writer)
     [DoHeader 404, DoWrite ''no'', DoHeader 500, DoWrite ''pe'']) = ''nope''
   \<and> rc_status_code (foldl capturer_step (capturer_reset new_capturer sample_writer)
     [DoHeader 404, DoWrite ''no'', DoHeader 500, DoWrite ''pe'']) = 404"
proof -
  have "rw_calls sample_writer = []" by (simp add: sample_writer_def)
  from capturer_forwards_and_records [OF capturer_ok_new this, of
      "[DoHeader 404, DoWrite ''no'', DoHeader 500, DoWrite ''pe'']"]
  show ?thesis by simp
qed

text \<open>
  once an informational status such as 103 was written, which Go's reverse proxy forwards through
  the same method, the final status of the upstream is neither sent nor recorded.
\<close>

theorem informational_status_hides_final:
  assumes "capturer_ok pooled" "rw_calls w = []" "100 \<le> code" "code < 200"
  shows "rc_status_code (foldl capturer_step (capturer_reset pooled w) (DoHeader code # DoHeader final # ops)) = code
    \<and> header_calls (out_calls (foldl capturer_step (capturer_reset pooled w) (DoHeader code # DoHeader final # ops)))
      = [code]"
proof -
  have "\<not> rc_wrote_head (capturer_reset pooled w)" "out_calls (capturer_reset pooled w) = []"
    using assms(2) by (simp_all add: capturer_reset_def)
  then show ?thesis
    using capturer_run [of "capturer_reset pooled w" "DoHeader code # DoHeader final # ops"] by simp
qed

theorem informational_status_hides_final_witness:
  "rc_status_code (foldl capturer_step (capturer_reset new_capturer sample_writer) [DoHeader 103, DoHeader 500]) = 103"
proof -
  have "rw_calls sample_writer = []" by (simp add: sample_writer_def)
  from informational_status_hides_final [OF capturer_ok_new this, of 103 500 "[]"] show ?thesis
    by (simp only: conjunct1)
qed

end
