(* ===== verification/Net_Ip.thy ===== *)
theory Net_Ip
  imports Net_Address "HOL-Library.Char_ord"
begin

text \<open>
  The parts of Go's \<open>net/netip\<close> and of \<open>path/filepath\<close> that src/pkg/proxy/security.go is built on:
  addresses with their zones, \<open>ParseAddr\<close>, \<open>String\<close>, \<open>Unmap\<close>, \<open>AddrFromSlice\<close>, prefixes with
  \<open>Contains\<close>, and glob patterns. They follow the standard library's code branch by branch, because
  the policy's guarantees depend on its corner cases (zones, IPv4-mapped addresses, host bits).
\<close>

section \<open>Addresses\<close>

type_synonym ip4 = "32 word"
type_synonym ip6 = "128 word"

text \<open>A valid \<open>netip.Addr\<close>; the zero value \<open>Addr{}\<close> is \<open>None\<close> where it can occur.\<close>

datatype ip_addr = V4 ip4 | V6 ip6 string

fun addr_zone :: "ip_addr \<Rightarrow> string" where
  "addr_zone (V4 a) = []"
| "addr_zone (V6 a z) = z"

fun is_4in6 :: "ip_addr \<Rightarrow> bool" where
  "is_4in6 (V4 a) = False"
| "is_4in6 (V6 a z) = (drop_bit 32 a = 0xffff)"

fun unmap :: "ip_addr \<Rightarrow> ip_addr" where
  "unmap (V4 a) = V4 a"
| "unmap (V6 a z) = (if drop_bit 32 a = 0xffff then V4 (ucast a) else V6 a z)"

fun is_loopback :: "ip_addr \<Rightarrow> bool" where
  "is_loopback (V4 a) = (drop_bit 24 a = 127)"
| "is_loopback (V6 a z) =
     (if drop_bit 32 a = 0xffff then drop_bit 24 (ucast a :: ip4) = 127 else a = 1)"

text \<open>Big-endian bytes to a word.\<close>

definition word_of_bytes :: "byte list \<Rightarrow> 'a::len word" where
  "word_of_bytes bs = foldl (\<lambda>w b. push_bit 8 w OR ucast b) 0 bs"

definition addr_from_slice :: "byte list \<Rightarrow> ip_addr option" where
  "addr_from_slice bs =
     (if length bs = 4 then Some (V4 (word_of_bytes bs))
      else if length bs = 16 then Some (V6 (word_of_bytes bs) [])
      else None)"

section \<open>Parsing\<close>

definition is_digit :: "char \<Rightarrow> bool" where
  "is_digit c \<longleftrightarrow> 48 \<le> (of_char c :: nat) \<and> of_char c \<le> (57 :: nat)"

definition parse_octet :: "string \<Rightarrow> nat option" where
  "parse_octet s =
     (if s = [] \<or> \<not> list_all is_digit s \<or> (1 < length s \<and> hd s = CHR ''0'') then None
      else let v = foldl (\<lambda>v c. v * 10 + (of_char c - 48)) 0 s in if 255 < v then None else Some v)"

definition parse_ipv4_fields :: "string \<Rightarrow> byte list option" where
  "parse_ipv4_fields s =
     (let fs = map parse_octet (split_on CHR ''.'' s)
      in if length fs = 4 \<and> None \<notin> set fs then Some (map (\<lambda>f. of_nat (the f)) fs) else None)"

definition hex_value :: "char \<Rightarrow> int option" where
  "hex_value c =
     (if CHR ''0'' \<le> c \<and> c \<le> CHR ''9'' then Some (of_char c - 48)
      else if CHR ''a'' \<le> c \<and> c \<le> CHR ''f'' then Some (of_char c - 87)
      else if CHR ''A'' \<le> c \<and> c \<le> CHR ''F'' then Some (of_char c - 55) else None)"

definition hex_run :: "string \<Rightarrow> string" where
  "hex_run s = takeWhile (\<lambda>c. hex_value c \<noteq> None) s"

text \<open>
  The group loop of \<open>parseIPv6\<close> on the bytes so far, the position of the ellipsis and the rest of the
  text. One round either ends the loop, with a result or an error, or continues.
\<close>

type_synonym group_state = "byte list \<times> nat option \<times> string"

definition hex_number :: "string \<Rightarrow> int" where
  "hex_number h = foldl (\<lambda>v c. v * 16 + the (hex_value c)) 0 h"

definition after_group :: "byte list \<Rightarrow> nat option \<Rightarrow> string \<Rightarrow> group_state option + group_state" where
  "after_group bs ell rest =
     (if rest = [] then Inl (Some (bs, ell, []))
      else if hd rest \<noteq> CHR '':'' \<or> length rest = 1 then Inl None
      else if hd (tl rest) = CHR '':''
      then (if ell \<noteq> None then Inl None
            else if tl (tl rest) = [] then Inl (Some (bs, Some (length bs), []))
            else Inr (bs, Some (length bs), tl (tl rest)))
      else Inr (bs, ell, tl rest))"

definition group_step :: "group_state \<Rightarrow> group_state option + group_state" where
  "group_step st =
     (case st of (bs, ell, s) \<Rightarrow>
        (case (hex_run s, drop (length (hex_run s)) s) of (h, rest) \<Rightarrow>
           if h = [] \<or> 4 < length h then Inl None
           else if rest \<noteq> [] \<and> hd rest = CHR ''.''
           then (if (ell = None \<and> length bs \<noteq> 12) \<or> 12 < length bs then Inl None
                 else case parse_ipv4_fields s of
                        None \<Rightarrow> Inl None
                      | Some f \<Rightarrow> Inl (Some (bs @ f, ell, [])))
           else after_group (bs @ [of_int (hex_number h div 256), of_int (hex_number h mod 256)]) ell rest))"

text \<open>\<open>n\<close> is the number of two-byte groups that still fit.\<close>

fun parse_groups :: "nat \<Rightarrow> group_state \<Rightarrow> group_state option" where
  "parse_groups 0 st = Some st"
| "parse_groups (Suc n) st =
     (case group_step st of Inl r \<Rightarrow> r | Inr st' \<Rightarrow> parse_groups n st')"

definition expand_groups :: "group_state \<Rightarrow> byte list option" where
  "expand_groups r =
     (let (bs, ell, rest) = r
      in if rest \<noteq> [] then None
         else if length bs < 16
         then (case ell of None \<Rightarrow> None
               | Some e \<Rightarrow> Some (take e bs @ replicate (16 - length bs) 0 @ drop e bs))
         else if ell \<noteq> None then None else Some bs)"

definition parse_ipv6 :: "string \<Rightarrow> ip_addr option" where
  "parse_ipv6 inp =
     (let (s, zone, bad) =
            (case index_byte inp CHR ''%'' of
               None \<Rightarrow> (inp, [], False)
             | Some i \<Rightarrow> (take i inp, drop (i + 1) inp, drop (i + 1) inp = []))
      in if bad then None
         else let lead = has_prefix s ''::'';
                  ell = (if lead then Some 0 else None);
                  s = (if lead then drop 2 s else s)
              in if lead \<and> s = [] then Some (V6 0 zone)
                 else case parse_groups 8 ([], ell, s) of
                        None \<Rightarrow> None
                      | Some r \<Rightarrow> (case expand_groups r of
                                    None \<Rightarrow> None
                                  | Some bs \<Rightarrow> Some (V6 (word_of_bytes bs) zone)))"

definition parse_addr :: "string \<Rightarrow> ip_addr option" where
  "parse_addr s =
     (case find (\<lambda>c. c = CHR ''.'' \<or> c = CHR '':'' \<or> c = CHR ''%'') s of
        None \<Rightarrow> None
      | Some c \<Rightarrow>
          if c = CHR ''.'' then map_option (\<lambda>bs. V4 (word_of_bytes bs)) (parse_ipv4_fields s)
          else if c = CHR '':'' then parse_ipv6 s
          else None)"

section \<open>Printing\<close>

definition ipv4_string :: "ip4 \<Rightarrow> string" where
  "ipv4_string a =
     dec_of_nat (unat (drop_bit 24 a AND 255)) @ ''.'' @ dec_of_nat (unat (drop_bit 16 a AND 255)) @ ''.''
     @ dec_of_nat (unat (drop_bit 8 a AND 255)) @ ''.'' @ dec_of_nat (unat (a AND 255))"

text \<open>A group in hexadecimal without leading zeros.\<close>

definition hex_group :: "int \<Rightarrow> string" where
  "hex_group g =
     (let ds = map (\<lambda>k. hex_digit (nat (g div k mod 16))) [4096, 256, 16]
      in dropWhile (\<lambda>c. c = CHR ''0'') ds @ [hex_digit (nat (g mod 16))])"

definition groups_of :: "ip6 \<Rightarrow> int list" where
  "groups_of a = map (\<lambda>i. uint (drop_bit (112 - 16 * i) a AND 0xffff)) [0..<8]"

text \<open>The first of the longest runs of at least two zero groups.\<close>

definition zero_run :: "int list \<Rightarrow> nat \<times> nat" where
  "zero_run gs =
     foldl (\<lambda>(s, e) i.
        (let j = i + length (takeWhile (\<lambda>g. g = 0) (drop i gs))
         in if 2 \<le> j - i \<and> e - s < j - i then (i, j) else (s, e))) (255, 255) [0..<8]"

fun print_groups :: "nat \<Rightarrow> int list \<Rightarrow> nat \<times> nat \<Rightarrow> nat \<Rightarrow> string" where
  "print_groups 0 gs z i = []"
| "print_groups (Suc n) gs z i =
     (if 8 \<le> i then []
      else if i = fst z
      then ''::'' @ (if 8 \<le> snd z then []
                     else hex_group (gs ! snd z) @ print_groups n gs z (snd z + 1))
      else (if 0 < i then '':'' else []) @ hex_group (gs ! i) @ print_groups n gs z (i + 1))"

fun addr_string :: "ip_addr \<Rightarrow> string" where
  "addr_string (V4 a) = ipv4_string a"
| "addr_string (V6 a z) =
     (if drop_bit 32 a = 0xffff then ''::ffff:'' @ ipv4_string (ucast a)
      else print_groups 9 (groups_of a) (zero_run (groups_of a)) 0)
     @ (if z = [] then [] else ''%'' @ z)"

section \<open>Prefixes\<close>

text \<open>A \<open>netip.Prefix\<close>: its address has no zone.\<close>

datatype cidr = Cidr4 ip4 nat | Cidr6 ip6 nat

fun cidr_contains :: "cidr \<Rightarrow> ip_addr \<Rightarrow> bool" where
  "cidr_contains (Cidr4 p n) (V4 a) = (n \<le> 32 \<and> drop_bit (32 - n) (a XOR p) = 0)"
| "cidr_contains (Cidr6 p n) (V6 a z) = (z = [] \<and> n \<le> 128 \<and> drop_bit (128 - n) (a XOR p) = 0)"
| "cidr_contains _ _ = False"

lemma word_xor_eq_0: "x XOR y = 0 \<longleftrightarrow> x = (y :: 'a::len word)"
  by (auto simp: bit_eq_iff bit_simps)

lemma drop_bit_xor_eq_0:
  "drop_bit k (a XOR b) = 0 \<longleftrightarrow> drop_bit k a = drop_bit k (b :: 'a::len word)"
  by (simp only: drop_bit_xor word_xor_eq_0)

lemma cidr_contains_V4 [simp]:
  "cidr_contains (Cidr4 p n) (V4 a) \<longleftrightarrow> n \<le> 32 \<and> drop_bit (32 - n) a = drop_bit (32 - n) p"
  by (simp only: cidr_contains.simps drop_bit_xor_eq_0)

lemma cidr_contains_V6 [simp]:
  "cidr_contains (Cidr6 p n) (V6 a z) \<longleftrightarrow> z = [] \<and> n \<le> 128 \<and> drop_bit (128 - n) a = drop_bit (128 - n) p"
  by (simp only: cidr_contains.simps drop_bit_xor_eq_0)

declare cidr_contains.simps(1,2) [simp del]

lemma cidr_zoned: "cidr_contains c (V6 a z) \<Longrightarrow> z = []"
  by (cases c) simp_all

lemma unmap_not_4in6 [simp]: "\<not> is_4in6 (unmap a)"
  by (cases a) simp_all

lemma addr_from_slice_zone: "addr_from_slice bs = Some a \<Longrightarrow> addr_zone (unmap a) = []"
  by (auto simp: addr_from_slice_def split: if_splits)

text \<open>\<open>netip.ParsePrefix\<close>: no zone, and a decimal bit count without leading zeros.\<close>

definition parse_prefix :: "string \<Rightarrow> cidr option" where
  "parse_prefix s =
     (case last_index_byte s CHR ''/'' of
        None \<Rightarrow> None
      | Some i \<Rightarrow>
          (let bits = drop (i + 1) s; n = foldl (\<lambda>v c. v * 10 + (of_char c - 48)) 0 bits
           in if bits = [] \<or> \<not> list_all is_digit bits \<or> (1 < length bits \<and> hd bits = CHR ''0'') then None
              else (case parse_addr (take i s) of
                      None \<Rightarrow> None
                    | Some (V4 a) \<Rightarrow> if n \<le> 32 then Some (Cidr4 a n) else None
                    | Some (V6 a z) \<Rightarrow> if z = [] \<and> n \<le> 128 then Some (Cidr6 a n) else None)))"

section \<open>Glob patterns\<close>

text \<open>
  \<open>filepath.Match\<close> on Unix, for a name without a separator (a host has none). A malformed pattern
  never matches.
\<close>

datatype glob_token = GStar | GAny | GLit char | GClass bool "(char \<times> char) list"

text \<open>\<open>getEsc\<close>: one possibly escaped character of a class, which something must follow.\<close>

fun get_esc :: "string \<Rightarrow> (char \<times> string) option" where
  "get_esc [] = None"
| "get_esc (c # cs) =
     (if c = CHR ''-'' \<or> c = CHR '']'' then None
      else if c = CHR 0x5C then (case cs of d # ds \<Rightarrow> if ds = [] then None else Some (d, ds) | [] \<Rightarrow> None)
      else if cs = [] then None else Some (c, cs))"

lemma get_esc_length: "get_esc s = Some (c, t) \<Longrightarrow> length t < length s"
  by (cases s) (auto split: if_splits list.splits)

function parse_class :: "(char \<times> char) list \<Rightarrow> string \<Rightarrow> ((char \<times> char) list \<times> string) option" where
  "parse_class rs s =
     (if s \<noteq> [] \<and> hd s = CHR '']'' \<and> rs \<noteq> [] then Some (rs, tl s)
      else case get_esc s of
             None \<Rightarrow> None
           | Some (lo, t) \<Rightarrow>
               if t \<noteq> [] \<and> hd t = CHR ''-''
               then (case get_esc (tl t) of None \<Rightarrow> None
                     | Some (hi, t') \<Rightarrow> parse_class (rs @ [(lo, hi)]) t')
               else parse_class (rs @ [(lo, lo)]) t)"
  by pat_completeness auto
termination
  by (relation "measure (\<lambda>(rs, s). length s)") (auto dest!: get_esc_length)

declare parse_class.simps [simp del]

lemma parse_class_length: "parse_class rs s = Some (rs', t) \<Longrightarrow> length t \<le> length s"
proof (induction rs s rule: parse_class.induct)
  case (1 rs s)
  show ?case
  proof (cases "s \<noteq> [] \<and> hd s = CHR '']'' \<and> rs \<noteq> []")
    case True
    with "1.prems" show ?thesis by (subst (asm) parse_class.simps) auto
  next
    case no_end: False
    with "1.prems" obtain lo u where u: "get_esc s = Some (lo, u)"
      by (subst (asm) parse_class.simps) (auto split: option.splits)
    show ?thesis
    proof (cases "u \<noteq> [] \<and> hd u = CHR ''-''")
      case True
      with "1.prems" no_end u obtain hi v where v: "get_esc (tl u) = Some (hi, v)"
        "parse_class (rs @ [(lo, hi)]) v = Some (rs', t)"
        by (subst (asm) parse_class.simps) (auto split: option.splits)
      from "1.IH"(1) [OF no_end u refl True v(1) refl v(2)] get_esc_length [OF u] get_esc_length [OF v(1)]
      show ?thesis by simp
    next
      case False
      with "1.prems" no_end u have "parse_class (rs @ [(lo, lo)]) u = Some (rs', t)"
        by (subst (asm) parse_class.simps) (simp del: not_None_eq)
      from "1.IH"(2) [OF no_end u refl False this] get_esc_length [OF u] show ?thesis by simp
    qed
  qed
qed

function parse_glob :: "string \<Rightarrow> glob_token list option" where
  "parse_glob [] = Some []"
| "parse_glob (c # cs) =
     (if c = CHR ''*'' then map_option ((#) GStar) (parse_glob cs)
      else if c = CHR ''?'' then map_option ((#) GAny) (parse_glob cs)
      else if c = CHR ''[''
      then (let neg = (cs \<noteq> [] \<and> hd cs = CHR ''^''); body = (if neg then tl cs else cs)
            in case parse_class [] body of
                 None \<Rightarrow> None
               | Some (rs, t) \<Rightarrow> map_option ((#) (GClass neg rs)) (parse_glob t))
      else if c = CHR 0x5C
      then (case cs of [] \<Rightarrow> None | d # ds \<Rightarrow> map_option ((#) (GLit d)) (parse_glob ds))
      else map_option ((#) (GLit c)) (parse_glob cs))"
  by pat_completeness auto
termination
  by (relation "measure length") (auto dest!: parse_class_length split: if_splits)

declare parse_glob.simps [simp del]

definition in_ranges :: "(char \<times> char) list \<Rightarrow> char \<Rightarrow> bool" where
  "in_ranges rs c \<longleftrightarrow>
     list_ex (\<lambda>(lo, hi). (of_char lo :: nat) \<le> of_char c \<and> (of_char c :: nat) \<le> of_char hi) rs"

fun glob_tokens :: "glob_token list \<Rightarrow> string \<Rightarrow> bool" where
  "glob_tokens [] s = (s = [])"
| "glob_tokens (GStar # ts) [] = glob_tokens ts []"
| "glob_tokens (GStar # ts) (c # s) =
     (glob_tokens ts (c # s) \<or> (c \<noteq> CHR ''/'' \<and> glob_tokens (GStar # ts) s))"
| "glob_tokens (GAny # ts) [] = False"
| "glob_tokens (GAny # ts) (c # s) = (c \<noteq> CHR ''/'' \<and> glob_tokens ts s)"
| "glob_tokens (GLit d # ts) [] = False"
| "glob_tokens (GLit d # ts) (c # s) = (c = d \<and> glob_tokens ts s)"
| "glob_tokens (GClass neg rs # ts) [] = False"
| "glob_tokens (GClass neg rs # ts) (c # s) = (in_ranges rs c \<noteq> neg \<and> glob_tokens ts s)"

definition glob_match :: "string \<Rightarrow> string \<Rightarrow> bool" where
  "glob_match pat name = (case parse_glob pat of None \<Rightarrow> False | Some ts \<Rightarrow> glob_tokens ts name)"

lemma glob_star: "glob_tokens (GStar # ts) s \<longleftrightarrow>
    (\<exists>a b. s = a @ b \<and> CHR ''/'' \<notin> set a \<and> glob_tokens ts b)"
proof (induction s)
  case (Cons c s)
  have "(\<exists>a b. c # s = a @ b \<and> CHR ''/'' \<notin> set a \<and> glob_tokens ts b) \<longleftrightarrow>
      glob_tokens ts (c # s)
      \<or> c \<noteq> CHR ''/'' \<and> (\<exists>a b. s = a @ b \<and> CHR ''/'' \<notin> set a \<and> glob_tokens ts b)"
    (is "?l \<longleftrightarrow> ?r")
  proof
    assume ?l
    then obtain a b where ab: "c # s = a @ b" "CHR ''/'' \<notin> set a" "glob_tokens ts b" by blast
    then show ?r by (cases a) auto
  next
    assume ?r
    then show ?l
    proof
      assume "glob_tokens ts (c # s)"
      then show ?l by (intro exI [of _ "[]"] exI [of _ "c # s"]) simp
    next
      assume "c \<noteq> CHR ''/'' \<and> (\<exists>a b. s = a @ b \<and> CHR ''/'' \<notin> set a \<and> glob_tokens ts b)"
      then obtain a b where "c \<noteq> CHR ''/''" "s = a @ b" "CHR ''/'' \<notin> set a" "glob_tokens ts b" by blast
      then show ?l by (intro exI [of _ "c # a"] exI [of _ b]) auto
    qed
  qed
  with Cons.IH show ?case by (simp only: glob_tokens.simps)
qed simp

end
