(* ===== verification/Egress_Policy.thy ===== *)
theory Egress_Policy
  imports Net_Ip
begin

text \<open>
  The egress security policy of src/pkg/proxy/security.go: host allow-list, CIDR checks,
  \<open>ResolveAndValidate\<close> and the dial that goes to the validated address. DNS and the dialer are
  services outside the program and are parameters; so are Go's Unicode tables, which \<open>ToLower\<close> and
  \<open>%q\<close> consult for strings that are not plain ASCII. Errors are their texts, because the callers
  inspect them.
\<close>

section \<open>Policy\<close>

definition egress_mode_metadata :: string where
  "egress_mode_metadata = ''allow_all_except_metadata''"
definition egress_mode_private :: string where
  "egress_mode_private = ''allow_all_except_private''"
definition egress_mode_strict :: string where
  "egress_mode_strict = ''strict''"

lemma egress_modes [simp]:
  "egress_mode_private \<noteq> []" "egress_mode_strict \<noteq> []" "egress_mode_metadata \<noteq> []"
  "egress_mode_private \<noteq> egress_mode_strict" "egress_mode_metadata \<noteq> egress_mode_strict"
  "egress_mode_metadata \<noteq> egress_mode_private" "egress_mode_private \<noteq> egress_mode_metadata"
  by (simp_all add: egress_mode_metadata_def egress_mode_private_def egress_mode_strict_def)

definition cidr_ipv4_link_local :: cidr where "cidr_ipv4_link_local = Cidr4 0xA9FE0000 16"
definition cidr_ipv6_link_local :: cidr where "cidr_ipv6_link_local = Cidr6 0xFE800000000000000000000000000000 10"
definition cidr_ipv4_loopback :: cidr where "cidr_ipv4_loopback = Cidr4 0x7F000000 8"
definition cidr_ipv4_private1 :: cidr where "cidr_ipv4_private1 = Cidr4 0x0A000000 8"
definition cidr_ipv4_private2 :: cidr where "cidr_ipv4_private2 = Cidr4 0xAC100000 12"
definition cidr_ipv4_private3 :: cidr where "cidr_ipv4_private3 = Cidr4 0xC0A80000 16"
definition cidr_ipv6_loopback :: cidr where "cidr_ipv6_loopback = Cidr6 1 128"
definition cidr_ipv6_ula :: cidr where "cidr_ipv6_ula = Cidr6 0xFC000000000000000000000000000000 7"

lemmas cidr_defs = cidr_ipv4_link_local_def cidr_ipv6_link_local_def cidr_ipv4_loopback_def
  cidr_ipv4_private1_def cidr_ipv4_private2_def cidr_ipv4_private3_def cidr_ipv6_loopback_def
  cidr_ipv6_ula_def

text \<open>A lookup yields an error text or the addresses as byte slices.\<close>

type_synonym lookup = "string \<Rightarrow> string + byte list list"

record egress_policy =
  ep_mode :: string
  ep_block_metadata :: bool
  ep_allowed_hosts :: "string list"
  ep_denied_cidrs :: "cidr list"
  ep_resolver :: "lookup option"

definition new_egress_policy :: "string \<Rightarrow> bool \<Rightarrow> egress_policy" where
  "new_egress_policy mode block_metadata =
     \<lparr>ep_mode = (if mode = [] then egress_mode_metadata else mode),
      ep_block_metadata = block_metadata, ep_allowed_hosts = [], ep_denied_cidrs = [],
      ep_resolver = None\<rparr>"

text \<open>What the policy takes from its surroundings.\<close>

record egress_env =
  ee_lower :: "string \<Rightarrow> string"
  ee_quote :: "string \<Rightarrow> string"
  ee_resolver :: lookup

text \<open>\<open>%q\<close>: a plain ASCII string is put between quotes, any other one goes through \<open>strconv.Quote\<close>.\<close>

definition plain_char :: "char \<Rightarrow> bool" where
  "plain_char c \<longleftrightarrow> 32 \<le> (of_char c :: nat) \<and> of_char c < (127 :: nat) \<and> c \<noteq> CHR 0x22 \<and> c \<noteq> CHR 0x5C"

definition go_quote :: "egress_env \<Rightarrow> string \<Rightarrow> string" where
  "go_quote env s = (if list_all plain_char s then [CHR 0x22] @ s @ [CHR 0x22] else ee_quote env s)"

definition cidr_string :: "cidr \<Rightarrow> string" where
  "cidr_string c = (case c of
       Cidr4 p n \<Rightarrow> addr_string (V4 p) @ ''/'' @ dec_of_nat n
     | Cidr6 p n \<Rightarrow> addr_string (V6 p []) @ ''/'' @ dec_of_nat n)"

section \<open>Operations\<close>

definition is_host_allowed :: "egress_env \<Rightarrow> egress_policy \<Rightarrow> string \<Rightarrow> bool" where
  "is_host_allowed env p host =
     (let lower_host = to_lower (ee_lower env) host
      in list_ex (\<lambda>pat. let lower_pattern = to_lower (ee_lower env) pat
                        in lower_pattern = lower_host \<or> glob_match lower_pattern lower_host)
           (ep_allowed_hosts p))"

definition lookup_ip :: "egress_env \<Rightarrow> egress_policy \<Rightarrow> lookup" where
  "lookup_ip env p host =
     (case ep_resolver p of Some r \<Rightarrow> r host | None \<Rightarrow> ee_resolver env host)"

fun is4 :: "ip_addr \<Rightarrow> bool" where
  "is4 (V4 a) = True"
| "is4 (V6 a z) = False"

text \<open>\<open>validateIP\<close>: \<open>None\<close> accepts, \<open>Some\<close> is the error.\<close>

definition validate_ip :: "egress_policy \<Rightarrow> ip_addr \<Rightarrow> string option" where
  "validate_ip p addr =
     (if ep_block_metadata p \<and> is4 addr \<and> cidr_contains cidr_ipv4_link_local addr
      then Some (''link-local/cloud metadata IPv4 ('' @ addr_string addr @ '')'')
      else if ep_block_metadata p \<and> \<not> is4 addr \<and> cidr_contains cidr_ipv6_link_local addr
      then Some (''link-local IPv6 ('' @ addr_string addr @ '')'')
      else if ep_block_metadata p \<and> \<not> is4 addr \<and> addr_string addr = ''fd00:ec2::254''
      then Some ''AWS EC2 IPv6 metadata endpoint''
      else if ep_mode p = egress_mode_private
        \<and> (is_loopback addr \<or> cidr_contains cidr_ipv4_loopback addr \<or> cidr_contains cidr_ipv6_loopback addr)
      then Some (''loopback destination blocked in allow_all_except_private mode ('' @ addr_string addr @ '')'')
      else if ep_mode p = egress_mode_private \<and> is4 addr
        \<and> (cidr_contains cidr_ipv4_private1 addr \<or> cidr_contains cidr_ipv4_private2 addr
           \<or> cidr_contains cidr_ipv4_private3 addr)
      then Some (''RFC1918 private IPv4 blocked ('' @ addr_string addr @ '')'')
      else if ep_mode p = egress_mode_private \<and> \<not> is4 addr \<and> cidr_contains cidr_ipv6_ula addr
      then Some (''unique local IPv6 blocked ('' @ addr_string addr @ '')'')
      else case find (\<lambda>cidr. cidr_contains cidr addr) (ep_denied_cidrs p) of
             Some cidr \<Rightarrow> Some (''IP '' @ addr_string addr @ '' matches denied CIDR '' @ cidr_string cidr)
           | None \<Rightarrow> None)"

text \<open>The loop over the resolved records: the first valid one, or the error of the first forbidden one.\<close>

fun pick_valid ::
  "egress_env \<Rightarrow> egress_policy \<Rightarrow> string \<Rightarrow> ip_addr option \<Rightarrow> byte list list \<Rightarrow> string + ip_addr option" where
  "pick_valid env p target valid [] = Inr valid"
| "pick_valid env p target valid (ip # ips) =
     (case addr_from_slice ip of
        None \<Rightarrow> pick_valid env p target valid ips
      | Some addr \<Rightarrow>
          (case validate_ip p (unmap addr) of
             Some err \<Rightarrow> Inl (''egress destination '' @ go_quote env target
                 @ '' resolved to forbidden IP '' @ addr_string (unmap addr) @ '': '' @ err)
           | None \<Rightarrow> pick_valid env p target (if valid = None then Some (unmap addr) else valid) ips))"

text \<open>Step 2, the allow-list: an answer, or \<open>None\<close> to go on.\<close>

definition resolve_allowed ::
  "egress_env \<Rightarrow> egress_policy \<Rightarrow> string \<Rightarrow> string \<Rightarrow> (string + ip_addr \<times> string) option" where
  "resolve_allowed env p lower_host port =
     (if ep_allowed_hosts p \<noteq> [] \<and> is_host_allowed env p lower_host
      then (case parse_addr lower_host of
              Some addr \<Rightarrow> Some (Inr (unmap addr, port))
            | None \<Rightarrow>
                (case lookup_ip env p lower_host of
                   Inl err \<Rightarrow> Some (Inl (''failed to resolve allowed host '' @ go_quote env lower_host @ '': '' @ err))
                 | Inr ips \<Rightarrow>
                     (case List.map_filter addr_from_slice ips of
                        addr # _ \<Rightarrow> Some (Inr (unmap addr, port))
                      | [] \<Rightarrow> None)))
      else None)"

text \<open>Steps 3 and 4: an IP literal, or every resolved record.\<close>

definition resolve_checked ::
  "egress_env \<Rightarrow> egress_policy \<Rightarrow> string \<Rightarrow> string \<Rightarrow> string \<Rightarrow> string + ip_addr \<times> string" where
  "resolve_checked env p target lower_host port =
     (case parse_addr lower_host of
        Some addr \<Rightarrow>
          (case validate_ip p (unmap addr) of
             Some err \<Rightarrow> Inl (''egress destination '' @ go_quote env target @ '' blocked: '' @ err)
           | None \<Rightarrow> Inr (unmap addr, port))
      | None \<Rightarrow>
          (case lookup_ip env p lower_host of
             Inl err \<Rightarrow> Inl (''failed to resolve egress destination '' @ go_quote env target @ '': '' @ err)
           | Inr ips \<Rightarrow>
               if ips = [] then Inl (''no IP addresses resolved for egress destination '' @ go_quote env target)
               else (case pick_valid env p target None ips of
                       Inl err \<Rightarrow> Inl err
                     | Inr None \<Rightarrow> Inl (''no valid IP address found for egress destination '' @ go_quote env target)
                     | Inr (Some a) \<Rightarrow> Inr (a, port))))"

definition split_target :: "string \<Rightarrow> string \<times> string" where
  "split_target target =
     (case split_host_port target of Inr (host, port) \<Rightarrow> (host, port) | Inl _ \<Rightarrow> (target, ''80''))"

definition metadata_names :: "string list" where
  "metadata_names = [''metadata.google.internal'', ''instance-data'', ''169.254.169.254'', ''metadata'']"

definition resolve_and_validate ::
  "egress_env \<Rightarrow> egress_policy \<Rightarrow> string \<Rightarrow> string + ip_addr \<times> string" where
  "resolve_and_validate env p target =
     (let (host, port) = split_target target;
          lower_host = to_lower (ee_lower env) (trim_space host)
      in if (ep_block_metadata p \<or> ep_mode p \<noteq> []) \<and> lower_host \<in> set metadata_names
         then Inl (''egress destination '' @ go_quote env target @ '' blocked: cloud metadata endpoint'')
         else (case resolve_allowed env p lower_host port of
                 Some r \<Rightarrow> r
               | None \<Rightarrow>
                   if ep_mode p = egress_mode_strict
                   then Inl (''egress destination '' @ go_quote env target
                             @ '' blocked: not in allowed_hosts (strict mode)'')
                   else resolve_checked env p target lower_host port))"

definition validate_destination :: "egress_env \<Rightarrow> egress_policy \<Rightarrow> string \<Rightarrow> string option" where
  "validate_destination env p target =
     (case resolve_and_validate env p target of Inl err \<Rightarrow> Some err | Inr _ \<Rightarrow> None)"

text \<open>
  \<open>DialValidatedContext\<close>: the dialer gets the validated address. The second component lists the
  dials that were made.
\<close>

definition dial_validated ::
  "(ip_addr \<times> string \<Rightarrow> string + 'c) \<Rightarrow> egress_env \<Rightarrow> egress_policy \<Rightarrow> string \<Rightarrow>
   (string + 'c) \<times> (ip_addr \<times> string) list" where
  "dial_validated dial env p target =
     (case resolve_and_validate env p target of
        Inl err \<Rightarrow> (Inl err, [])
      | Inr (ip, port) \<Rightarrow> (dial (ip, port), [(ip, port)]))"

definition parse_prefixes :: "string list \<Rightarrow> cidr list" where
  "parse_prefixes cidrs = List.map_filter (\<lambda>c. parse_prefix (trim_space c)) cidrs"

section \<open>Lemmas\<close>

lemma pick_valid_accepts:
  "pick_valid env p target valid ips = Inr (Some a) \<Longrightarrow>
     (case valid of Some v \<Rightarrow> a = v
      | None \<Rightarrow> validate_ip p a = None \<and> (\<exists>ip \<in> set ips. \<exists>b. addr_from_slice ip = Some b \<and> a = unmap b))"
proof (induction ips arbitrary: valid)
  case Nil
  then show ?case by simp
next
  case (Cons ip ips)
  show ?case
  proof (cases "addr_from_slice ip")
    case None
    with Cons.prems have "pick_valid env p target valid ips = Inr (Some a)" by simp
    with Cons.IH show ?thesis by (fastforce split: option.splits)
  next
    case (Some b)
    with Cons.prems have ok: "validate_ip p (unmap b) = None"
      and rest: "pick_valid env p target (if valid = None then Some (unmap b) else valid) ips = Inr (Some a)"
      by (auto split: option.splits)
    from Cons.IH [OF rest] ok Some show ?thesis
      by (cases valid) auto
  qed
qed

text \<open>A record the policy forbids makes the whole lookup fail, wherever it stands.\<close>

lemma pick_valid_rejects:
  assumes "ip \<in> set ips" "addr_from_slice ip = Some b" "validate_ip p (unmap b) = Some e"
  shows "\<exists>err. pick_valid env p target valid ips = Inl err"
  using assms(1)
proof (induction ips arbitrary: valid)
  case (Cons x ips)
  show ?case
  proof (cases "x = ip")
    case True
    with assms(2,3) show ?thesis by simp
  next
    case False
    with Cons show ?thesis by (auto split: option.split)
  qed
qed simp

text \<open>Every answer is an allowed host's, or an address the policy accepts.\<close>

lemma resolve_and_validate_cases:
  fixes target :: string and env :: egress_env
  defines "lower_host \<equiv> to_lower (ee_lower env) (trim_space (fst (split_target target)))"
  assumes "resolve_and_validate env p target = Inr (a, port)"
  shows "port = snd (split_target target)
    \<and> ((ep_allowed_hosts p \<noteq> [] \<and> is_host_allowed env p lower_host)
       \<or> (ep_mode p \<noteq> egress_mode_strict \<and> validate_ip p a = None
          \<and> (parse_addr lower_host \<noteq> None \<longrightarrow> parse_addr lower_host = Some a \<or> addr_zone a = [])
          \<and> (parse_addr lower_host = None \<longrightarrow> addr_zone a = [])))"
proof -
  obtain host prt where st: "split_target target = (host, prt)" by (metis prod.exhaust)
  with assms(1) have lh: "lower_host = to_lower (ee_lower env) (trim_space host)" by simp
  show ?thesis
  proof (cases "resolve_allowed env p lower_host prt")
    case (Some r)
    with assms(2) have "r = Inr (a, port)"
      by (simp add: resolve_and_validate_def st lh Let_def split: if_splits)
    with Some st show ?thesis
      by (auto simp: resolve_allowed_def split: if_splits option.splits sum.splits list.splits)
  next
    case None
    with assms(2) have strict: "ep_mode p \<noteq> egress_mode_strict"
      and chk: "resolve_checked env p target lower_host prt = Inr (a, port)"
      by (auto simp: resolve_and_validate_def st lh Let_def split: if_splits)
    show ?thesis
    proof (cases "parse_addr lower_host")
      case (Some addr)
      with chk have "a = unmap addr" "port = prt" "validate_ip p a = None"
        by (auto simp: resolve_checked_def split: option.splits)
      with strict st Some show ?thesis by (cases addr) auto
    next
      case no: None
      with chk obtain ips where "pick_valid env p target None ips = Inr (Some a)" "port = prt"
        by (auto simp: resolve_checked_def split: sum.splits if_splits option.splits)
      with pick_valid_accepts [of env p target None ips a] addr_from_slice_zone strict st no
      show ?thesis by auto
    qed
  qed
qed

section \<open>Properties\<close>

definition sample_env :: egress_env where
  "sample_env = \<lparr>ee_lower = id, ee_quote = id, ee_resolver = (\<lambda>_. Inl ''no such host'')\<rparr>"

text \<open>The host a target names, as the policy compares it.\<close>

definition target_host :: "egress_env \<Rightarrow> string \<Rightarrow> string" where
  "target_host env target = to_lower (ee_lower env) (trim_space (fst (split_target target)))"

text \<open>
  \<open>DialValidatedContext\<close> dials at most once, and only an address that \<open>validateIP\<close> accepted under
  the policy, unless the host is on the allow-list; in strict mode it dials for allow-listed hosts
  only, and a rejected target is never dialled.
\<close>

theorem dial_only_validated:
  assumes "dial_validated dial env p target = (res, dials)"
  shows "length dials \<le> 1
    \<and> (\<forall>(a, port) \<in> set dials. port = snd (split_target target)
        \<and> (is_host_allowed env p (target_host env target)
           \<or> (ep_mode p \<noteq> egress_mode_strict \<and> validate_ip p a = None)))
    \<and> (dials = [] \<longleftrightarrow> (\<exists>err. resolve_and_validate env p target = Inl err \<and> res = Inl err))"
proof (cases "resolve_and_validate env p target")
  case (Inl err)
  with assms show ?thesis by (auto simp: dial_validated_def)
next
  case (Inr r)
  then obtain a port where r: "resolve_and_validate env p target = Inr (a, port)" by (cases r) simp
  with assms have "dials = [(a, port)]" by (auto simp: dial_validated_def)
  with resolve_and_validate_cases [OF r] r show ?thesis
    by (auto simp: target_host_def)
qed

theorem dial_only_validated_witness:
  "snd (dial_validated (\<lambda>_. Inr ()) sample_env (new_egress_policy egress_mode_strict True) ''example.com:443'') = []"
proof -
  obtain res dials where d: "dial_validated (\<lambda>_. Inr ()) sample_env
      (new_egress_policy egress_mode_strict True) ''example.com:443'' = (res, dials)" by (metis prod.exhaust)
  have "\<not> is_host_allowed sample_env (new_egress_policy egress_mode_strict True) h" for h
    by (simp add: is_host_allowed_def new_egress_policy_def)
  with dial_only_validated [OF d] have "x \<notin> set dials" for x
    by (cases x) (auto simp: new_egress_policy_def)
  then have "dials = []" by (cases dials) auto
  then show ?thesis by (simp add: d)
qed

text \<open>The addresses the two blocking rules are about, as ranges of octets.\<close>

fun link_local :: "ip_addr \<Rightarrow> bool" where
  "link_local (V4 a) = (unat a div 2 ^ 16 = 169 * 256 + 254)"
| "link_local (V6 a z) = (unat a div 2 ^ 118 = 0xFE8 div 4)"

fun private_range :: "ip_addr \<Rightarrow> bool" where
  "private_range (V4 a) = (unat a div 2 ^ 24 \<in> {10, 127} \<or> unat a div 2 ^ 20 = 172 * 16 + 1
     \<or> unat a div 2 ^ 16 = 192 * 256 + 168)"
| "private_range (V6 a z) = (a = 1 \<or> unat a div 2 ^ 121 = 0xFC div 2)"

lemma drop_bit_unat: "drop_bit k (a :: 'a::len word) = c \<longleftrightarrow> unat a div 2 ^ k = unat c"
  by (simp only: word_unat_eq_iff unat_drop_bit_eq) (simp add: drop_bit_eq_div)

lemma contains_link_local:
  "cidr_contains cidr_ipv4_link_local (V4 a) \<longleftrightarrow> link_local (V4 a)"
  "cidr_contains cidr_ipv6_link_local (V6 b []) \<longleftrightarrow> link_local (V6 b [])"
  by (simp_all add: cidr_defs drop_bit_unat)

lemma contains_private:
  "private_range (V4 a) \<longleftrightarrow> cidr_contains cidr_ipv4_private1 (V4 a) \<or> cidr_contains cidr_ipv4_loopback (V4 a)
     \<or> cidr_contains cidr_ipv4_private2 (V4 a) \<or> cidr_contains cidr_ipv4_private3 (V4 a)"
  "private_range (V6 b []) \<longleftrightarrow> cidr_contains cidr_ipv6_loopback (V6 b []) \<or> cidr_contains cidr_ipv6_ula (V6 b [])"
  by (auto simp: cidr_defs drop_bit_unat word_unat_eq_iff [of b])

lemma validate_ip_None:
  assumes "validate_ip p a = None" "addr_zone a = []"
  shows "(ep_block_metadata p \<longrightarrow> \<not> link_local a \<and> (is4 a \<or> addr_string a \<noteq> ''fd00:ec2::254''))
    \<and> (ep_mode p = egress_mode_private \<longrightarrow> \<not> private_range a)
    \<and> (\<forall>c \<in> set (ep_denied_cidrs p). \<not> cidr_contains c a)"
proof (cases a)
  case (V4 w)
  with assms show ?thesis
    by (auto simp: validate_ip_def contains_link_local contains_private find_None_iff
        simp del: link_local.simps private_range.simps cidr_contains_V4 split: if_splits option.splits)
next
  case (V6 w z)
  with assms show ?thesis
    by (auto simp: validate_ip_def contains_link_local contains_private find_None_iff
        simp del: link_local.simps private_range.simps cidr_contains_V6 split: if_splits option.splits)
qed

lemma parse_addr_zone: "CHR ''%'' \<notin> set s \<Longrightarrow> parse_addr s = Some a \<Longrightarrow> addr_zone a = []"
proof -
  assume no: "CHR ''%'' \<notin> set s" and parse: "parse_addr s = Some a"
  from no have "index_byte s CHR ''%'' = None" by simp
  with parse show ?thesis
    by (auto simp: parse_addr_def parse_ipv6_def Let_def simp del: index_byte_None
        split: option.splits if_splits)
qed

lemma addr_string_ec2: "CHR ''%'' \<notin> set ''fd00:ec2::254''"
  by simp

text \<open>
  C4: for a host that is neither allow-listed nor written with a zone, the address handed to the dialer
  is outside the link-local ranges and not the EC2 metadata address when \<open>BlockMetadata\<close> is set,
  outside the private and loopback ranges in the hardened mode, and in no denied CIDR, whatever DNS
  answers.
\<close>

theorem blocked_ranges_never_dialled:
  assumes "resolve_and_validate env p target = Inr (a, port)"
    and "\<not> is_host_allowed env p (target_host env target)"
    and "CHR ''%'' \<notin> set (target_host env target)"
  shows "(ep_block_metadata p \<longrightarrow> \<not> link_local a \<and> (is4 a \<or> addr_string a \<noteq> ''fd00:ec2::254''))
    \<and> (ep_mode p = egress_mode_private \<longrightarrow> \<not> private_range a)
    \<and> (\<forall>c \<in> set (ep_denied_cidrs p). \<not> cidr_contains c a)"
proof (rule validate_ip_None)
  note cases = resolve_and_validate_cases [OF assms(1), folded target_host_def]
  with assms(2) show "validate_ip p a = None" by blast
  show "addr_zone a = []"
  proof (cases "parse_addr (target_host env target) = Some a")
    case True
    with assms(3) show ?thesis by (rule parse_addr_zone)
  next
    case False
    with cases assms(2) show ?thesis by blast
  qed
qed

definition private_policy :: egress_policy where
  "private_policy = new_egress_policy egress_mode_private True"

theorem blocked_ranges_never_dialled_witness:
  "resolve_and_validate sample_env private_policy ''8.8.8.8:53'' = Inr (V4 0x08080808, ''53'')
   \<and> \<not> private_range (V4 0x08080808)"
proof -
  have r: "resolve_and_validate sample_env private_policy ''8.8.8.8:53'' = Inr (V4 0x08080808, ''53'')"
    by code_simp
  have h: "target_host sample_env ''8.8.8.8:53'' = ''8.8.8.8''"
    by code_simp
  have "\<not> is_host_allowed sample_env private_policy (target_host sample_env ''8.8.8.8:53'')"
    by (simp add: is_host_allowed_def private_policy_def new_egress_policy_def)
  from blocked_ranges_never_dialled [OF r this] h r show ?thesis
    by (simp only: private_policy_def new_egress_policy_def egress_policy.simps) auto
qed

text \<open>
  if any of the records a name resolves to is forbidden, the whole target is rejected, so an
  attacker cannot hide an internal address behind an allowed one.
\<close>

theorem one_forbidden_record_rejects:
  assumes "\<not> is_host_allowed env p (target_host env target)"
    and "parse_addr (target_host env target) = None"
    and "lookup_ip env p (target_host env target) = Inr ips"
    and "ip \<in> set ips" "addr_from_slice ip = Some b" "validate_ip p (unmap b) \<noteq> None"
  shows "\<exists>err. validate_destination env p target = Some err"
proof -
  obtain host port where st: "split_target target = (host, port)" by (metis prod.exhaust)
  from assms(6) obtain e where e: "validate_ip p (unmap b) = Some e" by auto
  obtain err where "pick_valid env p target None ips = Inl err"
    using pick_valid_rejects [OF assms(4,5) e] by blast
  moreover have "ips \<noteq> []" using assms(4) by auto
  ultimately have "resolve_checked env p target (target_host env target) port = Inl err"
    using assms(2,3) by (simp add: resolve_checked_def)
  moreover have "resolve_allowed env p (target_host env target) port = None"
    using assms(1) by (simp add: resolve_allowed_def)
  moreover have "target_host env target = to_lower (ee_lower env) (trim_space host)"
    by (simp add: target_host_def st)
  ultimately show ?thesis
    by (auto simp: validate_destination_def resolve_and_validate_def st Let_def)
qed

theorem one_forbidden_record_rejects_witness:
  "\<exists>err. validate_destination (sample_env\<lparr>ee_resolver := (\<lambda>_. Inr [[8, 8, 8, 8], [169, 254, 0, 1]])\<rparr>)
     private_policy ''evil.test'' = Some err"
proof (rule one_forbidden_record_rejects [where ip = "[169, 254, 0, 1]" and b = "V4 0xA9FE0001"
      and ips = "[[8, 8, 8, 8], [169, 254, 0, 1]]"])
  let ?env = "sample_env\<lparr>ee_resolver := (\<lambda>_. Inr [[8, 8, 8, 8], [169, 254, 0, 1 :: byte]])\<rparr>"
  show "\<not> is_host_allowed ?env private_policy (target_host ?env ''evil.test'')"
    by (simp add: is_host_allowed_def private_policy_def new_egress_policy_def)
  show "parse_addr (target_host ?env ''evil.test'') = None"
    by code_simp
  show "lookup_ip ?env private_policy (target_host ?env ''evil.test'') = Inr [[8, 8, 8, 8], [169, 254, 0, 1]]"
    by (simp add: lookup_ip_def private_policy_def new_egress_policy_def)
  show "addr_from_slice [169, 254, 0, 1] = Some (V4 0xA9FE0001)"
    by code_simp
  show "validate_ip private_policy (unmap (V4 0xA9FE0001)) \<noteq> None"
    by code_simp
qed simp

text \<open>
  C39: an IPv6 literal with a zone, unless it is an IPv4-mapped one (which \<open>Unmap\<close> turns into a plain IPv4
  address that is checked), passes every check of every non-strict policy, loopback apart:
  \<open>Prefix.Contains\<close> is false for zoned addresses, and the string comparison with the EC2 metadata
  address fails. So the EC2 metadata service is reachable by adding a zone to its address.
\<close>

theorem zoned_literal_bypasses_policy:
  assumes "parse_addr (target_host env target) = Some (V6 a z)" "z \<noteq> []"
    and "\<not> is_4in6 (V6 a z)" "a \<noteq> 1"
    and "target_host env target \<notin> set metadata_names" "ep_mode p \<noteq> egress_mode_strict"
  shows "resolve_and_validate env p target = Inr (V6 a z, snd (split_target target))"
proof -
  obtain host port where st: "split_target target = (host, port)" by (metis prod.exhaust)
  have lh: "target_host env target = to_lower (ee_lower env) (trim_space host)"
    by (simp add: target_host_def st)
  have no: "\<not> cidr_contains c (V6 a z)" for c
    using cidr_zoned assms(2) by blast
  have "CHR ''%'' \<in> set (addr_string (V6 a z))"
    using assms(2) by simp
  then have "addr_string (V6 a z) \<noteq> ''fd00:ec2::254''"
    by (metis addr_string_ec2)
  moreover have "\<not> is_loopback (V6 a z)"
    using assms(3,4) by simp
  ultimately have ok: "validate_ip p (V6 a z) = None"
    by (simp add: validate_ip_def no find_None_iff [THEN iffD2] split: option.split)
  have unm: "unmap (V6 a z) = V6 a z" using assms(3) by simp
  show ?thesis
  proof (cases "resolve_allowed env p (target_host env target) port")
    case None
    have "resolve_checked env p target (target_host env target) port = Inr (V6 a z, port)"
      by (simp add: resolve_checked_def assms(1) unm ok del: unmap.simps)
    with None assms(5,6) lh st show ?thesis by (simp add: resolve_and_validate_def Let_def)
  next
    case (Some r)
    then have "r = Inr (V6 a z, port)"
      using assms(1) unm by (auto simp: resolve_allowed_def simp del: unmap.simps split: if_splits)
    with Some assms(5) lh st show ?thesis by (simp add: resolve_and_validate_def Let_def)
  qed
qed

theorem zoned_literal_bypasses_policy_witness:
  "resolve_and_validate sample_env private_policy ''[fd00:ec2::254%x]:80''
     = Inr (V6 0xFD000EC2000000000000000000000254 ''x'', ''80'')
   \<and> (\<exists>err. validate_destination sample_env private_policy ''[fd00:ec2::254]:80'' = Some err)"
proof
  have h: "target_host sample_env ''[fd00:ec2::254%x]:80'' = ''fd00:ec2::254%x''"
    "snd (split_target ''[fd00:ec2::254%x]:80'') = ''80''"
    by code_simp+
  have "parse_addr ''fd00:ec2::254%x'' = Some (V6 0xFD000EC2000000000000000000000254 ''x'')"
    by code_simp
  moreover have "\<not> is_4in6 (V6 0xFD000EC2000000000000000000000254 ''x'')"
    by code_simp
  moreover have "ep_mode private_policy \<noteq> egress_mode_strict"
    by (simp add: private_policy_def new_egress_policy_def)
  ultimately show "resolve_and_validate sample_env private_policy ''[fd00:ec2::254%x]:80''
      = Inr (V6 0xFD000EC2000000000000000000000254 ''x'', ''80'')"
    using zoned_literal_bypasses_policy [of sample_env "''[fd00:ec2::254%x]:80''" "0xFD000EC2000000000000000000000254"
        "''x''" private_policy]
    by (simp add: h metadata_names_def del: is_4in6.simps)
  show "\<exists>err. validate_destination sample_env private_policy ''[fd00:ec2::254]:80'' = Some err"
  proof -
    have "validate_destination sample_env private_policy ''[fd00:ec2::254]:80'' \<noteq> None"
      by code_simp
    then show ?thesis by blast
  qed
qed

text \<open>
  for an allow-listed name the first usable DNS record is dialled without any check, even under
  \<open>BlockMetadata\<close> and against the denied CIDRs.
\<close>

theorem allowed_host_skips_ip_checks:
  assumes "ep_allowed_hosts p \<noteq> []" "is_host_allowed env p (target_host env target)"
    and "target_host env target \<notin> set metadata_names" "parse_addr (target_host env target) = None"
    and "lookup_ip env p (target_host env target) = Inr (ip # ips)" "addr_from_slice ip = Some b"
  shows "resolve_and_validate env p target = Inr (unmap b, snd (split_target target))"
proof -
  obtain host port where st: "split_target target = (host, port)" by (metis prod.exhaust)
  have lh: "target_host env target = to_lower (ee_lower env) (trim_space host)"
    by (simp add: target_host_def st)
  have "resolve_allowed env p (target_host env target) port = Some (Inr (unmap b, port))"
    using assms by (simp add: resolve_allowed_def List.map_filter_def)
  with assms(3) lh st show ?thesis by (simp add: resolve_and_validate_def Let_def)
qed

theorem allowed_host_skips_ip_checks_witness:
  "resolve_and_validate (sample_env\<lparr>ee_resolver := (\<lambda>_. Inr [[169, 254, 169, 254]])\<rparr>)
     (private_policy\<lparr>ep_allowed_hosts := [''*.example.com''], ep_denied_cidrs := [Cidr4 0 0]\<rparr>)
     ''a.example.com:80'' = Inr (V4 0xA9FEA9FE, ''80'')"
proof -
  let ?env = "sample_env\<lparr>ee_resolver := (\<lambda>_. Inr [[169, 254, 169, 254 :: byte]])\<rparr>"
  let ?p = "private_policy\<lparr>ep_allowed_hosts := [''*.example.com''], ep_denied_cidrs := [Cidr4 0 0]\<rparr>"
  have h: "target_host ?env ''a.example.com:80'' = ''a.example.com''" "snd (split_target ''a.example.com:80'') = ''80''"
    by code_simp+
  have a: "is_host_allowed ?env ?p ''a.example.com''" by code_simp
  have n: "parse_addr ''a.example.com'' = None" by code_simp
  have b: "addr_from_slice [169, 254, 169, 254] = Some (V4 0xA9FEA9FE)" by code_simp
  have l: "lookup_ip ?env ?p ''a.example.com'' = Inr [[169, 254, 169, 254]]"
    by (simp add: lookup_ip_def private_policy_def new_egress_policy_def)
  show ?thesis
    using allowed_host_skips_ip_checks [of ?p ?env "''a.example.com:80''"] a n b l
    by (simp add: h metadata_names_def)
qed

end
