(* ===== verification/Docker_Watcher.thy ===== *)
theory Docker_Watcher
  imports Route_Concurrency Http_Header
begin

text \<open>
  Container discovery of src/pkg/docker/watcher.go: which containers get a route, mounting and
  unmounting on the router, reconciliation with the list of running containers, and the life cycle
  of the log streams. \<open>url.Parse\<close> is the argument \<open>parse\<close>, the Docker API's answers are arguments.
  Registration, removal and reconciliation run in one goroutine and are steps; the goroutine of a
  log stream ends at any time, which is a step of its own.
\<close>

section \<open>Containers and routes\<close>

record container_port =
  cp_ip :: string
  cp_private :: int
  cp_public :: int
  cp_type :: string

record container_info =
  ci_id :: string
  ci_names :: "string list"
  ci_labels :: "(string \<times> string) list"
  ci_ports :: "container_port list"

record container_route =
  cr_id :: string
  cr_name :: string
  cr_prefix :: string
  cr_target :: gurl
  cr_strip_prefix :: bool
  cr_port :: int

text \<open>
  \<open>wa_streams\<close> maps a container to the number of its log stream (for the stored cancel function);
  \<open>wa_live\<close> are the streams whose goroutine still runs uncancelled; \<open>wa_notes\<close> are the calls of the
  route callback.
\<close>

record watcher =
  wa_client :: bool
  wa_router :: router
  wa_mode :: string
  wa_auto_route_all :: bool
  wa_routes :: "(string \<times> container_route) list"
  wa_streams :: "(string \<times> nat) list"
  wa_next_stream :: nat
  wa_live :: "(nat \<times> string) list"
  wa_notes :: "(string \<times> container_route) list"

definition new_watcher :: "bool \<Rightarrow> router \<Rightarrow> watcher" where
  "new_watcher client r =
     \<lparr>wa_client = client, wa_router = r, wa_mode = ''strict'', wa_auto_route_all = False,
      wa_routes = [], wa_streams = [], wa_next_stream = 0, wa_live = [], wa_notes = []\<rparr>"

definition set_mode :: "string \<Rightarrow> watcher \<Rightarrow> watcher" where
  "set_mode mode w = w\<lparr>wa_mode := mode\<rparr>"

definition set_auto_route_all :: "bool \<Rightarrow> watcher \<Rightarrow> watcher" where
  "set_auto_route_all enable w =
     (let w = w\<lparr>wa_auto_route_all := enable\<rparr> in if enable then w\<lparr>wa_mode := ''automatic''\<rparr> else w)"

section \<open>Which route a container gets\<close>

definition route_prefix_of :: "string \<Rightarrow> container_info \<Rightarrow> string" where
  "route_prefix_of mode c =
     (let mode = (if mode = [] then ''strict'' else mode);
          p = str_map_get (ci_labels c) ''devhub.route'';
          p = (if p = [] then str_map_get (ci_labels c) ''devhub.path'' else p)
      in if p = [] \<and> ci_names c \<noteq> []
         then (let clean_name = trim_prefix (hd (ci_names c)) ''/''
               in if clean_name \<noteq> [] \<and> \<not> has_prefix clean_name ''devhub''
                  then (if mode = ''strict'' then p
                        else if mode = ''opt_in''
                        then (if str_map_get (ci_labels c) ''devhub.enable'' = ''true'' then ''/'' @ clean_name else p)
                        else if mode = ''automatic'' then ''/'' @ clean_name
                        else p)
                  else p)
         else p)"

definition target_port_of :: "container_info \<Rightarrow> int" where
  "target_port_of c =
     (case map_of (ci_labels c) ''devhub.port'' of
        Some p_str \<Rightarrow> (case go_atoi p_str of Some p \<Rightarrow> if 0 < p then p else 80 | None \<Rightarrow> 80)
      | None \<Rightarrow>
          (case ci_ports c of
             [] \<Rightarrow> 80
           | p # _ \<Rightarrow> if 0 < cp_public p then cp_public p
                      else if 0 < cp_private p then cp_private p else 80))"

definition target_host_of :: "container_info \<Rightarrow> string" where
  "target_host_of c =
     (case map_of (ci_labels c) ''devhub.host'' of
        Some h \<Rightarrow> if h \<noteq> [] then h else ''localhost''
      | None \<Rightarrow> ''localhost'')"

definition target_url_text :: "container_info \<Rightarrow> string" where
  "target_url_text c = ''http://'' @ target_host_of c @ '':'' @ dec_of_int (target_port_of c)"

definition container_route_of :: "string \<Rightarrow> gurl \<Rightarrow> container_info \<Rightarrow> container_route" where
  "container_route_of mode u c =
     \<lparr>cr_id = ci_id c, cr_name = trim_prefix (join_with '','' (ci_names c)) ''/'',
      cr_prefix = route_prefix_of mode c, cr_target = u,
      cr_strip_prefix = (str_map_get (ci_labels c) ''devhub.strip_prefix'' = ''true''),
      cr_port = target_port_of c\<rparr>"

section \<open>Log streams\<close>

definition start_log_stream :: "string \<Rightarrow> watcher \<Rightarrow> watcher" where
  "start_log_stream cid w =
     (if \<not> wa_client w then w
      else if map_of (wa_streams w) cid \<noteq> None then w
      else w\<lparr>wa_streams := AList.update cid (wa_next_stream w) (wa_streams w),
             wa_live := (wa_next_stream w, cid) # wa_live w,
             wa_next_stream := wa_next_stream w + 1\<rparr>)"

text \<open>The deferred \<open>delete(w.logStreams, containerID)\<close> when the goroutine of stream \<open>n\<close> returns.\<close>

definition stream_ends :: "nat \<Rightarrow> string \<Rightarrow> watcher \<Rightarrow> watcher" where
  "stream_ends n cid w =
     w\<lparr>wa_streams := AList.delete cid (wa_streams w),
       wa_live := filter (\<lambda>(m, _). m \<noteq> n) (wa_live w)\<rparr>"

text \<open>Calling the stored cancel function of a container.\<close>

definition cancel_stream :: "string \<Rightarrow> watcher \<Rightarrow> watcher" where
  "cancel_stream cid w =
     (case map_of (wa_streams w) cid of
        Some n \<Rightarrow> w\<lparr>wa_live := filter (\<lambda>(m, _). m \<noteq> n) (wa_live w), wa_streams := AList.delete cid (wa_streams w)\<rparr>
      | None \<Rightarrow> w)"

definition stop_watcher :: "watcher \<Rightarrow> watcher" where
  "stop_watcher w =
     w\<lparr>wa_live := filter (\<lambda>(m, _). m \<notin> snd ` set (wa_streams w)) (wa_live w), wa_streams := []\<rparr>"

section \<open>Registration and reconciliation\<close>

text \<open>The locked update and the mounting, for a container whose target URL parsed to \<open>u\<close>.\<close>

definition mount_route :: "container_route \<Rightarrow> watcher \<Rightarrow> watcher" where
  "mount_route cr w =
     (let existing = map_of (wa_routes w) (cr_id cr)
      in if (case existing of
               Some e \<Rightarrow> cr_prefix e = cr_prefix cr \<and> u_string (cr_target e) = u_string (cr_target cr)
                           \<and> cr_strip_prefix e = cr_strip_prefix cr
             | None \<Rightarrow> False)
         then w
         else (let w = (case existing of
                          Some e \<Rightarrow> if cr_prefix e \<noteq> cr_prefix cr
                                     then w\<lparr>wa_router := snd (remove_route (wa_router w) (cr_prefix e))\<rparr> else w
                        | None \<Rightarrow> w);
                   w = w\<lparr>wa_routes := AList.update (cr_id cr) cr (wa_routes w)\<rparr>;
                   w = w\<lparr>wa_router := add_route (wa_router w) (cr_prefix cr) (cr_target cr) (cr_strip_prefix cr)\<rparr>;
                   w = w\<lparr>wa_notes := wa_notes w @ [(''mount'', cr)]\<rparr>
               in start_log_stream (cr_id cr) w))"

definition register_container :: "(string \<Rightarrow> gurl option) \<Rightarrow> container_info \<Rightarrow> watcher \<Rightarrow> watcher" where
  "register_container parse c w =
     (if route_prefix_of (wa_mode w) c = [] then w
      else (case parse (target_url_text c) of
              None \<Rightarrow> w
            | Some u \<Rightarrow> mount_route (container_route_of (wa_mode w) u c) w))"

definition unregister_container :: "string \<Rightarrow> watcher \<Rightarrow> watcher" where
  "unregister_container cid w =
     (let existing = map_of (wa_routes w) cid;
          w = cancel_stream cid (w\<lparr>wa_routes := AList.delete cid (wa_routes w)\<rparr>)
      in case existing of
           None \<Rightarrow> w
         | Some cr \<Rightarrow> w\<lparr>wa_router := snd (remove_route (wa_router w) (cr_prefix cr)),
                          wa_notes := wa_notes w @ [(''unmount'', cr)]\<rparr>)"

text \<open>\<open>listing\<close> is the answer of \<open>ListContainers\<close>; the result's error is the one returned.\<close>

definition sync_containers ::
  "(string \<Rightarrow> gurl option) \<Rightarrow> string + container_info list \<Rightarrow> watcher \<Rightarrow> watcher \<times> string option" where
  "sync_containers parse listing w =
     (if \<not> wa_client w then (w, None)
      else (case listing of
              Inl err \<Rightarrow> (w, Some err)
            | Inr containers \<Rightarrow>
                (let w = foldl (\<lambda>w c. register_container parse c w) w containers;
                     dead = filter (\<lambda>k. k \<notin> ci_id ` set containers) (map fst (wa_routes w))
                 in (foldl (\<lambda>w k. unregister_container k w) w dead, None))))"

datatype docker_event = ContainerEvent string string | OtherEvent

definition handle_event ::
  "(string \<Rightarrow> gurl option) \<Rightarrow> string + container_info list \<Rightarrow> docker_event \<Rightarrow> watcher \<Rightarrow> watcher" where
  "handle_event parse listing ev w =
     (case ev of
        OtherEvent \<Rightarrow> w
      | ContainerEvent action cid \<Rightarrow>
          if action = ''start'' then fst (sync_containers parse listing w)
          else if action \<in> {''die'', ''kill'', ''stop'', ''destroy''} then unregister_container cid w
          else w)"

text \<open>
  \<open>Start\<close> and the loop of \<open>eventLoop\<close>: a round is a failed \<open>StreamEvents\<close> (\<open>None\<close>), or the events that
  one stream delivered, each with what a listing would answer then, and the listing of the re-scan
  after the stream has closed. Lines that are no JSON are \<open>OtherEvent\<close>.
\<close>

type_synonym listing = "string + container_info list"

definition event_round ::
  "(string \<Rightarrow> gurl option) \<Rightarrow> ((listing \<times> docker_event) list \<times> listing) option \<Rightarrow> watcher \<Rightarrow> watcher" where
  "event_round parse rnd w =
     (case rnd of
        None \<Rightarrow> w
      | Some (events, rescan) \<Rightarrow>
          fst (sync_containers parse rescan (foldl (\<lambda>w (listing, ev). handle_event parse listing ev w) w events)))"

definition start_watcher ::
  "(string \<Rightarrow> gurl option) \<Rightarrow> listing \<Rightarrow> ((listing \<times> docker_event) list \<times> listing) option list \<Rightarrow> watcher \<Rightarrow> watcher" where
  "start_watcher parse sweep rounds w =
     (let w = fst (sync_containers parse sweep w)
      in if \<not> wa_client w then w else foldl (\<lambda>w rnd. event_round parse rnd w) w rounds)"

definition get_routes :: "watcher \<Rightarrow> container_route list" where
  "get_routes w = map snd (wa_routes w)"

text \<open>A demultiplexed log payload becomes an entry unless only line ends are left.\<close>

definition log_entry :: "string \<Rightarrow> int \<times> string \<Rightarrow> (string \<times> string \<times> string) option" where
  "log_entry name entry =
     (let (stream_type, payload) = entry;
          msg = trim_right (\<lambda>c. c = char_of (10 :: int) \<or> c = char_of (13 :: int)) payload
      in if msg \<noteq> [] then Some (name, if stream_type = 2 then ''stderr'' else ''stdout'', msg) else None)"

section \<open>Invariant\<close>

text \<open>
  Every tracked container is mounted under its own prefix, as long as no route segments are claimed
  by two containers: \<open>owner\<close> says whose they are.
\<close>

abbreviation cr_segments :: "container_route \<Rightarrow> string list" where
  "cr_segments cr \<equiv> route_segments (cr_prefix cr)"

definition cr_entry :: "container_route \<Rightarrow> route_target" where
  "cr_entry cr = target_of (cr_prefix cr) (cr_target cr) (cr_strip_prefix cr) 0"

definition watch_base :: "watcher \<Rightarrow> bool" where
  "watch_base w \<longleftrightarrow> router_inv (wa_router w) \<and> map_ok (wa_routes w)
     \<and> (\<forall>(k, cr) \<in> set (wa_routes w). cr_id cr = k)"

definition owned_by :: "(string list \<Rightarrow> string) \<Rightarrow> watcher \<Rightarrow> bool" where
  "owned_by owner w \<longleftrightarrow> (\<forall>k cr. map_of (wa_routes w) k = Some cr \<longrightarrow> owner (cr_segments cr) = k)"

definition all_mounted :: "watcher \<Rightarrow> bool" where
  "all_mounted w \<longleftrightarrow>
     (\<forall>k cr. map_of (wa_routes w) k = Some cr \<longrightarrow> router_routes (wa_router w) (cr_segments cr) = Some (cr_entry cr))"

definition watch_inv :: "(string list \<Rightarrow> string) \<Rightarrow> watcher \<Rightarrow> bool" where
  "watch_inv owner w \<longleftrightarrow> watch_base w \<and> owned_by owner w \<and> all_mounted w"

lemma cancel_stream_frame [simp]:
  "wa_router (cancel_stream k w) = wa_router w" "wa_routes (cancel_stream k w) = wa_routes w"
  "wa_mode (cancel_stream k w) = wa_mode w" "wa_client (cancel_stream k w) = wa_client w"
  "wa_notes (cancel_stream k w) = wa_notes w"
  by (simp_all add: cancel_stream_def split: option.split)

lemma start_log_stream_frame [simp]:
  "wa_router (start_log_stream k w) = wa_router w" "wa_routes (start_log_stream k w) = wa_routes w"
  "wa_mode (start_log_stream k w) = wa_mode w" "wa_client (start_log_stream k w) = wa_client w"
  by (simp_all add: start_log_stream_def)

lemma unregister_routes_map [simp]:
  "wa_routes (unregister_container k w) = AList.delete k (wa_routes w)"
  by (simp add: unregister_container_def Let_def split: option.split)

lemma unregister_router:
  "wa_router (unregister_container k w) =
     (case map_of (wa_routes w) k of None \<Rightarrow> wa_router w
      | Some cr \<Rightarrow> snd (remove_route (wa_router w) (cr_prefix cr)))"
  by (simp add: unregister_container_def Let_def split: option.split)

lemma unregister_routes:
  assumes "router_inv (wa_router w)"
  shows "router_inv (wa_router (unregister_container k w))"
    "router_routes (wa_router (unregister_container k w)) =
       (case map_of (wa_routes w) k of None \<Rightarrow> router_routes (wa_router w)
        | Some cr \<Rightarrow> (router_routes (wa_router w))(cr_segments cr := None))"
  using assms by (simp_all add: unregister_router router_remove_correct split: option.split)

lemma watch_base_unregister: "watch_base w \<Longrightarrow> watch_base (unregister_container k w)"
  by (auto simp: watch_base_def unregister_routes dest: set_delete_subset)

lemma watch_inv_unregister:
  assumes "watch_inv owner w"
  shows "watch_inv owner (unregister_container k w)"
proof -
  have base: "watch_base w" and d: "owned_by owner w" and m: "all_mounted w"
    using assms by (simp_all add: watch_inv_def)
  have "all_mounted (unregister_container k w)"
    unfolding all_mounted_def
  proof (intro allI impI)
    fix l cr assume "map_of (wa_routes (unregister_container k w)) l = Some cr"
    then have l: "l \<noteq> k" "map_of (wa_routes w) l = Some cr"
      by (auto split: if_splits)
    have "cr_segments cr \<noteq> cr_segments e" if "map_of (wa_routes w) k = Some e" for e
      using d l that unfolding owned_by_def by metis
    with l m base show "router_routes (wa_router (unregister_container k w)) (cr_segments cr) = Some (cr_entry cr)"
      by (auto simp: unregister_routes watch_base_def all_mounted_def split: option.split)
  qed
  then show ?thesis
    using watch_base_unregister [OF base] d by (simp add: watch_inv_def owned_by_def)
qed

text \<open>Mounting: either nothing changes, or the container's entry replaces its old one.\<close>

definition unchanged_route :: "container_route \<Rightarrow> watcher \<Rightarrow> bool" where
  "unchanged_route cr w \<longleftrightarrow>
     (case map_of (wa_routes w) (cr_id cr) of
        Some e \<Rightarrow> cr_prefix e = cr_prefix cr \<and> u_string (cr_target e) = u_string (cr_target cr)
                    \<and> cr_strip_prefix e = cr_strip_prefix cr
      | None \<Rightarrow> False)"

lemma mount_route_unchanged: "unchanged_route cr w \<Longrightarrow> mount_route cr w = w"
  by (simp add: mount_route_def unchanged_route_def)

lemma mount_route_changed:
  assumes "\<not> unchanged_route cr w"
  shows "wa_routes (mount_route cr w) = AList.update (cr_id cr) cr (wa_routes w)"
    "wa_router (mount_route cr w) =
       add_route (case map_of (wa_routes w) (cr_id cr) of
                    Some e \<Rightarrow> if cr_prefix e \<noteq> cr_prefix cr
                               then snd (remove_route (wa_router w) (cr_prefix e)) else wa_router w
                  | None \<Rightarrow> wa_router w) (cr_prefix cr) (cr_target cr) (cr_strip_prefix cr)"
  using assms
  by (auto simp: mount_route_def unchanged_route_def Let_def split: option.split)

lemma mount_route_frame [simp]:
  "wa_mode (mount_route cr w) = wa_mode w" "wa_client (mount_route cr w) = wa_client w"
  by (simp_all add: mount_route_def Let_def split: option.split)

lemma mount_route_routes:
  assumes "\<not> unchanged_route cr w" "router_inv (wa_router w)"
  shows "router_inv (wa_router (mount_route cr w))"
    "router_routes (wa_router (mount_route cr w)) =
       (case map_of (wa_routes w) (cr_id cr) of
          Some e \<Rightarrow> if cr_prefix e \<noteq> cr_prefix cr
                     then (router_routes (wa_router w))(cr_segments e := None, cr_segments cr \<mapsto> cr_entry cr)
                     else (router_routes (wa_router w))(cr_segments cr \<mapsto> cr_entry cr)
        | None \<Rightarrow> (router_routes (wa_router w))(cr_segments cr \<mapsto> cr_entry cr))"
  using assms(2)
  by (simp_all add: mount_route_changed [OF assms(1)] add_route_def router_add_correct
      router_remove_correct cr_entry_def split: option.split)

lemma watch_base_mount: "watch_base w \<Longrightarrow> watch_base (mount_route cr w)"
  by (cases "unchanged_route cr w")
     (auto simp: mount_route_unchanged watch_base_def mount_route_routes mount_route_changed(1)
       dest: set_update_cases)

lemma watch_inv_mount:
  assumes "watch_inv owner w" "owner (cr_segments cr) = cr_id cr"
  shows "watch_inv owner (mount_route cr w)"
proof (cases "unchanged_route cr w")
  case True
  with assms show ?thesis by (simp add: mount_route_unchanged)
next
  case False
  have base: "watch_base w" and d: "owned_by owner w" and m: "all_mounted w"
    using assms(1) by (simp_all add: watch_inv_def)
  from base have inv: "router_inv (wa_router w)" by (simp add: watch_base_def)
  have "all_mounted (mount_route cr w)"
    unfolding all_mounted_def
  proof (intro allI impI)
    fix l x assume "map_of (wa_routes (mount_route cr w)) l = Some x"
    then consider "l = cr_id cr" "x = cr" | "l \<noteq> cr_id cr" "map_of (wa_routes w) l = Some x"
      by (auto simp: mount_route_changed [OF False] split: if_splits)
    then show "router_routes (wa_router (mount_route cr w)) (cr_segments x) = Some (cr_entry x)"
    proof cases
      case 1
      then show ?thesis by (simp add: mount_route_routes [OF False inv] split: option.split)
    next
      case 2
      have "cr_segments x \<noteq> cr_segments cr"
        using 2 d assms(2) unfolding owned_by_def by metis
      moreover have "cr_segments x \<noteq> cr_segments e" if "map_of (wa_routes w) (cr_id cr) = Some e" for e
        using 2 d that unfolding owned_by_def by metis
      ultimately show ?thesis
        using m 2 by (auto simp: mount_route_routes [OF False inv] all_mounted_def split: option.split)
    qed
  qed
  moreover have "owned_by owner (mount_route cr w)"
    using d assms(2) by (auto simp: owned_by_def mount_route_changed [OF False])
  ultimately show ?thesis
    using watch_base_mount [OF base] by (simp add: watch_inv_def)
qed

lemma mount_route_others:
  "k \<noteq> cr_id cr \<Longrightarrow> map_of (wa_routes (mount_route cr w)) k = map_of (wa_routes w) k"
  by (cases "unchanged_route cr w") (simp_all add: mount_route_unchanged mount_route_changed)

lemma container_route_fields [simp]:
  "cr_id (container_route_of mode u c) = ci_id c" "cr_prefix (container_route_of mode u c) = route_prefix_of mode c"
  by (simp_all add: container_route_of_def)

lemma register_container_frame [simp]:
  "wa_mode (register_container parse c w) = wa_mode w" "wa_client (register_container parse c w) = wa_client w"
  by (simp_all add: register_container_def split: option.split)

text \<open>No two containers claim the same route segments.\<close>

definition claims_ok :: "(string list \<Rightarrow> string) \<Rightarrow> string \<Rightarrow> container_info list \<Rightarrow> bool" where
  "claims_ok owner mode cs \<longleftrightarrow>
     (\<forall>c \<in> set cs. route_prefix_of mode c \<noteq> [] \<longrightarrow> owner (route_segments (route_prefix_of mode c)) = ci_id c)"

lemma watch_inv_register:
  "watch_inv owner w \<Longrightarrow> claims_ok owner (wa_mode w) [c] \<Longrightarrow> watch_inv owner (register_container parse c w)"
  by (auto simp: register_container_def claims_ok_def intro!: watch_inv_mount split: option.split)

lemma watch_inv_register_all:
  "watch_inv owner w \<Longrightarrow> claims_ok owner (wa_mode w) cs \<Longrightarrow>
     watch_inv owner (foldl (\<lambda>w c. register_container parse c w) w cs)"
proof (induction cs arbitrary: w)
  case (Cons c cs)
  then have "watch_inv owner (register_container parse c w)"
    by (intro watch_inv_register) (auto simp: claims_ok_def)
  with Cons show ?case by (simp add: claims_ok_def)
qed simp

lemma watch_inv_unregister_all:
  "watch_inv owner w \<Longrightarrow> watch_inv owner (foldl (\<lambda>w k. unregister_container k w) w ks)"
  by (induction ks arbitrary: w) (simp_all add: watch_inv_unregister)

lemma unregister_all_routes:
  "map_of (wa_routes (foldl (\<lambda>w k. unregister_container k w) w ks)) k =
     (if k \<in> set ks then None else map_of (wa_routes w) k)"
  by (induction ks arbitrary: w) auto

text \<open>What a registration leaves in the tracking map.\<close>

lemma register_tracks:
  assumes "route_prefix_of (wa_mode w) c \<noteq> []" "parse (target_url_text c) = Some u"
  shows "\<exists>cr. map_of (wa_routes (register_container parse c w)) (ci_id c) = Some cr
    \<and> cr_prefix cr = route_prefix_of (wa_mode w) c \<and> u_string (cr_target cr) = u_string u"
proof -
  let ?cr = "container_route_of (wa_mode w) u c"
  have r: "register_container parse c w = mount_route ?cr w"
    using assms by (simp add: register_container_def)
  show ?thesis
  proof (cases "unchanged_route ?cr w")
    case True
    then show ?thesis
      unfolding r mount_route_unchanged [OF True]
      by (auto simp: unchanged_route_def container_route_of_def split: option.splits)
  next
    case False
    then show ?thesis
      unfolding r by (simp add: mount_route_changed container_route_of_def)
  qed
qed

lemma register_others:
  "k \<noteq> ci_id c \<Longrightarrow> map_of (wa_routes (register_container parse c w)) k = map_of (wa_routes w) k"
  by (simp add: register_container_def mount_route_others split: option.split)

lemma register_all_others:
  "k \<notin> ci_id ` set cs \<Longrightarrow>
     map_of (wa_routes (foldl (\<lambda>w c. register_container parse c w) w cs)) k = map_of (wa_routes w) k"
  by (induction cs arbitrary: w) (auto simp: register_others)

lemma register_all_mode [simp]:
  "wa_mode (foldl (\<lambda>w c. register_container parse c w) w cs) = wa_mode w"
  by (induction cs arbitrary: w) simp_all

lemma register_all_tracks:
  assumes "distinct (map ci_id cs)" "c \<in> set cs"
    and "route_prefix_of (wa_mode w) c \<noteq> []" "parse (target_url_text c) = Some u"
  shows "\<exists>cr. map_of (wa_routes (foldl (\<lambda>w c. register_container parse c w) w cs)) (ci_id c) = Some cr
    \<and> cr_prefix cr = route_prefix_of (wa_mode w) c \<and> u_string (cr_target cr) = u_string u"
  using assms
proof (induction cs arbitrary: w)
  case (Cons d cs)
  show ?case
  proof (cases "d = c")
    case True
    with Cons.prems(1) have "ci_id c \<notin> ci_id ` set cs" by auto
    with register_tracks [where parse = parse, OF Cons.prems(3,4)] True show ?thesis
      by (simp add: register_all_others)
  next
    case False
    with Cons.prems show ?thesis
      using Cons.IH [of "register_container parse d w"] by simp
  qed
qed simp

definition listing_ok :: "(string list \<Rightarrow> string) \<Rightarrow> string \<Rightarrow> listing \<Rightarrow> bool" where
  "listing_ok owner mode l \<longleftrightarrow> (case l of Inl _ \<Rightarrow> True | Inr cs \<Rightarrow> claims_ok owner mode cs)"

definition round_ok ::
  "(string list \<Rightarrow> string) \<Rightarrow> string \<Rightarrow> ((listing \<times> docker_event) list \<times> listing) option \<Rightarrow> bool" where
  "round_ok owner mode rnd \<longleftrightarrow>
     (case rnd of None \<Rightarrow> True
      | Some (events, rescan) \<Rightarrow> (\<forall>(l, ev) \<in> set events. listing_ok owner mode l) \<and> listing_ok owner mode rescan)"

lemma new_watcher_inv: "watch_inv owner (new_watcher client (new_router []))"
proof -
  have "router_inv (new_router [])"
    using router_inv_new [of "[]"] by (simp add: closed_below_def)
  then show ?thesis
    by (simp add: watch_inv_def watch_base_def owned_by_def all_mounted_def new_watcher_def)
qed

lemma unregister_mode [simp]: "wa_mode (unregister_container k w) = wa_mode w"
  by (simp add: unregister_container_def Let_def split: option.split)

lemma unregister_all_mode [simp]:
  "wa_mode (foldl (\<lambda>w k. unregister_container k w) w ks) = wa_mode w"
  by (induction ks arbitrary: w) simp_all

lemma sync_mode [simp]: "wa_mode (fst (sync_containers parse l w)) = wa_mode w"
  by (simp add: sync_containers_def Let_def split: sum.split)

lemma watch_inv_sync:
  "watch_inv owner w \<Longrightarrow> listing_ok owner (wa_mode w) l \<Longrightarrow> watch_inv owner (fst (sync_containers parse l w))"
  by (auto simp: sync_containers_def Let_def listing_ok_def split: sum.split
      intro!: watch_inv_unregister_all watch_inv_register_all)

lemma handle_event_mode [simp]: "wa_mode (handle_event parse l ev w) = wa_mode w"
  by (simp add: handle_event_def split: docker_event.split)

lemma watch_inv_event:
  "watch_inv owner w \<Longrightarrow> listing_ok owner (wa_mode w) l \<Longrightarrow> watch_inv owner (handle_event parse l ev w)"
  by (auto simp: handle_event_def watch_inv_sync watch_inv_unregister split: docker_event.split)

lemma watch_inv_events:
  assumes "watch_inv owner w" "\<forall>(l, ev) \<in> set events. listing_ok owner (wa_mode w) l"
  shows "watch_inv owner (foldl (\<lambda>w (l, ev). handle_event parse l ev w) w events)
    \<and> wa_mode (foldl (\<lambda>w (l, ev). handle_event parse l ev w) w events) = wa_mode w"
  using assms by (induction events arbitrary: w) (auto simp: watch_inv_event)

lemma watch_inv_round:
  assumes "watch_inv owner w" "round_ok owner (wa_mode w) rnd"
  shows "watch_inv owner (event_round parse rnd w) \<and> wa_mode (event_round parse rnd w) = wa_mode w"
  using assms watch_inv_events [of owner w]
  by (auto simp: event_round_def round_ok_def intro!: watch_inv_sync split: option.split)

lemma watch_inv_rounds:
  assumes "watch_inv owner w" "\<forall>rnd \<in> set rounds. round_ok owner (wa_mode w) rnd"
  shows "watch_inv owner (foldl (\<lambda>w rnd. event_round parse rnd w) w rounds)"
  using assms watch_inv_round by (induction rounds arbitrary: w) fastforce+

section \<open>Properties\<close>

text \<open>
  from the initial sweep on, through any events, re-scans and failed connections, every tracked
  container is mounted under its own prefix with its own target, as long as no listing gives the
  same route to two containers.
\<close>

theorem watcher_run_keeps_routes_mounted:
  assumes "listing_ok owner ''strict'' sweep" "\<forall>rnd \<in> set rounds. round_ok owner ''strict'' rnd"
    and "w = start_watcher parse sweep rounds (new_watcher client (new_router []))"
    and "map_of (wa_routes w) k = Some cr"
  shows "\<exists>t. router_routes (wa_router w) (route_segments (cr_prefix cr)) = Some t
    \<and> rt_target t = cr_target cr \<and> rt_strip_prefix t = cr_strip_prefix cr"
proof -
  have "watch_inv owner (fst (sync_containers parse sweep (new_watcher client (new_router []))))"
    using assms(1) watch_inv_sync [OF new_watcher_inv] by (simp add: new_watcher_def)
  then have "watch_inv owner w"
    using assms(2,3) by (simp add: start_watcher_def Let_def watch_inv_rounds new_watcher_def)
  then have "router_routes (wa_router w) (route_segments (cr_prefix cr)) = Some (cr_entry cr)"
    using assms(4) by (simp add: watch_inv_def all_mounted_def)
  then show ?thesis by (simp add: cr_entry_def target_of_def)
qed

text \<open>
  when no route is claimed by two containers, a reconciliation leaves every tracked container
  mounted under its own prefix, tracks only running containers, and tracks every running one that
  asks for a route and has a parsable target.
\<close>

theorem sync_reconciles:
  assumes "watch_inv owner w" "wa_client w" "claims_ok owner (wa_mode w) cs" "distinct (map ci_id cs)"
    and "sync_containers parse (Inr cs) w = (w', err)"
  shows "err = None \<and> watch_inv owner w'
    \<and> (\<forall>k. map_of (wa_routes w') k \<noteq> None \<longrightarrow> k \<in> ci_id ` set cs)
    \<and> (\<forall>c \<in> set cs. \<forall>u. route_prefix_of (wa_mode w) c \<noteq> [] \<and> parse (target_url_text c) = Some u \<longrightarrow>
         (\<exists>t. router_routes (wa_router w') (route_segments (route_prefix_of (wa_mode w) c)) = Some t
            \<and> u_string (rt_target t) = u_string u))"
proof -
  define w1 where "w1 = foldl (\<lambda>w c. register_container parse c w) w cs"
  define dead where "dead = filter (\<lambda>k. k \<notin> ci_id ` set cs) (map fst (wa_routes w1))"
  have w': "w' = foldl (\<lambda>w k. unregister_container k w) w1 dead" "err = None"
    using assms(2,5) by (simp_all add: sync_containers_def Let_def w1_def dead_def)
  have inv: "watch_inv owner w'"
    unfolding w' w1_def by (intro watch_inv_unregister_all watch_inv_register_all assms)
  have routes: "map_of (wa_routes w') k = (if k \<in> ci_id ` set cs then map_of (wa_routes w1) k else None)" for k
  proof -
    have "k \<notin> fst ` set (wa_routes w1) \<Longrightarrow> map_of (wa_routes w1) k = None"
      by (simp add: map_of_eq_None_iff)
    then show ?thesis
      unfolding w' unregister_all_routes by (auto simp: dead_def)
  qed
  have "\<exists>t. router_routes (wa_router w') (route_segments (route_prefix_of (wa_mode w) c)) = Some t
      \<and> u_string (rt_target t) = u_string u"
    if c: "c \<in> set cs" and p: "route_prefix_of (wa_mode w) c \<noteq> []" and u: "parse (target_url_text c) = Some u" for c u
  proof -
    obtain cr where cr: "map_of (wa_routes w1) (ci_id c) = Some cr"
      "cr_prefix cr = route_prefix_of (wa_mode w) c" "u_string (cr_target cr) = u_string u"
      using register_all_tracks [where parse = parse, OF assms(4) c p u] unfolding w1_def by blast
    with c have "map_of (wa_routes w') (ci_id c) = Some cr" by (simp add: routes)
    with inv have "router_routes (wa_router w') (cr_segments cr) = Some (cr_entry cr)"
      by (simp add: watch_inv_def all_mounted_def)
    with cr show ?thesis by (simp add: cr_entry_def target_of_def)
  qed
  with inv w'(2) show ?thesis by (auto simp: routes split: if_splits)
qed

definition sample_container :: "string \<Rightarrow> string \<Rightarrow> container_info" where
  "sample_container cid path = \<lparr>ci_id = cid, ci_names = [''/web''], ci_labels = [(''devhub.route'', path)], ci_ports = []\<rparr>"

definition sample_parse :: "string \<Rightarrow> gurl option" where
  "sample_parse s = Some \<lparr>u_scheme = ''http'', u_host = drop 7 s, u_string = s\<rparr>"

theorem watcher_run_keeps_routes_mounted_witness:
  "\<exists>(w :: watcher) cr. map_of (wa_routes w) ''c1'' = Some cr \<and> cr_prefix cr = ''/web''
     \<and> router_routes (wa_router w) [''web''] \<noteq> None"
proof -
  let ?c = "sample_container ''c1'' ''/web''" and ?n = "new_watcher True (new_router [])"
  let ?w = "start_watcher sample_parse (Inr [?c]) [None] ?n"
  let ?cr = "container_route_of ''strict'' (the (sample_parse (target_url_text ?c))) ?c"
  have p: "route_prefix_of ''strict'' ?c = ''/web''"
    by (simp add: route_prefix_of_def sample_container_def str_map_get_def Let_def)
  have seg: "route_segments ''/web'' = [''web'']" by code_simp
  have n: "wa_mode ?n = ''strict''" "wa_client ?n" "wa_routes ?n = []" by (simp_all add: new_watcher_def)
  have id: "ci_id ?c = ''c1''" "cr_id ?cr = ''c1''" by (simp_all add: sample_container_def container_route_of_def)
  have reg: "register_container sample_parse ?c ?n = mount_route ?cr ?n"
    by (simp add: register_container_def n p sample_parse_def)
  have "\<not> unchanged_route ?cr ?n" by (simp add: unchanged_route_def n)
  then have routes: "wa_routes (mount_route ?cr ?n) = [(''c1'', ?cr)]"
    by (simp add: mount_route_changed n id)
  have "?w = mount_route ?cr ?n"
    by (simp add: start_watcher_def event_round_def sync_containers_def Let_def n reg routes id)
  then have cr: "map_of (wa_routes ?w) ''c1'' = Some ?cr" by (simp add: routes)
  have pref: "cr_prefix ?cr = ''/web''" by (simp add: container_route_of_def p)
  have ok: "listing_ok (\<lambda>_. ''c1'') ''strict'' (Inr [?c])" "\<forall>rnd \<in> set [None]. round_ok (\<lambda>_. ''c1'') ''strict'' rnd"
    by (simp_all add: listing_ok_def claims_ok_def round_ok_def id)
  have "\<exists>t. router_routes (wa_router ?w) (route_segments (cr_prefix ?cr)) = Some t"
    using watcher_run_keeps_routes_mounted [OF ok refl cr] by blast
  then have "router_routes (wa_router ?w) [''web''] \<noteq> None"
    unfolding pref seg by simp
  with cr pref show ?thesis by (intro exI [of _ ?w] exI [of _ ?cr] conjI)
qed

theorem sync_reconciles_witness:
  "\<exists>t. router_routes (wa_router (fst (sync_containers sample_parse
      (Inr [sample_container ''c1'' ''/web'', sample_container ''c2'' ''/api'']) (new_watcher True (new_router [])))))
      [''api''] = Some t \<and> u_string (rt_target t) = ''http://localhost:80''"
proof -
  let ?cs = "[sample_container ''c1'' ''/web'', sample_container ''c2'' ''/api'']"
  let ?w = "new_watcher True (new_router [])"
  let ?owner = "\<lambda>s. if s = [''web''] then ''c1'' else ''c2''"
  have p: "route_prefix_of (wa_mode ?w) (sample_container k path) = path" for k path
    by (simp add: route_prefix_of_def sample_container_def str_map_get_def new_watcher_def Let_def)
  have seg: "route_segments ''/web'' = [''web'']" "route_segments ''/api'' = [''api'']"
    by code_simp+
  have u: "target_url_text (sample_container k path) = ''http://localhost:80''" for k path
    by (simp add: target_url_text_def target_host_of_def target_port_of_def sample_container_def) code_simp
  obtain w' err where sy: "sync_containers sample_parse (Inr ?cs) ?w = (w', err)" by (metis prod.exhaust)
  have "claims_ok ?owner (wa_mode ?w) ?cs"
    by (simp add: claims_ok_def p seg) (simp add: sample_container_def)
  moreover have "wa_client ?w" "distinct (map ci_id ?cs)"
    by (simp_all add: new_watcher_def sample_container_def)
  ultimately have "\<forall>c \<in> set ?cs. \<forall>u. route_prefix_of (wa_mode ?w) c \<noteq> [] \<and> sample_parse (target_url_text c) = Some u \<longrightarrow>
         (\<exists>t. router_routes (wa_router w') (route_segments (route_prefix_of (wa_mode ?w) c)) = Some t
            \<and> u_string (rt_target t) = u_string u)"
    using sync_reconciles [OF new_watcher_inv _ _ _ sy] by blast
  then show ?thesis
    by (simp add: p seg u sample_parse_def sy)
qed

text \<open>
  when a container is re-created under a new id with the same route and the reconciliation sees
  both changes at once, the route is mounted for the new container and then removed with the old one:
  the running container is tracked but unreachable, and later reconciliations do not repair it.
\<close>

theorem recreated_container_loses_route:
  assumes "watch_base w" "wa_client w" "map fst (wa_routes w) = [old]" "map_of (wa_routes w) old = Some e"
    and "ci_id c \<noteq> old" "cr_segments e = route_segments (route_prefix_of (wa_mode w) c)"
    and "route_prefix_of (wa_mode w) c \<noteq> []" "parse (target_url_text c) = Some u"
  defines "w1 \<equiv> fst (sync_containers parse (Inr [c]) w)"
  shows "map_of (wa_routes w1) (ci_id c) = Some (container_route_of (wa_mode w) u c)
    \<and> router_routes (wa_router w1) (route_segments (route_prefix_of (wa_mode w) c)) = None
    \<and> sync_containers parse (Inr [c]) w1 = (w1, None)"
proof -
  let ?cr = "container_route_of (wa_mode w) u c" and ?w0 = "register_container parse c w"
  have reg: "?w0 = mount_route ?cr w" using assms(7,8) by (simp add: register_container_def)
  obtain x where routes: "wa_routes w = [(old, x)]"
    using assms(3) by (cases "wa_routes w") (auto simp: split_beta)
  have new: "map_of (wa_routes w) (ci_id c) = None"
    using routes assms(5) by simp
  then have ch: "\<not> unchanged_route ?cr w" by (simp add: unchanged_route_def)
  have r0: "wa_routes ?w0 = [(old, x), (ci_id c, ?cr)]"
    using routes assms(5) by (simp add: reg mount_route_changed [OF ch])
  have w1: "w1 = unregister_container old ?w0"
    using assms(2,5) by (simp add: w1_def sync_containers_def Let_def r0)
  have w1r: "wa_routes w1 = [(ci_id c, ?cr)]"
    using assms(5) by (simp add: w1 r0)
  have base: "watch_base ?w0" unfolding reg by (rule watch_base_mount [OF assms(1)])
  have "x = e" using assms(4) routes by simp
  then have gone: "router_routes (wa_router w1) (route_segments (route_prefix_of (wa_mode w) c)) = None"
    using base assms(6) by (simp add: w1 unregister_routes watch_base_def r0)
  have frame: "wa_mode w1 = wa_mode w" "wa_client w1 = wa_client w"
    by (simp_all add: w1 unregister_container_def Let_def split: option.split)
  have "register_container parse c w1 = w1"
    using assms(7,8) by (simp add: register_container_def frame mount_route_unchanged unchanged_route_def w1r)
  then have "sync_containers parse (Inr [c]) w1 = (w1, None)"
    using assms(2) by (simp add: sync_containers_def frame Let_def w1r)
  with gone w1r show ?thesis by simp
qed

theorem recreated_container_loses_route_witness:
  "\<exists>w. map fst (wa_routes w) = [''old''] \<and> router_routes (wa_router (fst (sync_containers sample_parse
     (Inr [sample_container ''new'' ''/web'']) w))) [''web''] = None"
proof -
  let ?start = "new_watcher True (new_router [])"
  let ?w = "register_container sample_parse (sample_container ''old'' ''/web'') ?start"
  have p: "route_prefix_of ''strict'' (sample_container k path) = path" for k path
    by (simp add: route_prefix_of_def sample_container_def str_map_get_def Let_def)
  have m: "wa_mode ?start = ''strict''" "wa_client ?start" by (simp_all add: new_watcher_def)
  have seg: "route_segments ''/web'' = [''web'']" by code_simp
  have reg: "?w = mount_route (container_route_of (wa_mode ?start) (the (sample_parse (target_url_text
      (sample_container ''old'' ''/web'')))) (sample_container ''old'' ''/web'')) ?start" (is "_ = mount_route ?cr _")
    by (simp add: register_container_def p m sample_parse_def)
  have "\<not> unchanged_route ?cr ?start"
    by (simp add: unchanged_route_def new_watcher_def)
  then have r: "wa_routes ?w = [(''old'', ?cr)]"
    by (simp add: reg mount_route_changed) (simp add: new_watcher_def container_route_of_def sample_container_def)
  have base: "watch_base ?w"
    using new_watcher_inv unfolding reg by (intro watch_base_mount) (simp add: watch_inv_def)
  have mode: "wa_mode ?w = ''strict''" and client: "wa_client ?w"
    using m by simp_all
  have id: "ci_id (sample_container ''new'' ''/web'') \<noteq> ''old''"
    by (simp add: sample_container_def)
  have keys: "map fst (wa_routes ?w) = [''old'']" "map_of (wa_routes ?w) ''old'' = Some ?cr"
    by (simp_all add: r)
  have pref: "cr_prefix ?cr = ''/web''"
    by (simp add: container_route_of_def m p)
  have claim: "cr_segments ?cr = route_segments (route_prefix_of (wa_mode ?w) (sample_container ''new'' ''/web''))"
    "route_prefix_of (wa_mode ?w) (sample_container ''new'' ''/web'') \<noteq> []"
    unfolding mode p pref by simp_all
  have parse: "sample_parse (target_url_text c) = Some (the (sample_parse (target_url_text c)))" for c
    by (simp add: sample_parse_def)
  have "router_routes (wa_router (fst (sync_containers sample_parse (Inr [sample_container ''new'' ''/web'']) ?w)))
      (route_segments (route_prefix_of (wa_mode ?w) (sample_container ''new'' ''/web''))) = None"
    using recreated_container_loses_route [where parse = sample_parse, OF base client keys id claim parse] by blast
  then have "router_routes (wa_router (fst (sync_containers sample_parse (Inr [sample_container ''new'' ''/web'']) ?w)))
      [''web''] = None"
    unfolding mode p seg .
  with keys(1) show ?thesis by (intro exI [of _ ?w] conjI)
qed

text \<open>
  in strict mode a container without a route label changes nothing at all, and registering a
  container twice changes nothing the second time.
\<close>

theorem strict_opt_in_and_idempotent:
  "(wa_mode w \<in> {[], ''strict''} \<and> str_map_get (ci_labels c) ''devhub.route'' = []
      \<and> str_map_get (ci_labels c) ''devhub.path'' = [] \<longrightarrow> register_container parse c w = w)
   \<and> register_container parse c (register_container parse c w) = register_container parse c w"
proof
  show "wa_mode w \<in> {[], ''strict''} \<and> str_map_get (ci_labels c) ''devhub.route'' = []
      \<and> str_map_get (ci_labels c) ''devhub.path'' = [] \<longrightarrow> register_container parse c w = w"
    by (auto simp: register_container_def route_prefix_of_def Let_def)
next
  show "register_container parse c (register_container parse c w) = register_container parse c w"
  proof (cases "route_prefix_of (wa_mode w) c = []")
    case True
    then show ?thesis by (simp add: register_container_def)
  next
    case False
    show ?thesis
    proof (cases "parse (target_url_text c)")
      case None
      then show ?thesis by (simp add: register_container_def)
    next
      case (Some u)
      let ?cr = "container_route_of (wa_mode w) u c"
      have "unchanged_route ?cr (mount_route ?cr w)"
        by (cases "unchanged_route ?cr w")
           (simp_all add: mount_route_unchanged, simp add: unchanged_route_def mount_route_changed)
      with False Some show ?thesis
        by (simp add: register_container_def mount_route_unchanged)
    qed
  qed
qed

theorem strict_opt_in_and_idempotent_witness:
  "register_container sample_parse \<lparr>ci_id = ''x'', ci_names = [''/web''], ci_labels = [], ci_ports = []\<rparr>
     (new_watcher True (new_router [])) = new_watcher True (new_router [])"
  using strict_opt_in_and_idempotent [of "new_watcher True (new_router [])"
      "\<lparr>ci_id = ''x'', ci_names = [''/web''], ci_labels = [], ci_ports = []\<rparr>" sample_parse]
  by (simp add: new_watcher_def str_map_get_def)

text \<open>
  when a container goes and comes back before the goroutine of its old log stream has returned,
  that goroutine deletes the entry of the new stream: the new stream runs, but neither removing the
  container nor \<open>Stop\<close> cancels it.
\<close>

theorem old_stream_orphans_new_one:
  assumes "wa_client w" "map_of (wa_streams w) cid = Some n" "n < wa_next_stream w"
  defines "w1 \<equiv> start_log_stream cid (unregister_container cid w)"
  defines "w2 \<equiv> stream_ends n cid w1"
  shows "(wa_next_stream w, cid) \<in> set (wa_live w2)
    \<and> (wa_next_stream w, cid) \<in> set (wa_live (unregister_container cid w2))
    \<and> (wa_next_stream w \<notin> snd ` set (wa_streams w) \<longrightarrow> (wa_next_stream w, cid) \<in> set (wa_live (stop_watcher w2)))"
proof -
  let ?u = "unregister_container cid w" and ?k = "wa_next_stream w"
  have u: "wa_client ?u" "wa_next_stream ?u = ?k" "wa_streams ?u = AList.delete cid (wa_streams w)"
    using assms(1,2) by (simp_all add: unregister_container_def Let_def cancel_stream_def split: option.split)
  have w1: "wa_live w1 = (?k, cid) # wa_live ?u"
    "wa_streams w1 = AList.update cid ?k (AList.delete cid (wa_streams w))"
    using u by (simp_all add: w1_def start_log_stream_def)
  have live: "(?k, cid) \<in> set (wa_live w2)" and st: "map_of (wa_streams w2) cid = None"
    using assms(3) by (simp_all add: w2_def stream_ends_def w1)
  have "wa_live (unregister_container cid w2) = wa_live w2"
    using st by (simp add: unregister_container_def Let_def cancel_stream_def split: option.split)
  moreover have "(?k, cid) \<in> set (wa_live (stop_watcher w2))" if "?k \<notin> snd ` set (wa_streams w)"
  proof -
    have "?k \<notin> snd ` set (wa_streams w2)"
    proof
      assume "?k \<in> snd ` set (wa_streams w2)"
      then obtain l where "(l, ?k) \<in> set (AList.delete cid (AList.update cid ?k (AList.delete cid (wa_streams w))))"
        by (auto simp: w2_def stream_ends_def w1)
      then have "l \<noteq> cid" "(l, ?k) \<in> set (AList.update cid ?k (AList.delete cid (wa_streams w)))"
        by (auto dest: set_delete_subset)
      then have "(l, ?k) \<in> set (wa_streams w)"
        by (auto dest!: set_update_cases set_delete_subset)
      with that show False by force
    qed
    with live show ?thesis by (simp add: stop_watcher_def)
  qed
  ultimately show ?thesis using live by simp
qed

theorem old_stream_orphans_new_one_witness:
  "(1, ''c'') \<in> set (wa_live (stop_watcher (stream_ends 0 ''c'' (start_log_stream ''c'' (unregister_container ''c''
     (start_log_stream ''c'' (new_watcher True (new_router []))))))))"
proof -
  let ?w = "start_log_stream ''c'' (new_watcher True (new_router []))"
  have "wa_client ?w" "map_of (wa_streams ?w) ''c'' = Some 0" "wa_next_stream ?w = 1" "wa_streams ?w = [(''c'', 0)]"
    by (simp_all add: start_log_stream_def new_watcher_def)
  with old_stream_orphans_new_one [of ?w "''c''" 0] show ?thesis by simp
qed

end
