(* ===== verification/Webhook.thy ===== *)
theory Webhook
  imports Prelude
begin

text \<open>
  Webhook signatures of src/pkg/webhook/signer.go. \<open>hmac\<close> is HMAC-SHA256 (key, then message), a
  parameter; the clock is an argument of every call that reads it, so that the two readings of
  \<open>ResignHeaders\<close> are visible. Header maps are association lists, in one iteration order.
\<close>

section \<open>Providers\<close>

definition provider_stripe :: string where "provider_stripe = ''stripe''"
definition provider_github :: string where "provider_github = ''github''"
definition provider_razorpay :: string where "provider_razorpay = ''razorpay''"
definition provider_shopify :: string where "provider_shopify = ''shopify''"
definition provider_slack :: string where "provider_slack = ''slack''"
definition provider_generic :: string where "provider_generic = ''generic_sha256''"

lemmas provider_defs = provider_stripe_def provider_github_def provider_razorpay_def
  provider_shopify_def provider_slack_def provider_generic_def

section \<open>Base64\<close>

definition base64_char :: "int \<Rightarrow> char" where
  "base64_char n = ''ABCDEFGHIJKLMNOPQRSTUVWXYZabcdefghijklmnopqrstuvwxyz0123456789+/'' ! nat (n mod 64)"

text \<open>\<open>base64.StdEncoding.EncodeToString\<close>.\<close>

fun base64_encode :: "byte list \<Rightarrow> string" where
  "base64_encode [] = []"
| "base64_encode [a] = [base64_char (uint a div 4), base64_char (uint a * 16), CHR ''='', CHR ''='']"
| "base64_encode [a, b] =
     [base64_char (uint a div 4), base64_char (uint a * 16 + uint b div 16), base64_char (uint b * 4), CHR ''='']"
| "base64_encode (a # b # c # rest) =
     [base64_char (uint a div 4), base64_char (uint a * 16 + uint b div 16),
      base64_char (uint b * 4 + uint c div 64), base64_char (uint c)] @ base64_encode rest"

section \<open>Operations\<close>

type_synonym hmac = "string \<Rightarrow> string \<Rightarrow> byte list"
type_synonym str_headers = "(string \<times> string) list"

text \<open>The text that is signed, the header and its value, for a timestamp \<open>ts\<close>.\<close>

definition calculate_signature ::
  "hmac \<Rightarrow> (string \<Rightarrow> string) \<Rightarrow> int \<Rightarrow> string \<Rightarrow> string \<Rightarrow> string \<Rightarrow> int \<Rightarrow> string + string \<times> string" where
  "calculate_signature hmac uni now provider secret payload custom_timestamp =
     (let ts = (if custom_timestamp \<le> 0 then now else custom_timestamp); pr = to_lower uni provider
      in if pr = provider_stripe
         then Inr (''Stripe-Signature'', ''t='' @ dec_of_int ts @ '',v1=''
                   @ hex_encode (hmac secret (dec_of_int ts @ ''.'' @ payload)))
         else if pr = provider_github
         then Inr (''X-Hub-Signature-256'', ''sha256='' @ hex_encode (hmac secret payload))
         else if pr = provider_razorpay
         then Inr (''X-Razorpay-Signature'', hex_encode (hmac secret payload))
         else if pr = provider_shopify
         then Inr (''X-Shopify-Hmac-Sha256'', base64_encode (hmac secret payload))
         else if pr = provider_slack
         then Inr (''X-Slack-Signature'', ''v0='' @ hex_encode (hmac secret (''v0:'' @ dec_of_int ts @ '':'' @ payload)))
         else if pr = provider_generic
         then Inr (''X-Signature-256'', hex_encode (hmac secret payload))
         else Inl (''unsupported webhook provider: '' @ provider))"

text \<open>\<open>now\<close> is the clock read inside \<open>CalculateSignature\<close>, \<open>now'\<close> the later one for Slack's header.\<close>

definition resign_headers ::
  "hmac \<Rightarrow> (string \<Rightarrow> string) \<Rightarrow> int \<Rightarrow> int \<Rightarrow> str_headers \<Rightarrow> string \<Rightarrow> string \<Rightarrow> string \<Rightarrow> str_headers \<times> string option" where
  "resign_headers hmac uni now now' headers provider secret payload =
     (case calculate_signature hmac uni now provider secret payload 0 of
        Inl err \<Rightarrow> (headers, Some err)
      | Inr (key, val) \<Rightarrow>
          (let out = AList.update key val headers;
               out = (if to_lower uni provider = provider_slack
                      then AList.update ''X-Slack-Request-Timestamp'' (dec_of_int now') out else out)
           in (AList.update ''X-DevHub-Resigned-Webhook'' provider out, None)))"

definition signature_keys :: "string list" where
  "signature_keys = [''stripe-signature'', ''x-hub-signature-256'', ''x-hub-signature'',
     ''x-razorpay-signature'', ''x-shopify-hmac-sha256'', ''x-slack-signature'']"

definition bypass_headers :: "(string \<Rightarrow> string) \<Rightarrow> str_headers \<Rightarrow> str_headers" where
  "bypass_headers uni headers =
     AList.update ''X-DevHub-Signature-Bypass'' ''true''
       (AList.update ''X-DevHub-Test-Mode'' ''true''
          (filter (\<lambda>(k, v). to_lower uni k \<notin> set signature_keys) headers))"

text \<open>The provider a lower-case header name stands for.\<close>

definition provider_of_key :: "string \<Rightarrow> string option" where
  "provider_of_key k =
     (if k = ''stripe-signature'' then Some provider_stripe
      else if k = ''x-hub-signature-256'' \<or> k = ''x-hub-signature'' then Some provider_github
      else if k = ''x-razorpay-signature'' then Some provider_razorpay
      else if k = ''x-shopify-hmac-sha256'' then Some provider_shopify
      else if k = ''x-slack-signature'' then Some provider_slack
      else None)"

fun detect_provider :: "(string \<Rightarrow> string) \<Rightarrow> str_headers \<Rightarrow> string" where
  "detect_provider uni [] = []"
| "detect_provider uni ((k, v) # hs) =
     (case provider_of_key (to_lower uni k) of Some p \<Rightarrow> p | None \<Rightarrow> detect_provider uni hs)"

section \<open>What a receiver checks\<close>

text \<open>
  The documented check of each provider: some timestamp explains the signature header, and for
  Slack it is the one the request carries.
\<close>

definition receiver_accepts :: "hmac \<Rightarrow> (string \<Rightarrow> string) \<Rightarrow> string \<Rightarrow> string \<Rightarrow> string \<Rightarrow> str_headers \<Rightarrow> bool" where
  "receiver_accepts hmac uni provider secret payload hs \<longleftrightarrow>
     (\<exists>ts key val. 0 < ts \<and> calculate_signature hmac uni ts provider secret payload ts = Inr (key, val)
        \<and> map_of hs key = Some val
        \<and> (to_lower uni provider = provider_slack
             \<longrightarrow> map_of hs ''X-Slack-Request-Timestamp'' = Some (dec_of_int ts)))"

lemma calculate_signature_clock:
  "0 < now \<Longrightarrow> calculate_signature hmac uni now provider secret payload 0
     = calculate_signature hmac uni now provider secret payload now"
  by (simp add: calculate_signature_def)

lemma calculate_key:
  "calculate_signature hmac uni now p secret payload ts = Inr (key, val) \<Longrightarrow>
     key \<noteq> ''X-DevHub-Resigned-Webhook'' \<and> key \<noteq> ''X-Slack-Request-Timestamp''"
  by (auto simp: calculate_signature_def Let_def split: if_splits)

lemma calculate_slack:
  "to_lower uni provider = provider_slack \<Longrightarrow> 0 < ts \<Longrightarrow>
     calculate_signature hmac uni now provider secret payload ts =
       Inr (''X-Slack-Signature'', ''v0='' @ hex_encode (hmac secret (''v0:'' @ dec_of_int ts @ '':'' @ payload)))"
  by (simp add: calculate_signature_def provider_defs)

section \<open>Decimal printing is injective\<close>

lemma dec_of_nat_not_Nil [simp]: "dec_of_nat n \<noteq> []" "[] \<noteq> dec_of_nat n"
  by (subst dec_of_nat.simps; simp)+

lemma digit_inj: "char_of (48 + a mod 10 :: nat) = (char_of (48 + b mod 10) :: char) \<Longrightarrow> a mod 10 = b mod 10"
proof -
  assume "char_of (48 + a mod 10 :: nat) = (char_of (48 + b mod 10) :: char)"
  then have "(48 + a mod 10) mod 256 = (48 + b mod 10) mod (256 :: nat)"
    by (metis of_char_of)
  moreover have "48 + a mod 10 < 256" "48 + b mod 10 < (256 :: nat)"
    by (simp_all add: order.strict_trans [of _ 10])
  ultimately show ?thesis by simp
qed

lemma dec_of_nat_snoc:
  "dec_of_nat n = (if n < 10 then [] else dec_of_nat (n div 10)) @ [char_of (48 + n mod 10)]"
  by (subst dec_of_nat.simps) simp

lemma dec_of_nat_inj: "dec_of_nat m = dec_of_nat n \<Longrightarrow> m = n"
proof (induction m arbitrary: n rule: less_induct)
  case (less m)
  have last: "m mod 10 = n mod 10"
    using less.prems digit_inj [of m n] by (simp add: dec_of_nat_snoc [of m] dec_of_nat_snoc [of n])
  have "m div 10 = n div 10"
  proof (cases "m < 10 \<or> n < 10")
    case True
    with less.prems have "m < 10 \<and> n < 10"
      by (auto simp: dec_of_nat_snoc [of m] dec_of_nat_snoc [of n] split: if_splits)
    then show ?thesis by simp
  next
    case False
    with less.prems have "dec_of_nat (m div 10) = dec_of_nat (n div 10)"
      by (simp add: dec_of_nat_snoc [of m] dec_of_nat_snoc [of n])
    with False show ?thesis by (intro less.IH) auto
  qed
  with last show ?case by (metis div_mult_mod_eq)
qed

lemma dec_of_int_inj: "0 < i \<Longrightarrow> 0 < j \<Longrightarrow> dec_of_int i = dec_of_int j \<Longrightarrow> i = j"
  by (auto simp: dec_of_int_def dest!: dec_of_nat_inj)

section \<open>Properties\<close>

text \<open>
  the receiver accepts re-signed headers for every supported provider except Slack, and for Slack
  exactly when both readings of the clock fall into the same second (for signatures that differ
  when the timestamp does); an unsupported provider leaves the headers as they were.
\<close>

theorem resigned_headers_accepted:
  assumes "0 < now" "0 < now'"
    and "resign_headers hmac uni now now' headers provider secret payload = (out, err)"
  shows "(err \<noteq> None \<longrightarrow> out = headers)
    \<and> (err = None \<and> to_lower uni provider \<noteq> provider_slack
        \<longrightarrow> receiver_accepts hmac uni provider secret payload out)
    \<and> (to_lower uni provider = provider_slack
        \<and> (now \<noteq> now' \<longrightarrow> hmac secret (''v0:'' @ dec_of_int now @ '':'' @ payload)
                          \<noteq> hmac secret (''v0:'' @ dec_of_int now' @ '':'' @ payload))
        \<longrightarrow> (receiver_accepts hmac uni provider secret payload out \<longleftrightarrow> now = now'))"
proof (cases "calculate_signature hmac uni now provider secret payload 0")
  case (Inl e)
  moreover have "to_lower uni provider \<noteq> provider_slack"
    using Inl by (auto simp: calculate_signature_def Let_def provider_defs)
  ultimately show ?thesis
    using assms(3) by (auto simp: resign_headers_def)
next
  case (Inr kv)
  then obtain key val where kv: "calculate_signature hmac uni now provider secret payload 0 = Inr (key, val)"
    by (cases kv) auto
  note keys = calculate_key [OF kv]
  show ?thesis
  proof (cases "to_lower uni provider = provider_slack")
    case False
    with kv assms(3) have "map_of out key = Some val" "err = None"
      using keys by (auto simp: resign_headers_def Let_def)
    with False kv assms(1) show ?thesis
      unfolding receiver_accepts_def by (auto simp: calculate_signature_clock)
  next
    case True
    let ?sig = "\<lambda>ts. ''v0='' @ hex_encode (hmac secret (''v0:'' @ dec_of_int ts @ '':'' @ payload))"
    have kv': "key = ''X-Slack-Signature''" "val = ?sig now"
      using kv calculate_slack [OF True assms(1), of hmac now secret payload]
      by (simp_all add: calculate_signature_clock [OF assms(1)])
    with kv True assms(3) have out: "map_of out ''X-Slack-Signature'' = Some (?sig now)"
      "map_of out ''X-Slack-Request-Timestamp'' = Some (dec_of_int now')" "err = None"
      by (auto simp: resign_headers_def Let_def)
    have "receiver_accepts hmac uni provider secret payload out \<longleftrightarrow> ?sig now' = ?sig now"
    proof
      assume "receiver_accepts hmac uni provider secret payload out"
      then obtain ts where "0 < ts" "map_of out ''X-Slack-Signature'' = Some (?sig ts)"
        "map_of out ''X-Slack-Request-Timestamp'' = Some (dec_of_int ts)"
        using True by (auto simp: receiver_accepts_def calculate_slack)
      with out assms(2) show "?sig now' = ?sig now"
        using dec_of_int_inj [of ts now'] by simp
    next
      assume "?sig now' = ?sig now"
      with out assms(2) True show "receiver_accepts hmac uni provider secret payload out"
        unfolding receiver_accepts_def
        by (intro exI [of _ now'] exI [of _ "''X-Slack-Signature''"] exI [of _ "?sig now'"])
           (simp add: calculate_slack)
    qed
    moreover have "?sig now' = ?sig now \<longleftrightarrow>
        hmac secret (''v0:'' @ dec_of_int now' @ '':'' @ payload) = hmac secret (''v0:'' @ dec_of_int now @ '':'' @ payload)"
      using hex_encode_inj by auto
    ultimately show ?thesis
      using True out(3) by auto
  qed
qed

text \<open>A stand-in for HMAC that keeps the message.\<close>

definition toy_hmac :: hmac where
  "toy_hmac secret msg = map (\<lambda>c. of_int (of_char c)) (secret @ msg)"

theorem resigned_headers_accepted_witness:
  "receiver_accepts toy_hmac id ''GitHub'' ''s'' ''{}''
     (fst (resign_headers toy_hmac id 7 8 [(''X-Hub-Signature-256'', ''stale'')] ''GitHub'' ''s'' ''{}''))
   \<and> \<not> receiver_accepts toy_hmac id ''slack'' ''s'' ''{}''
     (fst (resign_headers toy_hmac id 7 8 [] ''slack'' ''s'' ''{}''))"
proof
  have g: "to_lower id ''GitHub'' = ''github''" by code_simp
  obtain out err where r: "resign_headers toy_hmac id 7 8 [(''X-Hub-Signature-256'', ''stale'')] ''GitHub'' ''s'' ''{}''
      = (out, err)" by (metis prod.exhaust)
  moreover have "err = None"
    using r g by (auto simp: resign_headers_def calculate_signature_def provider_defs Let_def)
  ultimately show "receiver_accepts toy_hmac id ''GitHub'' ''s'' ''{}''
     (fst (resign_headers toy_hmac id 7 8 [(''X-Hub-Signature-256'', ''stale'')] ''GitHub'' ''s'' ''{}''))"
    using resigned_headers_accepted [OF _ _ r] g by (simp add: provider_slack_def)
next
  have s: "to_lower id ''slack'' = provider_slack" by code_simp
  obtain out err where r: "resign_headers toy_hmac id 7 8 [] ''slack'' ''s'' ''{}'' = (out, err)"
    by (metis prod.exhaust)
  have "toy_hmac ''s'' (''v0:'' @ dec_of_int 7 @ '':'' @ ''{}'') \<noteq> toy_hmac ''s'' (''v0:'' @ dec_of_int 8 @ '':'' @ ''{}'')"
    by code_simp
  then show "\<not> receiver_accepts toy_hmac id ''slack'' ''s'' ''{}''
     (fst (resign_headers toy_hmac id 7 8 [] ''slack'' ''s'' ''{}''))"
    using resigned_headers_accepted [OF _ _ r] s by (simp add: r)
qed

text \<open>
  bypassing removes every header whose name is a known signature header in any letter case, keeps
  all the others, and marks the request.
\<close>

theorem bypass_strips_signatures:
  assumes "map_ok headers"
  shows "(\<forall>k \<in> fst ` set (bypass_headers uni headers). to_lower uni k \<notin> set signature_keys)
    \<and> (\<forall>k v. map_of headers k = Some v \<longrightarrow> to_lower uni k \<notin> set signature_keys
         \<longrightarrow> k \<noteq> ''X-DevHub-Test-Mode'' \<longrightarrow> k \<noteq> ''X-DevHub-Signature-Bypass''
         \<longrightarrow> map_of (bypass_headers uni headers) k = Some v)
    \<and> map_of (bypass_headers uni headers) ''X-DevHub-Signature-Bypass'' = Some ''true''
    \<and> detect_provider uni (bypass_headers uni headers) = []"
proof -
  let ?out = "bypass_headers uni headers"
  have marks: "to_lower uni ''X-DevHub-Test-Mode'' \<notin> set signature_keys"
    "to_lower uni ''X-DevHub-Signature-Bypass'' \<notin> set signature_keys"
    by (simp_all add: to_lower_def is_ascii_def lower_char_def ascii_upper_def signature_keys_def char_of_eq_iff)
  have keys: "\<forall>k \<in> fst ` set ?out. to_lower uni k \<notin> set signature_keys"
    using marks by (auto simp: bypass_headers_def dom_update)
  have "provider_of_key k \<noteq> None \<Longrightarrow> k \<in> set signature_keys" for k
    by (auto simp: provider_of_key_def signature_keys_def split: if_splits)
  then have none: "\<forall>k \<in> fst ` set hs. to_lower uni k \<notin> set signature_keys \<Longrightarrow> detect_provider uni hs = []" for hs
    by (induction uni hs rule: detect_provider.induct) (fastforce split: option.split)+
  have "map_of (filter (\<lambda>(k, v). P k) hs) k = (if P k then map_of hs k else None)"
    for P :: "string \<Rightarrow> bool" and hs :: str_headers and k
    by (induction hs) auto
  then show ?thesis
    using keys none [OF keys] by (auto simp: bypass_headers_def)
qed

theorem bypass_strips_signatures_witness:
  "map_of (bypass_headers id [(''STRIPE-Signature'', ''x''), (''Accept'', ''*'')]) ''Accept'' = Some ''*''
   \<and> detect_provider id (bypass_headers id [(''STRIPE-Signature'', ''x''), (''Accept'', ''*'')]) = []"
proof -
  have "to_lower id ''Accept'' \<notin> set signature_keys" by code_simp
  then show ?thesis
    using bypass_strips_signatures [of "[(''STRIPE-Signature'', ''x''), (''Accept'', ''*'')]" id] by simp
qed

text \<open>
  the header that \<open>CalculateSignature\<close> writes for the generic provider is one that neither
  \<open>BypassHeaders\<close> removes nor \<open>DetectProvider\<close> recognises.
\<close>

theorem generic_signature_survives_bypass:
  "\<exists>key val. calculate_signature hmac uni now provider_generic secret payload ts = Inr (key, val)
     \<and> (key, v) \<in> set (bypass_headers uni [(key, v)]) \<and> detect_provider uni [(key, v)] = []"
proof -
  have l: "to_lower uni provider_generic = provider_generic" "to_lower uni ''X-Signature-256'' = ''x-signature-256''"
    by (simp_all add: to_lower_def is_ascii_def lower_char_def ascii_upper_def provider_generic_def char_of_eq_iff)
  then show ?thesis
    by (simp add: calculate_signature_def provider_defs bypass_headers_def signature_keys_def provider_of_key_def)
qed

end
