(* ===== verification/Engine.thy ===== *)
theory Engine
  imports Route_Match Ring_Buffer Trace_Context Health Mock_Rules Capture Egress_Policy Redactor
begin

text \<open>
  The proxy engine of src/pkg/proxy/engine.go: \<open>ServeHTTP\<close> with its mock, routed, WebSocket,
  forward-proxy and CONNECT branches, and the telemetry they emit. A request is served in one step;
  what the surroundings answer during it (upstreams, dialers, the clock, pooled objects, the router
  at the moment \<open>Rewrite\<close> runs) is the record \<open>world\<close>. The result holds the new engine, what the
  client's writer received, what was sent upstream, and whether the handler panicked.
  \<open>httputil.ReverseProxy\<close> enters through what it makes of one request: the calls on its response
  writer, a transport error, or a response that breaks off, on which it panics.
\<close>

section \<open>Engine, request and surroundings\<close>

text \<open>
  \<open>eg_sent\<close> are the events passed to the broadcast callback, \<open>eg_notices\<close> the health notifications.
  \<open>eg_forward_policy\<close> is the policy captured by the dialer of \<open>ForwardTransport\<close>.
\<close>

record engine =
  eg_router :: router
  eg_ring :: "ring_buffer option"
  eg_health :: "health_monitor option"
  eg_mocks :: "mock_rules option"
  eg_broadcast :: bool
  eg_redact :: bool
  eg_policy :: "egress_policy option"
  eg_forward_policy :: "egress_policy option"
  eg_ids :: id_counters
  eg_seq :: u64
  eg_sent :: "trace_event list"
  eg_notices :: "target_health list"

definition new_engine :: "router \<Rightarrow> ring_buffer option \<Rightarrow> bool \<Rightarrow> id_counters \<Rightarrow> u64 \<Rightarrow> engine" where
  "new_engine r ring broadcaster ids sq =
     (let sec_policy = new_egress_policy egress_mode_metadata True
      in \<lparr>eg_router = r, eg_ring = ring, eg_health = Some new_health_monitor, eg_mocks = Some new_mocks,
          eg_broadcast = broadcaster, eg_redact = True, eg_policy = Some sec_policy,
          eg_forward_policy = Some sec_policy, eg_ids = ids, eg_seq = sq, eg_sent = [], eg_notices = []\<rparr>)"

record request =
  rq_method :: string
  rq_scheme :: string
  rq_url_host :: string
  rq_path :: string
  rq_raw_query :: string
  rq_url_string :: string
  rq_host :: string
  rq_remote_addr :: string
  rq_tls :: bool
  rq_header :: header
  rq_has_body :: bool

text \<open>A request as it leaves for an upstream.\<close>

record outbound =
  ob_scheme :: string
  ob_url_host :: string
  ob_path :: string
  ob_raw_query :: string
  ob_host :: string
  ob_header :: header

datatype proxy_outcome =
  Relayed header "capturer_op list"
| RoundTripError string
| BrokenOff header "capturer_op list"

record forward_response =
  fr_status :: int
  fr_header :: header
  fr_reads :: "(string \<times> string option) list"

text \<open>
  The surroundings of one request. \<open>wo_clean\<close> is the outgoing header as \<open>ReverseProxy\<close> prepares it;
  \<open>wo_hijack\<close> an error, or the bytes already buffered by the server and those that follow;
  \<open>wo_pipe\<close> how many bytes the two copy loops moved, to and from the upstream, until the first ended.
\<close>

record world =
  wo_now :: int
  wo_stamp :: string
  wo_duration :: int
  wo_rnd :: "byte list"
  wo_late_rnd :: "byte list"
  wo_late_router :: router
  wo_redact :: redact_env
  wo_egress :: egress_env
  wo_req_buf :: capture_buffer
  wo_resp_buf :: capture_buffer
  wo_capturer :: response_capturer
  wo_clean :: "header \<Rightarrow> header"
  wo_upstream :: "int \<Rightarrow> outbound \<Rightarrow> proxy_outcome"
  wo_reads :: "(string \<times> string option) list"
  wo_new_request :: "string option"
  wo_idna :: "string \<Rightarrow> string"
  wo_dial_ip :: "ip_addr \<times> string \<Rightarrow> string + unit"
  wo_dial_host :: "string \<Rightarrow> string + unit"
  wo_dial_tls :: "string \<Rightarrow> string \<Rightarrow> string + unit"
  wo_forward :: "string \<Rightarrow> header \<Rightarrow> string + forward_response"
  wo_hijack :: "string + string \<times> string"
  wo_upstream_bytes :: string
  wo_pipe :: "nat \<times> nat"
  wo_ws_write :: "string option"
  wo_ws_response :: "string + int \<times> header \<times> string"
  wo_ws_reply :: "string option"

text \<open>What left the engine towards upstreams, in order.\<close>

datatype contact =
  Routed outbound
| DialedIp "ip_addr \<times> string"
| DialedHost string
| Forwarded string header
| Upgraded outbound
| Piped string

text \<open>The client's side: the response header, the writer, and the bytes on a hijacked connection.\<close>

record client =
  cl_header :: header
  cl_writer :: response_writer
  cl_conn :: string

record serve_result =
  sr_engine :: engine
  sr_client :: client
  sr_out :: "contact list"
  sr_panic :: bool

abbreviation served :: "engine \<Rightarrow> client \<Rightarrow> contact list \<Rightarrow> serve_result" where
  "served e cl out \<equiv> \<lparr>sr_engine = e, sr_client = cl, sr_out = out, sr_panic = False\<rparr>"

abbreviation panicked :: "engine \<Rightarrow> client \<Rightarrow> contact list \<Rightarrow> serve_result" where
  "panicked e cl out \<equiv> \<lparr>sr_engine = e, sr_client = cl, sr_out = out, sr_panic = True\<rparr>"

section \<open>Writing to the client\<close>

text \<open>\<open>WriteHeader\<close> of net/http panics on any other code.\<close>

definition valid_status :: "int \<Rightarrow> bool" where
  "valid_status code \<longleftrightarrow> 100 \<le> code \<and> code \<le> 999"

definition newline :: char where "newline = char_of (10 :: int)"

definition crlf :: string where "crlf = [char_of (13 :: int), char_of (10 :: int)]"

text \<open>
  What net/http sends as the status of the response: the first status that is not informational (101
  is final), or 200 when the body, a flush or the end of the handler comes first.
\<close>

definition informational :: "int \<Rightarrow> bool" where
  "informational code \<longleftrightarrow> 100 \<le> code \<and> code \<le> 199 \<and> code \<noteq> 101"

fun final_status :: "writer_call list \<Rightarrow> int" where
  "final_status [] = 200"
| "final_status (HeaderCall code # cs) = (if informational code then final_status cs else code)"
| "final_status (WriteCall b # cs) = 200"
| "final_status (FlushCall # cs) = 200"

text \<open>The header edits of \<open>http.Error\<close>.\<close>

definition error_header :: "header \<Rightarrow> header" where
  "error_header h =
     hdr_set (hdr_set (hdr_del h ''Content-Length'') ''Content-Type'' ''text/plain; charset=utf-8'')
       ''X-Content-Type-Options'' ''nosniff''"

definition http_error :: "string \<Rightarrow> int \<Rightarrow> client \<Rightarrow> client" where
  "http_error msg code cl =
     cl\<lparr>cl_header := error_header (cl_header cl),
        cl_writer := writer_call (writer_call (cl_writer cl) (HeaderCall code)) (WriteCall (msg @ [newline]))\<rparr>"

definition mock_header :: "string \<Rightarrow> mock_rule \<Rightarrow> header \<Rightarrow> header" where
  "mock_header mark rule h =
     hdr_set (foldl (\<lambda>h (k, v). hdr_set h k v) h (case mr_headers rule of Some hs \<Rightarrow> hs | None \<Rightarrow> [])) mark ''true''"

text \<open>The header, the status and the body of a mock rule; \<open>None\<close> is the panic of \<open>WriteHeader\<close>.\<close>

definition mock_reply :: "string \<Rightarrow> mock_rule \<Rightarrow> client \<Rightarrow> client option" where
  "mock_reply mark rule cl =
     (if valid_status (mr_status_code rule)
      then Some (cl\<lparr>cl_header := mock_header mark rule (cl_header cl),
                    cl_writer := writer_call (writer_call (cl_writer cl) (HeaderCall (mr_status_code rule)))
                                   (WriteCall (mr_body rule))\<rparr>)
      else None)"

section \<open>Telemetry\<close>

definition redact_event :: "redact_env \<Rightarrow> trace_event \<Rightarrow> trace_event" where
  "redact_event env ev =
     ev\<lparr>ev_req_headers := redact_headers (re_lower env) (ev_req_headers ev),
        ev_resp_headers := redact_headers (re_lower env) (ev_resp_headers ev),
        ev_request_body := redact_body env (ev_request_body ev),
        ev_response_body := redact_body env (ev_response_body ev)\<rparr>"

definition emit_trace_event :: "redact_env \<Rightarrow> trace_event \<Rightarrow> engine \<Rightarrow> engine" where
  "emit_trace_event env ev e =
     (let ev = (if eg_redact e then redact_event env ev else ev);
          e = e\<lparr>eg_ring := map_option (\<lambda>r. ring_push r ev) (eg_ring e)\<rparr>
      in if eg_broadcast e then e\<lparr>eg_sent := eg_sent e @ [ev]\<rparr> else e)"

text \<open>The event literal of a branch: its id comes from \<open>fastTraceID\<close>, the rest from the branch.\<close>

definition emit_new :: "world \<Rightarrow> trace_event \<Rightarrow> engine \<Rightarrow> engine" where
  "emit_new w ev e =
     (let (i, sq) = fast_trace_id (eg_seq e)
      in emit_trace_event (wo_redact w)
           (ev\<lparr>ev_id := i, ev_timestamp := wo_stamp w, ev_duration := wo_duration w\<rparr>) (e\<lparr>eg_seq := sq\<rparr>))"

definition request_event :: "request \<Rightarrow> string \<Rightarrow> string \<Rightarrow> int \<Rightarrow> trace_event" where
  "request_event rq trace_id target status =
     zero_event\<lparr>ev_trace_id := trace_id, ev_method := rq_method rq, ev_path := rq_path rq,
                ev_target := target, ev_status := status, ev_req_headers := extract_headers (rq_header rq)\<rparr>"

text \<open>\<open>ExtractOrGenerateContext\<close> on the engine's counters.\<close>

definition trace_context_of :: "world \<Rightarrow> header \<Rightarrow> engine \<Rightarrow> trace_context \<times> engine" where
  "trace_context_of w h e =
     (let (ctx, ids) = extract_or_generate_context (wo_rnd w) h (eg_ids e) in (ctx, e\<lparr>eg_ids := ids\<rparr>))"

section \<open>Mocks, unrouted requests and the circuit breaker\<close>

definition mock_for :: "string \<Rightarrow> engine \<Rightarrow> mock_rule option" where
  "mock_for path e =
     (case eg_mocks e of
        None \<Rightarrow> None
      | Some m \<Rightarrow> (case get_rule path m of
                    Some rule \<Rightarrow> if mr_enabled rule then Some rule else None
                  | None \<Rightarrow> None))"

text \<open>An enabled rule answers and is recorded under \<open>target\<close>.\<close>

definition serve_mock :: "world \<Rightarrow> string \<Rightarrow> string \<Rightarrow> mock_rule \<Rightarrow> request \<Rightarrow> engine \<Rightarrow> client \<Rightarrow> serve_result" where
  "serve_mock w mark target rule rq e cl =
     (case mock_reply mark rule cl of
        None \<Rightarrow> panicked e cl []
      | Some cl \<Rightarrow>
          (let ((trace_id, _, _, _), e) = trace_context_of w (rq_header rq) e
           in served (emit_new w ((request_event rq trace_id target (mr_status_code rule))
                        \<lparr>ev_resp_headers := (case mr_headers rule of Some hs \<Rightarrow> hs | None \<Rightarrow> []),
                         ev_response_body := mr_body rule\<rparr>) e) cl []))"

definition serve_unrouted :: "world \<Rightarrow> request \<Rightarrow> engine \<Rightarrow> client \<Rightarrow> serve_result" where
  "serve_unrouted w rq e cl =
     (let ((trace_id, _, _, _), e) = trace_context_of w (rq_header rq) e;
          cl = http_error (''DevHub: No registered route for path '' @ rq_path rq) 404 cl
      in served (emit_new w ((request_event rq trace_id ''[No Route Matched]'' 404)
                   \<lparr>ev_resp_headers := [(''Content-Type'', ''text/plain; charset=utf-8'')]\<rparr>) e) cl [])"

definition serve_broken :: "world \<Rightarrow> route_target \<Rightarrow> request \<Rightarrow> engine \<Rightarrow> client \<Rightarrow> serve_result" where
  "serve_broken w t rq e cl =
     (case mock_for (rq_path rq) e of
        Some rule \<Rightarrow>
          serve_mock w ''X-DevHub-Mock-Fallback'' (''[Circuit Broken Fallback] '' @ u_string (rt_target t)) rule rq e cl
      | None \<Rightarrow>
          (let ((trace_id, _, _, _), e) = trace_context_of w (rq_header rq) e;
               cl = http_error (''DevHub: Upstream '' @ u_string (rt_target t)
                      @ '' is currently marked UNHEALTHY (Circuit Broken)'') 503 cl
           in served (emit_new w (request_event rq trace_id (''[Circuit Broken] '' @ u_string (rt_target t)) 503) e) cl []))"

section \<open>Routed requests\<close>

text \<open>\<open>SetXForwarded\<close>.\<close>

definition set_x_forwarded :: "request \<Rightarrow> header \<Rightarrow> header" where
  "set_x_forwarded rq h =
     (let h = (case split_host_port (rq_remote_addr rq) of
                 Inr (ip, _) \<Rightarrow>
                   hdr_set h ''X-Forwarded-For''
                     (case map_of h ''X-Forwarded-For'' of
                        Some (p # ps) \<Rightarrow> join_with '', '' (p # ps) @ '', '' @ ip
                      | _ \<Rightarrow> ip)
               | Inl _ \<Rightarrow> hdr_del h ''X-Forwarded-For'')
      in hdr_set (hdr_set h ''X-Forwarded-Host'' (rq_host rq)) ''X-Forwarded-Proto''
           (if rq_tls rq then ''https'' else ''http''))"

text \<open>
  \<open>Rewrite\<close> matches the path again, on the router as it is by then, and derives a second context.
  \<open>SetURL\<close> points the request at the target and clears \<open>Host\<close>, which then defaults to it.
\<close>

definition rewrite_request ::
  "world \<Rightarrow> request \<Rightarrow> header \<Rightarrow> id_counters \<Rightarrow> outbound option \<times> id_counters" where
  "rewrite_request w rq h ids =
     (case match_route (wo_late_router w) (rq_path rq) of
        None \<Rightarrow> (None, ids)
      | Some (route, out_path) \<Rightarrow>
          (let (ctx, ids) = extract_or_generate_context (wo_late_rnd w) h ids
           in (Some \<lparr>ob_scheme = u_scheme (rt_target route), ob_url_host = u_host (rt_target route),
                     ob_path = out_path, ob_raw_query = rq_raw_query rq, ob_host = u_host (rt_target route),
                     ob_header = set_x_forwarded rq (stamp_headers ctx (wo_clean w h))\<rparr>, ids)))"

text \<open>
  \<open>ErrorHandler\<close> on the capturing writer: \<open>ReverseProxy\<close> hands it the outgoing request, so \<open>path\<close> is
  the rewritten path. The third component is whether \<open>WriteHeader\<close> panicked.
\<close>

definition error_handler ::
  "engine \<Rightarrow> string \<Rightarrow> string \<Rightarrow> header \<Rightarrow> response_capturer \<Rightarrow> header \<times> response_capturer \<times> bool" where
  "error_handler e path err h rw =
     (case mock_for path e of
        Some rule \<Rightarrow>
          if valid_status (mr_status_code rule) \<or> rc_wrote_head rw
          then (mock_header ''X-DevHub-Mock-Fallback'' rule h,
                foldl capturer_step rw [DoHeader (mr_status_code rule), DoWrite (mr_body rule)], False)
          else (mock_header ''X-DevHub-Mock-Fallback'' rule h, rw, True)
      | None \<Rightarrow>
          (error_header h,
           foldl capturer_step rw [DoHeader 502, DoWrite (''DevHub Gateway Error: '' @ err @ [newline])], False))"

text \<open>\<open>HTTPProxy.ServeHTTP(rw, req)\<close>: header, capturer, whether it panicked, what was sent, counters.\<close>

definition run_proxy ::
  "world \<Rightarrow> int \<Rightarrow> request \<Rightarrow> header \<Rightarrow> engine \<Rightarrow> header \<Rightarrow> response_capturer \<Rightarrow>
   header \<times> response_capturer \<times> bool \<times> contact list \<times> engine" where
  "run_proxy w timeout_ms rq h e rh rw =
     (let (ob, ids) = rewrite_request w rq h (eg_ids e); e = e\<lparr>eg_ids := ids\<rparr>
      in case ob of
           None \<Rightarrow>
             (let (rh, rw, p) = error_handler e (rq_path rq) (''unsupported protocol scheme '' @ [CHR 0x22, CHR 0x22]) rh rw
              in (rh, rw, p, [], e))
         | Some ob \<Rightarrow>
             (case wo_upstream w timeout_ms ob of
                Relayed rh ops \<Rightarrow> (rh, foldl capturer_step rw ops, False, [Routed ob], e)
              | BrokenOff rh ops \<Rightarrow> (rh, foldl capturer_step rw ops, True, [Routed ob], e)
              | RoundTripError err \<Rightarrow>
                  (let (rh, rw, p) = error_handler e (ob_path ob) err rh rw
                   in (rh, rw, p, [Routed ob], e))))"

text \<open>The health report after the proxy has returned.\<close>

definition report_health :: "world \<Rightarrow> gurl \<Rightarrow> int \<Rightarrow> engine \<Rightarrow> engine" where
  "report_health w u status e =
     (case eg_health e of
        None \<Rightarrow> e
      | Some h \<Rightarrow>
          (let (h, notes) = (if 500 \<le> status then record_failure (wo_now w) (Some u) h
                             else record_success (wo_now w) (Some u) h)
           in e\<lparr>eg_health := Some h, eg_notices := eg_notices e @ notes\<rparr>))"

definition serve_routed ::
  "world \<Rightarrow> route_target \<Rightarrow> string \<Rightarrow> request \<Rightarrow> engine \<Rightarrow> client \<Rightarrow> serve_result" where
  "serve_routed w t out_path rq e cl =
     (let (ctx, e) = trace_context_of w (rq_header rq) e;
          h = stamp_headers ctx (rq_header rq);
          rq = rq\<lparr>rq_header := h\<rparr>;
          req_cap = (if rq_has_body rq then Some (capture_reset (wo_req_buf w)) else None);
          (_, req_cap) = sniffer_reads req_cap (wo_reads w);
          rw = capturer_reset (wo_capturer w) (cl_writer cl);
          (rh, rw, panicking, out, e) = run_proxy w (rt_timeout_ms t) rq h e (cl_header cl) rw;
          cl = cl\<lparr>cl_header := rh, cl_writer := rc_writer rw\<rparr>
      in if panicking then panicked e cl out
         else (let e = report_health w (rt_target t) (rc_status_code rw) e
               in served (emit_new w ((request_event rq (fst ctx) (u_string (rt_target t) @ out_path) (rc_status_code rw))
                            \<lparr>ev_resp_headers := extract_headers rh,
                             ev_request_body := (case req_cap of Some c \<Rightarrow> capture_string c | None \<Rightarrow> []),
                             ev_response_body := capturer_string rw\<rparr>) e) cl out))"

end
