(* ===== verification/Engine_Serve.thy ===== *)
theory Engine_Serve
  imports Engine
begin

text \<open>
  The remaining branches of \<open>ServeHTTP\<close> in src/pkg/proxy/engine.go, which bypass \<open>ReverseProxy\<close>:
  forward-proxied HTTP, CONNECT tunnels and WebSocket upgrades, and \<open>ServeHTTP\<close> itself.
\<close>

section \<open>Forward proxy\<close>

text \<open>
  The dialer of \<open>ForwardTransport\<close>; every request is taken to need a connection of its own.
\<close>

definition dial_by_policy ::
  "world \<Rightarrow> egress_policy option \<Rightarrow> string \<Rightarrow> (string + unit) \<times> contact list" where
  "dial_by_policy w policy addr =
     (case policy of
        Some p \<Rightarrow> map_prod id (map DialedIp) (dial_validated (wo_dial_ip w) (wo_egress w) p addr)
      | None \<Rightarrow> (wo_dial_host w addr, [DialedHost addr]))"

text \<open>
  \<open>ForwardTransport.RoundTrip\<close> for the request's URL: \<open>http.Transport\<close> refuses other schemes and an
  empty host, derives the address from the URL, and dials it through the dialer above.
\<close>

definition forward_round_trip ::
  "world \<Rightarrow> request \<Rightarrow> header \<Rightarrow> engine \<Rightarrow> (string + forward_response) \<times> contact list" where
  "forward_round_trip w rq h e =
     (if rq_scheme rq \<noteq> ''http'' \<and> rq_scheme rq \<noteq> ''https''
      then (Inl (''unsupported protocol scheme '' @ go_quote (wo_egress w) (rq_scheme rq)), [])
      else if rq_url_host rq = [] then (Inl ''http: no Host in request URL'', [])
      else (case dial_by_policy w (eg_forward_policy e)
                   (canonical_addr (wo_idna w) (rq_scheme rq) (rq_url_host rq)) of
              (Inl err, dials) \<Rightarrow> (Inl err, dials)
            | (Inr _, dials) \<Rightarrow>
                (wo_forward w (rq_url_string rq) h, dials @ [Forwarded (rq_url_string rq) h])))"

text \<open>The streaming loop: the chunks the upstream delivers, until an error of either side.\<close>

fun stream_chunks ::
  "capture_buffer \<Rightarrow> response_writer \<Rightarrow> (string \<times> string option) list \<Rightarrow> capture_buffer \<times> response_writer" where
  "stream_chunks c w [] = (c, w)"
| "stream_chunks c w ((chunk, r_err) # rest) =
     (if chunk = [] then (if r_err \<noteq> None then (c, w) else stream_chunks c w rest)
      else if snd (rw_result w chunk) \<noteq> None
      then (capture_write c chunk, writer_call w (WriteCall chunk))
      else if r_err \<noteq> None
      then (capture_write c chunk,
            if rw_flusher w then writer_call (writer_call w (WriteCall chunk)) FlushCall
            else writer_call w (WriteCall chunk))
      else stream_chunks (capture_write c chunk)
            (if rw_flusher w then writer_call (writer_call w (WriteCall chunk)) FlushCall
             else writer_call w (WriteCall chunk)) rest)"

definition copy_response_header :: "header \<Rightarrow> header \<Rightarrow> header" where
  "copy_response_header src dst = foldl (\<lambda>h (k, vs). foldl (\<lambda>h v. hdr_add h k v) h vs) dst src"

text \<open>\<open>outboundReq.Header[k] = v\<close> for every field: the header arrives as it is.\<close>

definition copy_request_header :: "header \<Rightarrow> header" where
  "copy_request_header src = foldl (\<lambda>h (k, vs). AList.update k vs h) [] src"

definition handle_forward_proxy_http :: "world \<Rightarrow> request \<Rightarrow> engine \<Rightarrow> client \<Rightarrow> serve_result" where
  "handle_forward_proxy_http w rq e cl =
     (let (ctx, e) = trace_context_of w (rq_header rq) e;
          h = hdr_set (stamp_headers ctx (rq_header rq)) ''X-DevHub-Egress'' ''true'';
          rq = rq\<lparr>rq_header := h\<rparr>;
          req_cap = (if rq_has_body rq then Some (capture_reset (wo_req_buf w)) else None)
      in case wo_new_request w of
           Some err \<Rightarrow> served e (http_error err 500 cl) []
         | None \<Rightarrow>
             (let (_, req_cap) = sniffer_reads req_cap (wo_reads w);
                  req_body = (case req_cap of Some c \<Rightarrow> capture_string c | None \<Rightarrow> []);
                  place = rq_url_host rq @ rq_path rq
              in case forward_round_trip w rq (copy_request_header h) e of
                   (Inl err, out) \<Rightarrow>
                     served (emit_new w ((request_event rq (fst ctx) (''[Egress Error] '' @ place) 502)
                               \<lparr>ev_request_body := req_body\<rparr>) e)
                       (http_error (''DevHub Egress Proxy Error: '' @ err) 502 cl) out
                 | (Inr resp, out) \<Rightarrow>
                     (let cl = cl\<lparr>cl_header := copy_response_header (fr_header resp) (cl_header cl)\<rparr>
                      in if \<not> valid_status (fr_status resp) then panicked e cl out
                         else (let (resp_cap, wr) = stream_chunks (capture_reset (wo_resp_buf w))
                                     (writer_call (cl_writer cl) (HeaderCall (fr_status resp))) (fr_reads resp)
                               in served (emit_new w ((request_event rq (fst ctx) (''[Egress Cascade] '' @ place)
                                            (fr_status resp))
                                            \<lparr>ev_resp_headers := extract_headers (fr_header resp),
                                             ev_request_body := req_body,
                                             ev_response_body := capture_string resp_cap\<rparr>) e)
                                    (cl\<lparr>cl_writer := wr\<rparr>) out))))"

section \<open>CONNECT tunnels\<close>

text \<open>The tunnel's events carry only some fields of the request.\<close>

definition connect_event :: "request \<Rightarrow> string \<Rightarrow> int \<Rightarrow> trace_event" where
  "connect_event rq target status =
     zero_event\<lparr>ev_method := ''CONNECT'', ev_path := rq_url_host rq, ev_target := target, ev_status := status\<rparr>"

definition connect_error_status :: "string \<Rightarrow> int" where
  "connect_error_status err =
     (if str_contains err ''blocked'' \<or> str_contains err ''forbidden'' then 403 else 502)"

text \<open>
  The upstream gets the bytes that follow on the client's connection; what the server had already
  buffered stays in the unused reader. Bytes of the upstream go to the client.
\<close>

definition handle_connect_tunnel :: "world \<Rightarrow> request \<Rightarrow> engine \<Rightarrow> client \<Rightarrow> serve_result" where
  "handle_connect_tunnel w rq e cl =
     (case dial_by_policy w (eg_policy e) (rq_url_host rq) of
        (Inl dial_err, out) \<Rightarrow>
          (let status_code = connect_error_status dial_err
           in served (emit_new w (connect_event rq (''[Egress Blocked] '' @ rq_url_host rq) status_code) e)
                (http_error (''DevHub CONNECT Error: '' @ dial_err) status_code cl) out)
      | (Inr _, out) \<Rightarrow>
          if \<not> rw_hijacker (cl_writer cl)
          then served e (http_error ''CONNECT hijack unsupported'' 500 cl) out
          else (case wo_hijack w of
                  Inl err \<Rightarrow> served e (http_error err 500 cl) out
                | Inr (buffered, rest) \<Rightarrow>
                    (let ((trace_id, _, _, _), e) = trace_context_of w (rq_header rq) e;
                         up = take (fst (wo_pipe w)) rest;
                         down = take (snd (wo_pipe w)) (wo_upstream_bytes w);
                         cl = cl\<lparr>cl_conn := cl_conn cl @ ''HTTP/1.1 200 Connection Established'' @ crlf @ crlf @ down\<rparr>
                     in served (emit_new w ((connect_event rq (''[Egress Tunnel] '' @ rq_url_host rq) 200)
                                  \<lparr>ev_trace_id := trace_id, ev_req_headers := extract_headers (rq_header rq),
                                   ev_resp_headers := [(''Proxy-Agent'', ''DevHub'')]\<rparr>) e)
                          cl (out @ [Piped up]))))"

section \<open>WebSockets\<close>

text \<open>
  \<open>strings.EqualFold\<close> against an ASCII word: U+017F and U+212A fold to \<open>s\<close> and \<open>k\<close>.
\<close>

definition long_s :: string where "long_s = map char_of [197, 191 :: int]"
definition kelvin :: string where "kelvin = map char_of [226, 132, 170 :: int]"

fun simple_fold :: "string \<Rightarrow> string" where
  "simple_fold [] = []"
| "simple_fold (c # cs) =
     (if has_prefix (c # cs) long_s then CHR ''s'' # simple_fold (drop 1 cs)
      else if has_prefix (c # cs) kelvin then CHR ''k'' # simple_fold (drop 2 cs)
      else lower_char c # simple_fold cs)"

definition is_websocket_request :: "(string \<Rightarrow> string) \<Rightarrow> header \<Rightarrow> bool" where
  "is_websocket_request uni h \<longleftrightarrow>
     simple_fold (hdr_get h ''Upgrade'') = ''websocket''
     \<and> str_contains (to_lower uni (hdr_get h ''Connection'')) ''upgrade''"

definition ws_event :: "request \<Rightarrow> string \<Rightarrow> string \<Rightarrow> int \<Rightarrow> trace_event" where
  "ws_event rq trace_id target status = (request_event rq trace_id target status)\<lparr>ev_method := ''WS''\<rparr>"

definition ws_host :: "gurl \<Rightarrow> string" where
  "ws_host u =
     (let default_port = (if u_scheme u = ''https'' \<or> u_scheme u = ''wss'' then ''443'' else ''80'')
      in if \<not> has_port (u_host u) then u_host u @ '':'' @ default_port else u_host u)"

definition ws_dial :: "world \<Rightarrow> gurl \<Rightarrow> string + unit" where
  "ws_dial w u =
     (if u_scheme u = ''https'' \<or> u_scheme u = ''wss''
      then wo_dial_tls w (case split_host_port (ws_host u) of Inr (h, _) \<Rightarrow> h | Inl _ \<Rightarrow> []) (ws_host u)
      else wo_dial_host w (ws_host u))"

text \<open>The handshake request: a clone with the outbound path, one value per negotiation header.\<close>

definition ws_handshake :: "request \<Rightarrow> gurl \<Rightarrow> string \<Rightarrow> outbound" where
  "ws_handshake rq u out_path =
     (let keep = (\<lambda>k h. if hdr_get (rq_header rq) k \<noteq> [] then hdr_set h k (hdr_get (rq_header rq) k) else h)
      in \<lparr>ob_scheme = rq_scheme rq, ob_url_host = rq_url_host rq, ob_path = out_path, ob_raw_query = rq_raw_query rq,
          ob_host = u_host u,
          ob_header = keep ''Sec-WebSocket-Extensions'' (keep ''Sec-WebSocket-Protocol'' (rq_header rq))\<rparr>)"

definition bad_gateway :: string where "bad_gateway = ''HTTP/1.1 502 Bad Gateway'' @ crlf @ crlf"

definition conn_write :: "string \<Rightarrow> client \<Rightarrow> client" where
  "conn_write s cl = cl\<lparr>cl_conn := cl_conn cl @ s\<rparr>"

text \<open>After the upgrade both buffers are part of the copied streams.\<close>

definition ws_session ::
  "world \<Rightarrow> request \<Rightarrow> gurl \<Rightarrow> string \<Rightarrow> string \<Rightarrow> string \<Rightarrow> contact list \<Rightarrow> engine \<Rightarrow> client \<Rightarrow> serve_result" where
  "ws_session w rq u out_path trace_id from_client out e cl =
     (let target = u_string u @ out_path
      in case wo_ws_write w of
           Some _ \<Rightarrow> served e (conn_write bad_gateway cl) out
         | None \<Rightarrow>
             (case wo_ws_response w of
                Inl _ \<Rightarrow> served (emit_new w (ws_event rq trace_id target 502) e) (conn_write bad_gateway cl) out
              | Inr (status, rh, raw) \<Rightarrow>
                  if status \<noteq> 101
                  then served (emit_new w ((ws_event rq trace_id target status)
                                \<lparr>ev_resp_headers := extract_headers rh\<rparr>) e) (conn_write raw cl) out
                  else if wo_ws_reply w \<noteq> None then served e cl out
                  else (let up = take (fst (wo_pipe w)) from_client;
                            down = take (snd (wo_pipe w)) (wo_upstream_bytes w)
                        in served (emit_new w ((ws_event rq trace_id target 101)
                                     \<lparr>ev_resp_headers := extract_headers rh\<rparr>) e)
                             (conn_write (raw @ down) cl) (out @ [Piped up]))))"

definition proxy_websocket ::
  "world \<Rightarrow> gurl \<Rightarrow> string \<Rightarrow> request \<Rightarrow> engine \<Rightarrow> client \<Rightarrow> serve_result" where
  "proxy_websocket w u out_path rq e cl =
     (if \<not> rw_hijacker (cl_writer cl) then served e (http_error ''WebSocket hijack unsupported'' 500 cl) []
      else (case wo_hijack w of
              Inl err \<Rightarrow> served e (http_error err 500 cl) []
            | Inr (buffered, rest) \<Rightarrow>
                (let ((trace_id, _, _, _), e) = trace_context_of w (rq_header rq) e;
                     dialed = [DialedHost (ws_host u)]
                 in case ws_dial w u of
                      Inl _ \<Rightarrow> served (emit_new w (ws_event rq trace_id (u_string u @ out_path) 502) e)
                                (conn_write bad_gateway cl) dialed
                    | Inr _ \<Rightarrow> ws_session w rq u out_path trace_id (buffered @ rest)
                                (dialed @ [Upgraded (ws_handshake rq u out_path)]) e cl)))"

section \<open>ServeHTTP\<close>

definition is_forward_request :: "request \<Rightarrow> bool" where
  "is_forward_request rq \<longleftrightarrow>
     rq_scheme rq \<noteq> []
     \<or> (rq_url_host rq \<noteq> [] \<and> \<not> has_prefix (rq_path rq) ''/api/'' \<and> \<not> has_prefix (rq_path rq) ''/auth''
        \<and> rq_scheme rq \<noteq> [])"

definition always_mock_for :: "string \<Rightarrow> engine \<Rightarrow> mock_rule option" where
  "always_mock_for path e =
     (case mock_for path e of
        Some rule \<Rightarrow> if mr_mode rule = mode_always then Some rule else None
      | None \<Rightarrow> None)"

definition circuit_open :: "route_target \<Rightarrow> engine \<Rightarrow> bool" where
  "circuit_open t e \<longleftrightarrow> (case eg_health e of None \<Rightarrow> False | Some h \<Rightarrow> is_circuit_broken (Some (rt_target t)) h)"

definition serve_http :: "world \<Rightarrow> request \<Rightarrow> engine \<Rightarrow> client \<Rightarrow> serve_result" where
  "serve_http w rq e cl =
     (if rq_method rq = ''CONNECT'' then handle_connect_tunnel w rq e cl
      else if is_forward_request rq then handle_forward_proxy_http w rq e cl
      else (case always_mock_for (rq_path rq) e of
              Some rule \<Rightarrow> serve_mock w ''X-DevHub-Mock-Response'' (''[Mock Mode] '' @ mr_prefix rule) rule rq e cl
            | None \<Rightarrow>
                (case match_route (eg_router e) (rq_path rq) of
                   None \<Rightarrow> serve_unrouted w rq e cl
                 | Some (t, out_path) \<Rightarrow>
                     if is_websocket_request (ee_lower (wo_egress w)) (rq_header rq)
                     then proxy_websocket w (rt_target t) out_path rq e cl
                     else if circuit_open t e then serve_broken w t rq e cl
                     else serve_routed w t out_path rq e cl)))"

end
