(* ===== verification/Engine_Samples.thy ===== *)
theory Engine_Samples
  imports Engine_Serve Route_Properties
begin

text \<open>
  A concrete engine, request and surroundings, on which the witnesses of the engine's properties are
  evaluated: two routes, one mock rule, a registered target and an upstream that cannot be reached.
\<close>

definition sample_redact :: redact_env where
  "sample_redact = \<lparr>re_lower = id, re_unmarshal = (\<lambda>_. None), re_marshal = (\<lambda>_. None),
     re_parse_query = (\<lambda>_. None), re_encode_query = (\<lambda>_. []), re_unstructured = id\<rparr>"

definition sample_world :: world where
  "sample_world = \<lparr>wo_now = 7, wo_stamp = ''12:00:00.000'', wo_duration = 3, wo_rnd = [], wo_late_rnd = [],
     wo_late_router = sample_router, wo_redact = sample_redact, wo_egress = sample_env,
     wo_req_buf = new_capture_buffer, wo_resp_buf = new_capture_buffer, wo_capturer = new_capturer,
     wo_clean = id, wo_upstream = (\<lambda>_ _. RoundTripError ''connection refused''), wo_reads = [],
     wo_new_request = None, wo_idna = id, wo_dial_ip = (\<lambda>_. Inr ()),
     wo_dial_host = (\<lambda>_. Inr ()), wo_dial_tls = (\<lambda>_ _. Inr ()),
     wo_forward = (\<lambda>_ _. Inr \<lparr>fr_status = 200, fr_header = [], fr_reads = [(''ok'', Some ''EOF'')]\<rparr>),
     wo_hijack = Inr (''early'', ''late''), wo_upstream_bytes = ''hello'', wo_pipe = (9, 5),
     wo_ws_write = None, wo_ws_response = Inr (101, [], ''HTTP/1.1 101''), wo_ws_reply = None\<rparr>"

definition sample_rule :: "string \<Rightarrow> mock_rule" where
  "sample_rule pre = \<lparr>mr_prefix = pre, mr_enabled = True, mr_mode = mode_on_error, mr_status_code = 200, mr_status = 0,
     mr_headers = Some [], mr_body = ''mocked'', mr_delay_ms = 0\<rparr>"

definition sample_engine :: "string \<Rightarrow> engine" where
  "sample_engine pre = (new_engine sample_router (Some (new_ring_buffer 2)) True \<lparr>trace_seq = 0, span_seq = 0\<rparr> 0)
     \<lparr>eg_mocks := Some [(pre, sample_rule pre)],
      eg_health := Some (register_target (Some sample_url) [] new_health_monitor)\<rparr>"

definition sample_request :: "string \<Rightarrow> request" where
  "sample_request path = \<lparr>rq_method = ''GET'', rq_scheme = [], rq_url_host = [], rq_path = path, rq_raw_query = [],
     rq_url_string = path, rq_host = ''localhost:4000'', rq_remote_addr = ''127.0.0.1:9'', rq_tls = False,
     rq_header = [], rq_has_body = False\<rparr>"

definition sample_forward :: request where
  "sample_forward = (sample_request ''/'')\<lparr>rq_scheme := ''http'', rq_url_host := ''10.0.0.1'',
     rq_url_string := ''http://10.0.0.1/''\<rparr>"

definition sample_client :: client where
  "sample_client = \<lparr>cl_header = [], cl_writer = sample_writer, cl_conn = []\<rparr>"

definition sample_target :: route_target where
  "sample_target = target_of ''/api/v1'' sample_url True 10000"

lemma sample_engine_fields [simp]:
  "eg_router (sample_engine pre) = sample_router" "eg_mocks (sample_engine pre) = Some [(pre, sample_rule pre)]"
  "eg_broadcast (sample_engine pre)" "eg_sent (sample_engine pre) = []"
  "eg_health (sample_engine pre) = Some (register_target (Some sample_url) [] new_health_monitor)"
  "eg_policy (sample_engine pre) = Some (new_egress_policy egress_mode_metadata True)"
  "eg_forward_policy (sample_engine pre) = Some (new_egress_policy egress_mode_metadata True)"
  by (simp_all add: sample_engine_def new_engine_def Let_def)

lemma sample_request_fields [simp]:
  "rq_path (sample_request p) = p" "rq_method (sample_request p) = ''GET''" "rq_header (sample_request p) = []"
  "rq_scheme (sample_request p) = []" "rq_url_host (sample_request p) = []"
  by (simp_all add: sample_request_def)

lemma sample_client_fields [simp]:
  "rw_calls (cl_writer sample_client) = []" "rw_hijacker (cl_writer sample_client)"
  by (simp_all add: sample_client_def sample_writer_def)

lemma sample_not_forward [simp]: "\<not> is_forward_request (sample_request p)"
  by (simp add: is_forward_request_def)

lemma sample_not_websocket [simp]: "\<not> is_websocket_request uni []"
  by (simp add: is_websocket_request_def hdr_get_def)

lemma sample_match: "match_route sample_router ''/api/v1/users'' = Some (sample_target, ''/users'')"
  by (simp add: match_route_correct router_inv_sample sample_routes path_segments_def
      outbound_path_def target_of_def numeral_eq_Suc sample_target_def)

lemma sample_target_fields [simp]: "rt_target sample_target = sample_url" "rt_timeout_ms sample_target = 10000"
  by (simp_all add: sample_target_def target_of_def)

lemma sample_circuit_closed [simp]: "\<not> circuit_open t (sample_engine pre)"
  by (simp add: circuit_open_def is_circuit_broken_def register_target_def new_health_monitor_def split: option.split)

lemma sample_mocks:
  "mock_for ''/users'' (sample_engine ''/users'') = Some (sample_rule ''/users'')"
  "mock_for ''/api/v1/users'' (sample_engine ''/users'') = None"
  "mock_for ''/api/v1/users'' (sample_engine ''/api'') = Some (sample_rule ''/api'')"
  "mock_for ''/users'' (sample_engine ''/api'') = None"
  by (simp_all add: mock_for_def get_rule_def best_step_def sample_rule_def clean_prefix_def
      trim_slashes_def trim_left_def trim_right_def has_prefix_def)

lemma sample_always_mocks [simp]:
  "always_mock_for ''/api/v1/users'' (sample_engine ''/users'') = None"
  "always_mock_for ''/api/v1/users'' (sample_engine ''/api'') = None"
  by (simp_all add: always_mock_for_def sample_mocks sample_rule_def mode_always_def mode_on_error_def)

end
