(* ===== verification/Engine_Properties.thy ===== *)
theory Engine_Properties
  imports Engine_Samples
begin

text \<open>
  What \<open>ServeHTTP\<close> guarantees: how many telemetry events a request leaves and what they say, which
  upstreams it contacts, what it reports to the health monitor, and the places where it does less.
\<close>

section \<open>Telemetry\<close>

lemma trace_context_of_frame [simp]:
  "eg_sent (snd (trace_context_of w h e)) = eg_sent e" "eg_ring (snd (trace_context_of w h e)) = eg_ring e"
  "eg_broadcast (snd (trace_context_of w h e)) = eg_broadcast e"
  "eg_redact (snd (trace_context_of w h e)) = eg_redact e" "eg_seq (snd (trace_context_of w h e)) = eg_seq e"
  "eg_mocks (snd (trace_context_of w h e)) = eg_mocks e" "eg_health (snd (trace_context_of w h e)) = eg_health e"
  "eg_policy (snd (trace_context_of w h e)) = eg_policy e"
  "eg_forward_policy (snd (trace_context_of w h e)) = eg_forward_policy e"
  "eg_router (snd (trace_context_of w h e)) = eg_router e"
  "eg_notices (snd (trace_context_of w h e)) = eg_notices e"
  by (simp_all add: trace_context_of_def split: prod.split)

text \<open>The telemetry part of an engine, and one event added to it.\<close>

definition telemetry :: "engine \<Rightarrow> trace_event list \<times> ring_buffer option \<times> bool \<times> bool \<times> u64" where
  "telemetry e = (eg_sent e, eg_ring e, eg_broadcast e, eg_redact e, eg_seq e)"

definition plus_event :: "redact_env \<Rightarrow> trace_event \<Rightarrow> engine \<Rightarrow> engine \<Rightarrow> bool" where
  "plus_event env ev e e' \<longleftrightarrow>
     (let ev' = (if eg_redact e then redact_event env ev else ev)
      in ev_id ev = hex_encode (be_bytes64 (eg_seq e + 1)) \<and> eg_seq e' = eg_seq e + 1
         \<and> eg_sent e' = eg_sent e @ (if eg_broadcast e then [ev'] else [])
         \<and> eg_ring e' = map_option (\<lambda>r. ring_push r ev') (eg_ring e))"

lemma telemetry_context [simp]: "telemetry (snd (trace_context_of w h e)) = telemetry e"
  by (simp add: telemetry_def)

lemma telemetry_report [simp]: "telemetry (report_health w u st e) = telemetry e"
  by (simp add: report_health_def telemetry_def split: option.split prod.split)

lemma telemetry_run_proxy [simp]:
  "telemetry (snd (snd (snd (snd (run_proxy w tm rq h e rh rw))))) = telemetry e"
  by (simp add: run_proxy_def telemetry_def Let_def split: option.split prod.split proxy_outcome.split)

lemma emit_new_adds:
  assumes "telemetry e1 = telemetry e"
  shows "\<exists>ev'. plus_event (wo_redact w) ev' e (emit_new w ev e1) \<and> ev_status ev' = ev_status ev"
  using assms
  by (intro exI [of _ "ev\<lparr>ev_id := hex_encode (be_bytes64 (eg_seq e + 1)), ev_timestamp := wo_stamp w, ev_duration := wo_duration w\<rparr>"])
     (simp add: plus_event_def emit_new_def emit_trace_event_def fast_trace_id_def Let_def telemetry_def)

text \<open>Either exactly one event was added, or the telemetry is untouched.\<close>

definition one_event :: "world \<Rightarrow> engine \<Rightarrow> serve_result \<Rightarrow> bool" where
  "one_event w e r \<longleftrightarrow> \<not> sr_panic r \<and> (\<exists>ev. plus_event (wo_redact w) ev e (sr_engine r))"

definition no_event :: "engine \<Rightarrow> serve_result \<Rightarrow> bool" where
  "no_event e r \<longleftrightarrow> telemetry (sr_engine r) = telemetry e"

lemma one_eventI:
  "telemetry e1 = telemetry e \<Longrightarrow> one_event w e (served (emit_new w ev e1) cl out)"
  using emit_new_adds [of e1 e w ev] by (auto simp: one_event_def)

lemma no_eventI: "telemetry e1 = telemetry e \<Longrightarrow> no_event e (served e1 cl out)"
  "telemetry e1 = telemetry e \<Longrightarrow> no_event e (panicked e1 cl out)"
  by (simp_all add: no_event_def)

lemma telemetry_context_eq: "trace_context_of w h e = (ctx, e1) \<Longrightarrow> telemetry e1 = telemetry e"
  using telemetry_context [of w h e] by simp

lemma telemetry_run_proxy_eq:
  "run_proxy w tm rq h e rh rw = (rh', rw', p, out, e1) \<Longrightarrow> telemetry e1 = telemetry e"
  using telemetry_run_proxy [of w tm rq h e rh rw] by simp

lemmas telemetry_eqs = telemetry_context_eq telemetry_run_proxy_eq

lemma serve_mock_event:
  "one_event w e (serve_mock w mark target rule rq e cl)
   \<or> sr_panic (serve_mock w mark target rule rq e cl) \<and> no_event e (serve_mock w mark target rule rq e cl)"
  by (auto simp: serve_mock_def Let_def no_event_def split: option.split prod.split
      intro!: one_eventI dest: telemetry_eqs)

lemma serve_unrouted_event: "one_event w e (serve_unrouted w rq e cl)"
  by (auto simp: serve_unrouted_def Let_def split: prod.split intro!: one_eventI dest: telemetry_eqs)

lemma serve_broken_event:
  "one_event w e (serve_broken w t rq e cl)
   \<or> sr_panic (serve_broken w t rq e cl) \<and> no_event e (serve_broken w t rq e cl)"
  using serve_mock_event
  by (auto simp: serve_broken_def Let_def split: option.split prod.split intro!: one_eventI dest: telemetry_eqs)

lemma serve_routed_event:
  "one_event w e (serve_routed w t p rq e cl)
   \<or> sr_panic (serve_routed w t p rq e cl) \<and> no_event e (serve_routed w t p rq e cl)"
  by (auto simp: serve_routed_def Let_def no_event_def split: prod.split
      intro!: one_eventI dest!: telemetry_eqs)

text \<open>The exits that return without recording anything.\<close>

definition connect_silent :: "world \<Rightarrow> request \<Rightarrow> engine \<Rightarrow> client \<Rightarrow> bool" where
  "connect_silent w rq e cl \<longleftrightarrow>
     (case fst (dial_by_policy w (eg_policy e) (rq_url_host rq)) of
        Inl _ \<Rightarrow> False
      | Inr _ \<Rightarrow> \<not> rw_hijacker (cl_writer cl) \<or> (case wo_hijack w of Inl _ \<Rightarrow> True | Inr _ \<Rightarrow> False))"

definition ws_silent :: "world \<Rightarrow> gurl \<Rightarrow> client \<Rightarrow> bool" where
  "ws_silent w u cl \<longleftrightarrow>
     \<not> rw_hijacker (cl_writer cl)
     \<or> (case wo_hijack w of
          Inl _ \<Rightarrow> True
        | Inr _ \<Rightarrow>
            (case ws_dial w u of
               Inl _ \<Rightarrow> False
             | Inr _ \<Rightarrow> wo_ws_write w \<noteq> None
                 \<or> (case wo_ws_response w of
                      Inl _ \<Rightarrow> False
                    | Inr (status, _, _) \<Rightarrow> status = 101 \<and> wo_ws_reply w \<noteq> None)))"

definition silent_exit :: "world \<Rightarrow> request \<Rightarrow> engine \<Rightarrow> client \<Rightarrow> bool" where
  "silent_exit w rq e cl \<longleftrightarrow>
     (if rq_method rq = ''CONNECT'' then connect_silent w rq e cl
      else if is_forward_request rq then wo_new_request w \<noteq> None
      else (case always_mock_for (rq_path rq) e of
              Some _ \<Rightarrow> False
            | None \<Rightarrow>
                (case match_route (eg_router e) (rq_path rq) of
                   None \<Rightarrow> False
                 | Some (t, _) \<Rightarrow> is_websocket_request (ee_lower (wo_egress w)) (rq_header rq)
                                    \<and> ws_silent w (rt_target t) cl)))"

lemma connect_event_cases:
  "(if connect_silent w rq e cl then no_event e (handle_connect_tunnel w rq e cl)
    else one_event w e (handle_connect_tunnel w rq e cl))"
  by (auto simp: handle_connect_tunnel_def connect_silent_def Let_def
      split: sum.split prod.split intro!: one_eventI no_eventI dest!: telemetry_eqs)

lemma ws_event_cases:
  "(if ws_silent w u cl then no_event e (proxy_websocket w u p rq e cl)
    else one_event w e (proxy_websocket w u p rq e cl))"
  by (auto simp: proxy_websocket_def ws_session_def ws_silent_def Let_def
      split: sum.split prod.split option.split intro!: one_eventI no_eventI dest!: telemetry_eqs)

lemma forward_event_cases:
  "(if wo_new_request w \<noteq> None \<or> sr_panic (handle_forward_proxy_http w rq e cl)
    then no_event e (handle_forward_proxy_http w rq e cl)
    else one_event w e (handle_forward_proxy_http w rq e cl))"
  by (auto simp: handle_forward_proxy_http_def Let_def
      split: sum.split prod.split option.split intro!: one_eventI no_eventI dest!: telemetry_eqs)

text \<open>How a request may end: one event, or none after a panic or a silent exit.\<close>

definition event_outcome :: "world \<Rightarrow> request \<Rightarrow> engine \<Rightarrow> client \<Rightarrow> serve_result \<Rightarrow> bool" where
  "event_outcome w rq e cl r \<longleftrightarrow>
     one_event w e r \<and> \<not> silent_exit w rq e cl \<or> no_event e r \<and> (sr_panic r \<or> silent_exit w rq e cl)"

lemma event_outcome_matched:
  assumes "rq_method rq \<noteq> ''CONNECT''" "\<not> is_forward_request rq" "always_mock_for (rq_path rq) e = None"
    and "match_route (eg_router e) (rq_path rq) = Some (t, p)"
  shows "event_outcome w rq e cl (serve_http w rq e cl)"
proof (cases "is_websocket_request (ee_lower (wo_egress w)) (rq_header rq)")
  case True
  with assms have "serve_http w rq e cl = proxy_websocket w (rt_target t) p rq e cl"
    "silent_exit w rq e cl = ws_silent w (rt_target t) cl"
    by (simp_all add: serve_http_def silent_exit_def)
  then show ?thesis
    using ws_event_cases [of w "rt_target t" cl e p rq] by (auto simp: event_outcome_def split: if_splits)
next
  case False
  with assms have "\<not> silent_exit w rq e cl"
    "serve_http w rq e cl = (if circuit_open t e then serve_broken w t rq e cl else serve_routed w t p rq e cl)"
    by (simp_all add: serve_http_def silent_exit_def)
  then show ?thesis
    using serve_broken_event [of w e t rq cl] serve_routed_event [of w e t p rq cl]
    by (auto simp: event_outcome_def)
qed

lemma event_outcome_local:
  assumes "rq_method rq \<noteq> ''CONNECT''" "\<not> is_forward_request rq"
  shows "event_outcome w rq e cl (serve_http w rq e cl)"
proof (cases "always_mock_for (rq_path rq) e")
  case (Some rule)
  with assms show ?thesis
    using serve_mock_event [of w e "''X-DevHub-Mock-Response''" "''[Mock Mode] '' @ mr_prefix rule" rule rq cl]
    by (auto simp: serve_http_def silent_exit_def event_outcome_def)
next
  case None
  show ?thesis
  proof (cases "match_route (eg_router e) (rq_path rq)")
    case no: None
    with assms None show ?thesis
      using serve_unrouted_event by (simp add: serve_http_def silent_exit_def event_outcome_def)
  next
    case (Some m)
    with assms None show ?thesis by (cases m) (simp add: event_outcome_matched)
  qed
qed

lemma event_outcome_bypass:
  assumes "rq_method rq = ''CONNECT'' \<or> is_forward_request rq"
  shows "event_outcome w rq e cl (serve_http w rq e cl)"
proof (cases "rq_method rq = ''CONNECT''")
  case True
  then show ?thesis
    using connect_event_cases [of w rq e cl]
    by (auto simp: serve_http_def silent_exit_def event_outcome_def split: if_splits)
next
  case False
  with assms show ?thesis
    using forward_event_cases [of w rq e cl]
    by (auto simp: serve_http_def silent_exit_def event_outcome_def split: if_splits)
qed

text \<open>
  C2: \<open>ServeHTTP\<close> leaves exactly one telemetry event per request, in the ring and with the broadcast
  callback alike, with a fresh id and redacted when redaction is on; it leaves none exactly when the
  handler panics or takes one of the silent exits, and then the telemetry is untouched.
\<close>

theorem one_event_per_request:
  "let r = serve_http w rq e cl
   in if sr_panic r \<or> silent_exit w rq e cl then telemetry (sr_engine r) = telemetry e
      else (\<exists>ev. plus_event (wo_redact w) ev e (sr_engine r))"
proof -
  have "event_outcome w rq e cl (serve_http w rq e cl)"
    using event_outcome_local event_outcome_bypass by blast
  then show ?thesis
    by (auto simp: event_outcome_def one_event_def no_event_def Let_def)
qed

section \<open>The recorded status\<close>








lemma request_event_status [simp]: "ev_status (request_event rq i t code) = code"
  by (simp add: request_event_def)












text \<open>The routed branch, taken apart.\<close>

lemma serve_routed_cases:
  obtains ctx e1 rh rw p out e2 ev where "trace_context_of w (rq_header rq) e = (ctx, e1)"
    "run_proxy w (rt_timeout_ms t) (rq\<lparr>rq_header := stamp_headers ctx (rq_header rq)\<rparr>)
       (stamp_headers ctx (rq_header rq)) e1 (cl_header cl) (capturer_reset (wo_capturer w) (cl_writer cl)) = (rh, rw, p, out, e2)"
    "serve_routed w t path rq e cl =
       (if p then panicked e2 (cl\<lparr>cl_header := rh, cl_writer := rc_writer rw\<rparr>) out
        else served (emit_new w ev (report_health w (rt_target t) (rc_status_code rw) e2))
               (cl\<lparr>cl_header := rh, cl_writer := rc_writer rw\<rparr>) out)"
    "ev_status ev = rc_status_code rw" "ev_target ev = u_string (rt_target t) @ path"
proof -
  obtain ctx e1 where c: "trace_context_of w (rq_header rq) e = (ctx, e1)" by fastforce
  obtain reads cap where s: "sniffer_reads (if rq_has_body rq then Some (capture_reset (wo_req_buf w)) else None)
      (wo_reads w) = (reads, cap)" by fastforce
  obtain rh rw p out e2 where r: "run_proxy w (rt_timeout_ms t) (rq\<lparr>rq_header := stamp_headers ctx (rq_header rq)\<rparr>)
       (stamp_headers ctx (rq_header rq)) e1 (cl_header cl) (capturer_reset (wo_capturer w) (cl_writer cl)) = (rh, rw, p, out, e2)"
    by (metis prod_cases5)
  show ?thesis
  proof (rule that [OF c r])
    show "serve_routed w t path rq e cl =
       (if p then panicked e2 (cl\<lparr>cl_header := rh, cl_writer := rc_writer rw\<rparr>) out
        else served (emit_new w ((request_event (rq\<lparr>rq_header := stamp_headers ctx (rq_header rq)\<rparr>) (fst ctx)
               (u_string (rt_target t) @ path) (rc_status_code rw))
               \<lparr>ev_resp_headers := extract_headers rh,
                ev_request_body := (case cap of Some c \<Rightarrow> capture_string c | None \<Rightarrow> []),
                ev_response_body := capturer_string rw\<rparr>) (report_health w (rt_target t) (rc_status_code rw) e2))
               (cl\<lparr>cl_header := rh, cl_writer := rc_writer rw\<rparr>) out)"
      using s r by (cases p) (simp_all add: serve_routed_def c Let_def split del: if_split)
  qed (simp_all add: request_event_def)
qed



lemma header_calls_call [simp]:
  "header_calls (rw_calls (writer_call wr (HeaderCall code))) = header_calls (rw_calls wr) @ [code]"
  by (simp add: writer_call_def)



section \<open>Upstreams\<close>

lemma serve_mock_quiet [simp]: "sr_out (serve_mock w mark target rule rq e cl) = []"
  by (simp add: serve_mock_def Let_def split: option.split prod.split)

lemma serve_broken_quiet [simp]: "sr_out (serve_broken w t rq e cl) = []"
  by (simp add: serve_broken_def Let_def split: option.split prod.split)

lemma serve_unrouted_quiet [simp]: "sr_out (serve_unrouted w rq e cl) = []"
  by (simp add: serve_unrouted_def Let_def split: prod.split)

text \<open>What a proxied request carries to the target \<open>t\<close>.\<close>

definition goes_to :: "route_target \<Rightarrow> string \<Rightarrow> request \<Rightarrow> outbound \<Rightarrow> bool" where
  "goes_to t path rq ob \<longleftrightarrow>
     ob_scheme ob = u_scheme (rt_target t) \<and> ob_url_host ob = u_host (rt_target t)
     \<and> ob_host ob = u_host (rt_target t) \<and> ob_path ob = path \<and> ob_raw_query ob = rq_raw_query rq"

text \<open>The upstreams of a proxied request, by what the table holds when \<open>Rewrite\<close> looks the path up.\<close>

definition rewrite_contacts :: "router \<Rightarrow> request \<Rightarrow> contact list \<Rightarrow> bool" where
  "rewrite_contacts r rq out \<longleftrightarrow>
     (case match_route r (rq_path rq) of
        None \<Rightarrow> out = []
      | Some (t, path) \<Rightarrow> (\<exists>ob. out = [Routed ob] \<and> goes_to t path rq ob))"

lemma run_proxy_contacts:
  assumes "run_proxy w tm rq h e rh rw = (rh', rw', p, out, e')"
  shows "rewrite_contacts (wo_late_router w) rq out"
  using assms
  by (auto simp: run_proxy_def rewrite_request_def rewrite_contacts_def goes_to_def Let_def
      split: prod.splits proxy_outcome.splits option.splits)

lemma serve_routed_contacts: "rewrite_contacts (wo_late_router w) rq (sr_out (serve_routed w t path rq e cl))"
proof (cases rule: serve_routed_cases [of w rq e t cl path])
  case (1 ctx e1 rh rw panic out e2 ev)
  from run_proxy_contacts [OF 1(2)] show ?thesis
    unfolding 1(3) by (simp add: rewrite_contacts_def goes_to_def split: option.splits prod.splits)
qed

text \<open>
  C6: a reverse-proxied request reaches at most one upstream, with the outbound path of its match and the
  client's query; no upstream is contacted for a mocked path, for one that \<open>ServeHTTP\<close> does not match, or
  while the circuit of the target it matched is open. \<open>Rewrite\<close> looks the path up a second time, and it is
  the target of that second match that is contacted: it is the first one whenever the routes have not
  changed in between; after a change it may be another, whose circuit nobody has checked, or none.
\<close>

theorem contacts_matched_upstream_only:
  fixes e :: engine and cl :: client
  assumes "rq_method rq \<noteq> ''CONNECT''" "\<not> is_forward_request rq"
    and "\<not> is_websocket_request (ee_lower (wo_egress w)) (rq_header rq)"
  defines "out \<equiv> sr_out (serve_http w rq e cl)"
  shows "(if always_mock_for (rq_path rq) e \<noteq> None then out = []
    else (case match_route (eg_router e) (rq_path rq) of
            None \<Rightarrow> out = []
          | Some (t, path) \<Rightarrow>
              if circuit_open t e then out = []
              else rewrite_contacts (wo_late_router w) rq out
                \<and> (wo_late_router w = eg_router e \<longrightarrow> (\<exists>ob. out = [Routed ob] \<and> goes_to t path rq ob))))"
  unfolding out_def using assms(1-3) serve_routed_contacts [of w rq]
  by (auto simp: serve_http_def rewrite_contacts_def split: option.split prod.split)

theorem contacts_matched_upstream_only_witness:
  "\<exists>ob. sr_out (serve_http sample_world (sample_request ''/api/v1/users'') (sample_engine ''/users'') sample_client) = [Routed ob]
     \<and> ob_path ob = ''/users'' \<and> ob_url_host ob = ''localhost:5002''"
  using contacts_matched_upstream_only [of "sample_request ''/api/v1/users''" sample_world "sample_engine ''/users''" sample_client]
  by (simp add: sample_match goes_to_def sample_url_def sample_world_def) blast

section \<open>Mock fallbacks after a failed round trip\<close>

lemma run_proxy_failed:
  assumes "match_route (wo_late_router w) (rq_path rq) = Some (t, path)"
    and "\<forall>ob. wo_upstream w tm ob = RoundTripError err"
    and "run_proxy w tm rq h e rh rw = (rh', rw', p, out, e')"
  shows "error_handler e' path err rh rw = (rh', rw', p) \<and> eg_mocks e' = eg_mocks e \<and> eg_health e' = eg_health e"
  using assms by (auto simp: run_proxy_def rewrite_request_def Let_def split: prod.splits)

lemma mock_for_cong: "eg_mocks e = eg_mocks e' \<Longrightarrow> mock_for path e = mock_for path e'"
  by (simp add: mock_for_def)

lemma emit_new_health [simp]: "eg_health (emit_new w ev e) = eg_health e" "eg_notices (emit_new w ev e) = eg_notices e"
  by (simp_all add: emit_new_def emit_trace_event_def Let_def split: prod.split)

text \<open>A routed request whose round trip fails, by the rule that the rewritten path finds.\<close>

lemma serve_routed_failed:
  fixes e :: engine and path :: string
  assumes "match_route (wo_late_router w) (rq_path rq) = Some (t, path)"
    and "\<forall>ob. wo_upstream w (rt_timeout_ms t) ob = RoundTripError err"
    and "rw_calls (cl_writer cl) = []"
  defines "code \<equiv> (case mock_for path e of Some rule \<Rightarrow> mr_status_code rule | None \<Rightarrow> 502)"
  assumes "valid_status code"
  shows "header_calls (rw_calls (cl_writer (sr_client (serve_routed w t path rq e cl)))) = [code]
    \<and> eg_health (sr_engine (serve_routed w t path rq e cl)) = eg_health (report_health w (rt_target t) code e)"
proof (cases rule: serve_routed_cases [of w rq e t cl path])
  case (1 ctx e1 rh rw panic out e2 ev)
  let ?rw = "capturer_reset (wo_capturer w) (cl_writer cl)"
  have "match_route (wo_late_router w) (rq_path (rq\<lparr>rq_header := stamp_headers ctx (rq_header rq)\<rparr>)) = Some (t, path)"
    using assms(1) by simp
  from run_proxy_failed [OF this assms(2) 1(2)]
  have h: "error_handler e2 path err (cl_header cl) ?rw = (rh, rw, panic)"
    and same: "eg_mocks e2 = eg_mocks e1" "eg_health e2 = eg_health e1"
    by simp_all
  have "e1 = snd (trace_context_of w (rq_header rq) e)" using 1(1) by simp
  then have e1: "eg_mocks e1 = eg_mocks e" "eg_health e1 = eg_health e" by simp_all
  have "mock_for path e2 = mock_for path e"
    using same e1 by (intro mock_for_cong) simp
  then have "\<not> panic \<and> rc_status_code rw = code \<and> header_calls (out_calls rw) = [code]"
    using h assms(3,5)
    by (auto simp: error_handler_def code_def capturer_reset_def capturer_write_header_def capturer_write_def
        capturer_flush_def writer_call_def Let_def split: option.splits)
  with same e1 show ?thesis
    unfolding 1(3) by (simp add: report_health_def split: option.split prod.split)
qed


lemma serve_http_routed:
  assumes "rq_method rq \<noteq> ''CONNECT''" "\<not> is_forward_request rq" "always_mock_for (rq_path rq) e = None"
    and "match_route (eg_router e) (rq_path rq) = Some (t, path)"
    and "\<not> is_websocket_request (ee_lower (wo_egress w)) (rq_header rq)" "\<not> circuit_open t e"
  shows "serve_http w rq e cl = serve_routed w t path rq e cl"
  using assms by (simp add: serve_http_def)

text \<open>A plain request: a route matches, no mock or open circuit takes it first, the router is stable.\<close>

definition plain_request :: "world \<Rightarrow> request \<Rightarrow> engine \<Rightarrow> route_target \<Rightarrow> string \<Rightarrow> bool" where
  "plain_request w rq e t path \<longleftrightarrow>
     rq_method rq \<noteq> ''CONNECT'' \<and> \<not> is_forward_request rq \<and> always_mock_for (rq_path rq) e = None
     \<and> match_route (eg_router e) (rq_path rq) = Some (t, path)
     \<and> \<not> is_websocket_request (ee_lower (wo_egress w)) (rq_header rq)
     \<and> \<not> circuit_open t e \<and> wo_late_router w = eg_router e"

lemma plain_request_routed: "plain_request w rq e t path \<Longrightarrow> serve_http w rq e cl = serve_routed w t path rq e cl"
  by (simp add: plain_request_def serve_http_routed)

lemma plain_request_late: "plain_request w rq e t path \<Longrightarrow> match_route (wo_late_router w) (rq_path rq) = Some (t, path)"
  by (simp add: plain_request_def)

text \<open>
  when the upstream cannot be reached and a mock rule with a status below 500 answers instead, the
  request is reported to the health monitor as a success: the failure count of the target goes back to
  zero, so the circuit breaker never opens.
\<close>

theorem mock_fallback_hides_failure:
  assumes "plain_request w rq e t path" "\<forall>ob. wo_upstream w (rt_timeout_ms t) ob = RoundTripError err"
    and "rw_calls (cl_writer cl) = []" "mock_for path e = Some rule" "100 \<le> mr_status_code rule" "mr_status_code rule < 500"
    and "eg_health e = Some h" "map_of (hm_targets h) (u_string (rt_target t)) = Some th"
  shows "\<exists>h' th'. eg_health (sr_engine (serve_http w rq e cl)) = Some h'
    \<and> map_of (hm_targets h') (u_string (rt_target t)) = Some th' \<and> th_fails th' = 0 \<and> th_healthy th'"
proof -
  have "valid_status (case mock_for path e of Some rule \<Rightarrow> mr_status_code rule | None \<Rightarrow> 502)"
    using assms(4-6) by (simp add: valid_status_def)
  from serve_routed_failed [OF plain_request_late [OF assms(1)] assms(2,3) this]
  have "eg_health (sr_engine (serve_http w rq e cl)) = Some (fst (record_success (wo_now w) (Some (rt_target t)) h))"
    using assms by (simp add: plain_request_routed report_health_def split: prod.split)
  then show ?thesis
    using assms(8) by (simp add: record_success_def Let_def)
qed

theorem mock_fallback_hides_failure_witness:
  "\<exists>h th. eg_health (sr_engine (serve_http sample_world (sample_request ''/api/v1/users'') (sample_engine ''/users'') sample_client)) = Some h
     \<and> map_of (hm_targets h) ''http://localhost:5002'' = Some th \<and> th_fails th = 0"
proof -
  let ?h = "register_target (Some sample_url) [] new_health_monitor"
  have "plain_request sample_world (sample_request ''/api/v1/users'') (sample_engine ''/users'') sample_target ''/users''"
    by (simp add: plain_request_def sample_match) (simp add: sample_world_def)
  moreover obtain th where "map_of (hm_targets ?h) (u_string sample_url) = Some th"
    by (simp add: register_target_def new_health_monitor_def)
  moreover have "\<forall>ob. wo_upstream sample_world 10000 ob = RoundTripError ''connection refused''"
    by (simp add: sample_world_def)
  ultimately show ?thesis
    using mock_fallback_hides_failure [of sample_world "sample_request ''/api/v1/users''" "sample_engine ''/users''" sample_target
        "''/users''" "''connection refused''" sample_client "sample_rule ''/users''" ?h th]
    by (simp add: sample_mocks) (auto simp: sample_rule_def sample_url_def)
qed

text \<open>
  after a failed round trip the fallback rule is looked up under the rewritten path: on a route
  that strips its prefix, a rule for the request's own path does not answer.
\<close>

theorem stripped_route_misses_fallback:
  assumes "plain_request w rq e t path" "\<forall>ob. wo_upstream w (rt_timeout_ms t) ob = RoundTripError err"
    and "rw_calls (cl_writer cl) = []" "mock_for (rq_path rq) e = Some rule" "mock_for path e = None"
  shows "header_calls (rw_calls (cl_writer (sr_client (serve_http w rq e cl)))) = [502]"
proof -
  have "valid_status (case mock_for path e of Some rule \<Rightarrow> mr_status_code rule | None \<Rightarrow> 502)"
    using assms(5) by (simp add: valid_status_def)
  from serve_routed_failed [OF plain_request_late [OF assms(1)] assms(2,3) this] show ?thesis
    using assms by (simp add: plain_request_routed)
qed

theorem stripped_route_misses_fallback_witness:
  "header_calls (rw_calls (cl_writer (sr_client (serve_http sample_world (sample_request ''/api/v1/users'')
     (sample_engine ''/api'') sample_client)))) = [502]"
proof -
  have "plain_request sample_world (sample_request ''/api/v1/users'') (sample_engine ''/api'') sample_target ''/users''"
    by (simp add: plain_request_def sample_match) (simp add: sample_world_def)
  moreover have "\<forall>ob. wo_upstream sample_world (rt_timeout_ms sample_target) ob = RoundTripError ''connection refused''"
    by (simp add: sample_world_def)
  ultimately show ?thesis
    using stripped_route_misses_fallback by (simp add: sample_mocks)
qed

section \<open>Tunnels\<close>

text \<open>
  a WebSocket session passes on the bytes the server had already read from the client, a CONNECT
  tunnel loses them: its upstream sees the stream from the first unread byte on.
\<close>

theorem connect_tunnel_loses_buffered_bytes:
  assumes "rw_hijacker (cl_writer cl)" "wo_hijack w = Inr (buffered, rest)"
    and "fst (wo_pipe w) = length (buffered @ rest)"
  shows "(fst (dial_by_policy w (eg_policy e) (rq_url_host rq)) = Inr () \<longrightarrow>
        last (sr_out (handle_connect_tunnel w rq e cl)) = Piped rest)
    \<and> (ws_dial w u = Inr () \<and> wo_ws_write w = None \<and> wo_ws_response w = Inr (101, rh, raw) \<and> wo_ws_reply w = None
        \<longrightarrow> last (sr_out (proxy_websocket w u path rq e cl)) = Piped (buffered @ rest))"
  using assms
  by (auto simp: handle_connect_tunnel_def proxy_websocket_def ws_session_def Let_def split: prod.split sum.split)

theorem connect_tunnel_loses_buffered_bytes_witness:
  "last (sr_out (handle_connect_tunnel sample_world ((sample_request [])\<lparr>rq_url_host := ''8.8.8.8:443''\<rparr>)
     (sample_engine ''/'') sample_client)) = Piped ''late''"
proof -
  have "resolve_and_validate sample_env (new_egress_policy egress_mode_metadata True) ''8.8.8.8:443'' = Inr (V4 0x08080808, ''443'')"
    by code_simp
  then have "fst (dial_by_policy sample_world (eg_policy (sample_engine ''/'')) ''8.8.8.8:443'') = Inr ()"
    by (simp add: dial_by_policy_def dial_validated_def sample_world_def)
  then show ?thesis
    using connect_tunnel_loses_buffered_bytes [of sample_client sample_world "''early''" "''late''" "sample_engine ''/''"
        "(sample_request [])\<lparr>rq_url_host := ''8.8.8.8:443''\<rparr>"]
    by (simp add: sample_world_def)
qed

lemma dial_by_policy_validated:
  assumes "policy = Some p" "contact \<in> set (snd (dial_by_policy w policy addr))"
  shows "\<exists>a. contact = DialedIp a \<and> resolve_and_validate (wo_egress w) p addr = Inr a"
  using assms by (auto simp: dial_by_policy_def dial_validated_def split: sum.splits)

text \<open>The address a request asks the engine to reach.\<close>

definition egress_target :: "world \<Rightarrow> request \<Rightarrow> string" where
  "egress_target w rq =
     (if rq_method rq = ''CONNECT'' then rq_url_host rq
      else canonical_addr (wo_idna w) (rq_scheme rq) (rq_url_host rq))"

lemma dial_by_policy_dials:
  assumes "dial_by_policy w (Some p) addr = (res, dials)"
  shows "(\<forall>a. res = Inr a \<longrightarrow> dials \<noteq> [])
    \<and> (\<forall>c \<in> set dials. \<exists>a. c = DialedIp a \<and> resolve_and_validate (wo_egress w) p addr = Inr a)"
  using assms by (auto simp: dial_by_policy_def dial_validated_def split: sum.splits)

text \<open>The contacts of a tunnel or a forwarded request: dials, and what follows a successful one.\<close>

definition guarded_contacts :: "world \<Rightarrow> egress_policy \<Rightarrow> string \<Rightarrow> (contact \<Rightarrow> bool) \<Rightarrow> contact list \<Rightarrow> bool" where
  "guarded_contacts w p addr follow out \<longleftrightarrow>
     (\<forall>c \<in> set out. (\<exists>a. c = DialedIp a \<and> resolve_and_validate (wo_egress w) p addr = Inr a)
        \<or> follow c \<and> (\<exists>a. DialedIp a \<in> set out))"

lemma guarded_dials:
  "dial_by_policy w (Some p) addr = (res, dials) \<Longrightarrow> guarded_contacts w p addr follow dials"
  using dial_by_policy_dials [of w p addr res dials] by (auto simp: guarded_contacts_def)

lemma guarded_follow:
  assumes "dial_by_policy w (Some p) addr = (Inr u, dials)" "follow c"
  shows "guarded_contacts w p addr follow (dials @ [c])"
proof -
  from dial_by_policy_dials [OF assms(1)] have ne: "dials \<noteq> []"
    and d: "\<forall>c \<in> set dials. \<exists>a. c = DialedIp a \<and> resolve_and_validate (wo_egress w) p addr = Inr a"
    by blast+
  from ne have "hd dials \<in> set dials" by simp
  moreover from bspec [OF d this] obtain a where "hd dials = DialedIp a" by (elim exE conjE)
  ultimately have a: "DialedIp a \<in> set (dials @ [c])" by simp
  show ?thesis
    unfolding guarded_contacts_def
  proof
    fix x
    assume "x \<in> set (dials @ [c])"
    then consider "x \<in> set dials" | "x = c" by auto
    then show "(\<exists>a. x = DialedIp a \<and> resolve_and_validate (wo_egress w) p addr = Inr a)
      \<or> follow x \<and> (\<exists>a. DialedIp a \<in> set (dials @ [c]))"
    proof cases
      case 1
      then show ?thesis by (rule disjI1 [OF bspec [OF d]])
    next
      case 2
      with a assms(2) show ?thesis by (intro disjI2 conjI exI) simp_all
    qed
  qed
qed

lemma guarded_Nil [simp]: "guarded_contacts w p addr follow []"
  by (simp add: guarded_contacts_def)

lemma connect_guarded:
  assumes "eg_policy e = Some p"
  shows "guarded_contacts w p (rq_url_host rq) (\<lambda>c. \<exists>b. c = Piped b) (sr_out (handle_connect_tunnel w rq e cl))"
  using assms guarded_dials [of w p "rq_url_host rq"] guarded_follow [of w p "rq_url_host rq"]
  by (auto simp: handle_connect_tunnel_def Let_def split: prod.split sum.split)

lemma round_trip_guarded:
  assumes "eg_forward_policy e = Some q" "forward_round_trip w rq h e = (res, out)"
  shows "guarded_contacts w q (canonical_addr (wo_idna w) (rq_scheme rq) (rq_url_host rq))
    (\<lambda>c. \<exists>h. c = Forwarded (rq_url_string rq) h) out"
  using assms guarded_dials [of w q] guarded_follow [of w q]
  by (auto simp: forward_round_trip_def split: if_splits prod.splits sum.splits)

lemma forward_guarded:
  assumes "eg_forward_policy e = Some q"
  shows "guarded_contacts w q (canonical_addr (wo_idna w) (rq_scheme rq) (rq_url_host rq))
    (\<lambda>c. \<exists>h. c = Forwarded (rq_url_string rq) h) (sr_out (handle_forward_proxy_http w rq e cl))"
proof -
  have ctx: "trace_context_of w h e = (ctx, e') \<Longrightarrow> eg_forward_policy e' = Some q" for h ctx e'
    using trace_context_of_frame(9) [of w h e] assms by simp
  have trip: "forward_round_trip w (rq\<lparr>rq_header := g\<rparr>) h e' = (res, out) \<Longrightarrow> eg_forward_policy e' = Some q \<Longrightarrow>
      guarded_contacts w q (canonical_addr (wo_idna w) (rq_scheme rq) (rq_url_host rq))
        (\<lambda>c. \<exists>h. c = Forwarded (rq_url_string rq) h) out" for g h e' res out
    using round_trip_guarded [of e' q w "rq\<lparr>rq_header := g\<rparr>" h res out] by simp
  show ?thesis
    by (auto simp: handle_forward_proxy_http_def Let_def split: prod.split sum.split option.split
        dest!: ctx intro: trip)
qed

text \<open>
  C17: whatever a CONNECT or forward-proxy request makes the engine dial is the address that the policy
  in force for that branch accepted for the host the request names, and it is dialled by address: for
  CONNECT the authority of the request line, for a forwarded request the host and port of its URL, the
  port being that of the scheme when the URL has none. Bytes are piped and requests forwarded (to the
  request's own URL) only behind such a dial.
\<close>

theorem egress_dials_validated_address:
  assumes "eg_policy e = Some p" "eg_forward_policy e = Some q"
    and "rq_method rq = ''CONNECT'' \<or> is_forward_request rq" "contact \<in> set (sr_out (serve_http w rq e cl))"
  shows "(\<exists>a. contact = DialedIp a \<and> resolve_and_validate (wo_egress w)
        (if rq_method rq = ''CONNECT'' then p else q) (egress_target w rq) = Inr a)
    \<or> (if rq_method rq = ''CONNECT'' then \<exists>b. contact = Piped b
       else \<exists>h. contact = Forwarded (rq_url_string rq) h)
      \<and> (\<exists>a. DialedIp a \<in> set (sr_out (serve_http w rq e cl)))"
proof (cases "rq_method rq = ''CONNECT''")
  case True
  with connect_guarded [OF assms(1), of w rq cl] assms(4) show ?thesis
    by (simp add: serve_http_def guarded_contacts_def egress_target_def)
next
  case False
  with forward_guarded [OF assms(2), of w rq cl] assms(3,4) show ?thesis
    by (simp add: serve_http_def guarded_contacts_def egress_target_def)
qed

text \<open>
  A forwarded request for \<open>http://10.0.0.1/\<close> dials port 80 of that address; a CONNECT to the metadata
  service dials nothing.
\<close>

lemma sample_resolved:
  "resolve_and_validate sample_env (new_egress_policy egress_mode_metadata True) ''10.0.0.1:80''
     = Inr (V4 0x0A000001, ''80'')"
  "canonical_addr id ''http'' ''10.0.0.1'' = ''10.0.0.1:80''"
  "isl (resolve_and_validate sample_env (new_egress_policy egress_mode_metadata True) ''169.254.169.254:80'')"
  by code_simp+

lemma sample_forward_fields [simp]:
  "rq_method sample_forward = ''GET''" "rq_scheme sample_forward = ''http''"
  "rq_url_host sample_forward = ''10.0.0.1''" "is_forward_request sample_forward"
  by (simp_all add: sample_forward_def is_forward_request_def)

lemma sample_world_fields [simp]:
  "wo_egress sample_world = sample_env" "wo_idna sample_world = id" "wo_new_request sample_world = None"
  "wo_dial_ip sample_world = (\<lambda>_. Inr ())"
  by (simp_all add: sample_world_def)

lemma forward_out:
  assumes "wo_new_request w = None"
  shows "\<exists>g h e'. eg_forward_policy e' = eg_forward_policy e
    \<and> sr_out (handle_forward_proxy_http w rq e cl) = snd (forward_round_trip w (rq\<lparr>rq_header := g\<rparr>) h e')"
proof -
  obtain ctx e1 where c: "trace_context_of w (rq_header rq) e = (ctx, e1)" by fastforce
  then have "eg_forward_policy e1 = eg_forward_policy e"
    using trace_context_of_frame(9) [of w "rq_header rq" e] by simp
  moreover have "sr_out (handle_forward_proxy_http w rq e cl) = snd (forward_round_trip w
      (rq\<lparr>rq_header := hdr_set (stamp_headers ctx (rq_header rq)) ''X-DevHub-Egress'' ''true''\<rparr>)
      (copy_request_header (hdr_set (stamp_headers ctx (rq_header rq)) ''X-DevHub-Egress'' ''true'')) e1)"
    by (simp add: handle_forward_proxy_http_def c assms Let_def split: prod.split sum.split)
  ultimately show ?thesis by blast
qed

lemma sample_forward_dials:
  "\<exists>a. DialedIp a \<in> set (sr_out (serve_http sample_world sample_forward (sample_engine ''/'') sample_client))"
proof -
  obtain g h e' where "eg_forward_policy e' = Some (new_egress_policy egress_mode_metadata True)"
    and out: "sr_out (handle_forward_proxy_http sample_world sample_forward (sample_engine ''/'') sample_client)
      = snd (forward_round_trip sample_world (sample_forward\<lparr>rq_header := g\<rparr>) h e')"
    using forward_out [of sample_world "sample_engine ''/''" sample_forward sample_client]
    unfolding sample_world_fields(3) sample_engine_fields(7) by blast
  then have "DialedIp (V4 0x0A000001, ''80'') \<in> set (snd (forward_round_trip sample_world (sample_forward\<lparr>rq_header := g\<rparr>) h e'))"
    by (simp add: forward_round_trip_def dial_by_policy_def dial_validated_def sample_resolved)
  with out show ?thesis by (auto simp: serve_http_def)
qed

theorem egress_dials_validated_address_witness:
  "DialedIp (V4 0x0A000001, ''80'') \<in>
     set (sr_out (serve_http sample_world sample_forward (sample_engine ''/'') sample_client))
   \<and> (\<forall>a. DialedIp a \<notin> set (sr_out (serve_http sample_world
       ((sample_request [])\<lparr>rq_method := ''CONNECT'', rq_url_host := ''169.254.169.254:80''\<rparr>)
       (sample_engine ''/'') sample_client)))"
proof (intro conjI allI notI)
  note use = egress_dials_validated_address [OF sample_engine_fields(6,7)]
  obtain a where a: "DialedIp a \<in> set (sr_out (serve_http sample_world sample_forward (sample_engine ''/'') sample_client))"
    using sample_forward_dials by blast
  from use [OF _ a] have "a = (V4 0x0A000001, ''80'')"
    by (simp add: egress_target_def sample_resolved)
  with a show "DialedIp (V4 0x0A000001, ''80'') \<in>
      set (sr_out (serve_http sample_world sample_forward (sample_engine ''/'') sample_client))" by simp
  fix a
  assume "DialedIp a \<in> set (sr_out (serve_http sample_world
      ((sample_request [])\<lparr>rq_method := ''CONNECT'', rq_url_host := ''169.254.169.254:80''\<rparr>)
      (sample_engine ''/'') sample_client))"
  from use [OF _ this] show False
    using sample_resolved(3) by (simp add: egress_target_def)
qed


end
