(* ===== verification/Config.thy ===== *)
theory Config
  imports Mock_Rules Route_Trie
begin

text \<open>
  Configuration: src/pkg/config/config.go (the settings, their defaults, \<open>LoadConfig\<close> and the
  validation of routes and overrides) and the flag and environment overrides of src/cmd/main.go.
  \<open>url.Parse\<close>, the YAML decoder, \<open>%q\<close> and the file system are the fields of \<open>config_env\<close>.
\<close>

section \<open>Settings\<close>

record server_config =
  sc_proxy_port :: int
  sc_dashboard_port :: int
  sc_host :: string
  sc_dashboard_host :: string
  sc_auth_token :: string
  sc_enforce_breaker :: bool
  sc_block_metadata :: bool

record ingress_config =
  ic_port :: int
  ic_dashboard :: int

record docker_config =
  dc_enabled :: bool
  dc_socket_path :: string
  dc_network :: string
  dc_poll_logs :: bool
  dc_mode :: string
  dc_auto_route_all :: bool

record egress_config =
  ec_enabled :: bool
  ec_mode :: string
  ec_allowed_hosts :: "string list"
  ec_denied_cidrs :: "string list"

record tunnel_config =
  tc_enabled :: bool
  tc_server_url :: string
  tc_subdomain :: string
  tc_auth_token :: string

record tracing_config =
  tr_enabled :: bool
  tr_redact_pii :: bool
  tr_ring_size :: int
  tr_overflow_policy :: string

record route_config =
  rc_prefix :: string
  rc_target :: string
  rc_strip_prefix :: bool
  rc_health_check_path :: string
  rc_timeout_ms :: int

record override_config =
  oc_target :: string
  oc_strip_prefix :: bool
  oc_mock :: mock_rule

record config =
  cf_version :: string
  cf_server :: server_config
  cf_ingress :: ingress_config
  cf_docker :: docker_config
  cf_egress :: egress_config
  cf_tunnel :: tunnel_config
  cf_tracing :: tracing_config
  cf_routes :: "route_config list"
  cf_overrides :: "(string \<times> override_config) list"

datatype file_result = FileData string | FileMissing | FileError string

record config_env =
  cv_windows :: bool
  cv_exists :: "string \<Rightarrow> bool"
  cv_read :: "string \<Rightarrow> file_result"
  cv_unmarshal :: "string \<Rightarrow> config \<Rightarrow> string + config"
  cv_parse :: "string \<Rightarrow> string + gurl"
  cv_quote :: "string \<Rightarrow> string"

section \<open>Defaults\<close>

definition default_routes :: "route_config list" where
  "default_routes =
     [\<lparr>rc_prefix = ''/auth'', rc_target = ''http://localhost:5001'', rc_strip_prefix = False,
       rc_health_check_path = ''/health'', rc_timeout_ms = 5000\<rparr>,
      \<lparr>rc_prefix = ''/api/v1'', rc_target = ''http://localhost:5002'', rc_strip_prefix = True,
       rc_health_check_path = ''/health'', rc_timeout_ms = 10000\<rparr>,
      \<lparr>rc_prefix = ''/'', rc_target = ''http://localhost:3000'', rc_strip_prefix = False,
       rc_health_check_path = ''/'', rc_timeout_ms = 5000\<rparr>]"

definition default_socket :: "bool \<Rightarrow> string" where
  "default_socket windows =
     (if windows then [backslash, backslash] @ ''.'' @ [backslash] @ ''pipe'' @ [backslash] @ ''docker_engine''
      else ''/var/run/docker.sock'')"

definition default_config :: "bool \<Rightarrow> config" where
  "default_config windows =
     \<lparr>cf_version = ''1.0'',
      cf_server = \<lparr>sc_proxy_port = 4000, sc_dashboard_port = 4040, sc_host = ''0.0.0.0'',
        sc_dashboard_host = ''127.0.0.1'', sc_auth_token = [], sc_enforce_breaker = False, sc_block_metadata = True\<rparr>,
      cf_ingress = \<lparr>ic_port = 0, ic_dashboard = 0\<rparr>,
      cf_docker = \<lparr>dc_enabled = True, dc_socket_path = default_socket windows, dc_network = [],
        dc_poll_logs = True, dc_mode = ''strict'', dc_auto_route_all = False\<rparr>,
      cf_egress = \<lparr>ec_enabled = True, ec_mode = ''allow_all_except_metadata'', ec_allowed_hosts = [], ec_denied_cidrs = []\<rparr>,
      cf_tunnel = \<lparr>tc_enabled = False, tc_server_url = ''wss://relay.devhub.live/tunnel'', tc_subdomain = [], tc_auth_token = []\<rparr>,
      cf_tracing = \<lparr>tr_enabled = True, tr_redact_pii = True, tr_ring_size = 500, tr_overflow_policy = ''drop''\<rparr>,
      cf_routes = default_routes, cf_overrides = []\<rparr>"

section \<open>Loading\<close>

text \<open>\<open>None\<close> is no error.\<close>

definition validate_route_target :: "config_env \<Rightarrow> string \<Rightarrow> string option" where
  "validate_route_target env target =
     (case cv_parse env target of
        Inl err \<Rightarrow> Some (''invalid target URL: '' @ err)
      | Inr u \<Rightarrow>
          if u_scheme u \<noteq> ''http'' \<and> u_scheme u \<noteq> ''https''
          then Some (''target URL scheme must be http or https, got '' @ cv_quote env (u_scheme u))
          else if u_host u = [] then Some ''target URL host cannot be empty''
          else None)"

definition route_error :: "nat \<Rightarrow> string \<Rightarrow> string" where
  "route_error i msg = ''route #'' @ dec_of_nat i @ '' '' @ msg"

text \<open>The loop over the routes, from index \<open>i\<close> on.\<close>

fun check_routes :: "config_env \<Rightarrow> nat \<Rightarrow> route_config list \<Rightarrow> string + route_config list" where
  "check_routes env i [] = Inr []"
| "check_routes env i (r # rs) =
     (if rc_prefix r = [] then Inl (route_error i ''prefix cannot be empty'')
      else if rc_target r = [] then Inl (route_error i ''target cannot be empty'')
      else (case validate_route_target env (rc_target r) of
              Some err \<Rightarrow> Inl (route_error i (''invalid target: '' @ err))
            | None \<Rightarrow>
                (case check_routes env (i + 1) rs of
                   Inl err \<Rightarrow> Inl err
                 | Inr rs \<Rightarrow>
                     Inr ((if has_prefix (rc_prefix r) ''/'' then r else r\<lparr>rc_prefix := ''/'' @ rc_prefix r\<rparr>) # rs))))"

text \<open>The first route with this prefix takes the override; without one a route is appended.\<close>

fun override_route :: "string \<Rightarrow> override_config \<Rightarrow> route_config list \<Rightarrow> route_config list" where
  "override_route clean ov [] =
     [\<lparr>rc_prefix = clean, rc_target = oc_target ov, rc_strip_prefix = oc_strip_prefix ov,
       rc_health_check_path = [], rc_timeout_ms = 0\<rparr>]"
| "override_route clean ov (r # rs) =
     (if rc_prefix r = clean then r\<lparr>rc_target := oc_target ov, rc_strip_prefix := oc_strip_prefix ov\<rparr> # rs
      else r # override_route clean ov rs)"

definition clean_override :: "string \<Rightarrow> string" where
  "clean_override pre = ''/'' @ trim_slashes pre"

definition process_override :: "config_env \<Rightarrow> string \<Rightarrow> override_config \<Rightarrow> config \<Rightarrow> string + config" where
  "process_override env pre ov cfg =
     (let (ov, cfg) =
            (if mr_status_code (oc_mock ov) \<le> 0 \<and> 0 < mr_status (oc_mock ov)
             then (let ov = ov\<lparr>oc_mock := (oc_mock ov)\<lparr>mr_status_code := mr_status (oc_mock ov)\<rparr>\<rparr>
                   in (ov, cfg\<lparr>cf_overrides := AList.update pre ov (cf_overrides cfg)\<rparr>))
             else (ov, cfg))
      in if oc_target ov \<noteq> []
         then (case validate_route_target env (oc_target ov) of
                 Some err \<Rightarrow> Inl (''override '' @ cv_quote env pre @ '' invalid target: '' @ err)
               | None \<Rightarrow> Inr (cfg\<lparr>cf_routes := override_route (clean_override pre) ov (cf_routes cfg)\<rparr>))
         else Inr cfg)"

text \<open>The range over the overrides, in one iteration order.\<close>

fun process_overrides :: "config_env \<Rightarrow> (string \<times> override_config) list \<Rightarrow> config \<Rightarrow> string + config" where
  "process_overrides env [] cfg = Inr cfg"
| "process_overrides env ((pre, ov) # ovs) cfg =
     (case process_override env pre ov cfg of
        Inl err \<Rightarrow> Inl err
      | Inr cfg \<Rightarrow> process_overrides env ovs cfg)"

definition port_or :: "int \<Rightarrow> int \<Rightarrow> int" where
  "port_or d p = (if p \<le> 0 \<or> 65536 \<le> p then d else p)"

definition apply_fallbacks :: "config \<Rightarrow> config" where
  "apply_fallbacks cfg =
     (let cfg = (if tr_ring_size (cf_tracing cfg) \<le> 0
                 then cfg\<lparr>cf_tracing := (cf_tracing cfg)\<lparr>tr_ring_size := 500\<rparr>\<rparr> else cfg);
          s = cf_server cfg;
          s = s\<lparr>sc_proxy_port := port_or 4000 (sc_proxy_port s)\<rparr>;
          s = s\<lparr>sc_dashboard_port := port_or 4040 (sc_dashboard_port s)\<rparr>;
          s = (if sc_dashboard_host s = [] then s\<lparr>sc_dashboard_host := ''127.0.0.1''\<rparr> else s)
      in cfg\<lparr>cf_server := s\<rparr>)"

definition apply_ingress :: "config \<Rightarrow> config" where
  "apply_ingress cfg =
     (let s = cf_server cfg;
          s = (if 0 < ic_port (cf_ingress cfg) then s\<lparr>sc_proxy_port := ic_port (cf_ingress cfg)\<rparr> else s);
          s = (if 0 < ic_dashboard (cf_ingress cfg) then s\<lparr>sc_dashboard_port := ic_dashboard (cf_ingress cfg)\<rparr> else s)
      in cfg\<lparr>cf_server := s\<rparr>)"

text \<open>What follows the decoding.\<close>

definition finish_config :: "config_env \<Rightarrow> config \<Rightarrow> string + config" where
  "finish_config env cfg =
     (let cfg = apply_ingress cfg
      in case check_routes env 0 (cf_routes cfg) of
           Inl err \<Rightarrow> Inl err
         | Inr rs \<Rightarrow>
             (case process_overrides env (cf_overrides cfg) (cfg\<lparr>cf_routes := rs\<rparr>) of
                Inl err \<Rightarrow> Inl err
              | Inr cfg \<Rightarrow> Inr (apply_fallbacks cfg)))"

definition config_candidates :: "string list" where
  "config_candidates = [''.devhub.yaml'', ''.devhub.yml'', ''devhub.yaml'', ''devhub.yml'']"

definition load_config :: "config_env \<Rightarrow> string \<Rightarrow> string + config" where
  "load_config env path =
     (let cfg = default_config (cv_windows env);
          path = (if path = [] then (case find (cv_exists env) config_candidates of Some c \<Rightarrow> c | None \<Rightarrow> []) else path)
      in if path = [] then Inr cfg
         else (case cv_read env path of
                 FileMissing \<Rightarrow> Inr cfg
               | FileError err \<Rightarrow> Inl (''failed to read config file '' @ path @ '': '' @ err)
               | FileData data \<Rightarrow>
                   (case cv_unmarshal env data cfg of
                      Inl err \<Rightarrow> Inl (''failed to parse YAML config: '' @ err)
                    | Inr cfg \<Rightarrow> finish_config env cfg)))"

section \<open>Flags and environment\<close>

record flags =
  fl_config :: string
  fl_port :: int
  fl_dashboard :: int
  fl_dashboard_host :: string
  fl_dashboard_token :: string
  fl_circuit_breaker :: bool
  fl_no_docker :: bool
  fl_tunnel :: bool

text \<open>\<open>getenv\<close> yields the empty string for an unset variable.\<close>

definition env_port :: "string \<Rightarrow> int \<Rightarrow> int" where
  "env_port s old = (case go_atoi s of Some p \<Rightarrow> if 0 < p then p else old | None \<Rightarrow> old)"

definition choose_port :: "(string \<Rightarrow> string) \<Rightarrow> int \<Rightarrow> string \<Rightarrow> string \<Rightarrow> int \<Rightarrow> int" where
  "choose_port getenv flag var1 var2 old =
     (if 0 < flag then flag
      else if getenv var1 \<noteq> [] then env_port (getenv var1) old
      else if getenv var2 \<noteq> [] then env_port (getenv var2) old
      else old)"

definition choose_text :: "(string \<Rightarrow> string) \<Rightarrow> string \<Rightarrow> string \<Rightarrow> string \<Rightarrow> string" where
  "choose_text getenv flag var old =
     (if flag \<noteq> [] then flag else if getenv var \<noteq> [] then getenv var else old)"

definition config_path :: "(string \<Rightarrow> string) \<Rightarrow> flags \<Rightarrow> string" where
  "config_path getenv fl =
     (if fl_config fl = [] \<and> getenv ''DEVHUB_CONFIG'' \<noteq> [] then getenv ''DEVHUB_CONFIG'' else fl_config fl)"

definition apply_overrides :: "(string \<Rightarrow> string) \<Rightarrow> flags \<Rightarrow> config \<Rightarrow> config" where
  "apply_overrides getenv fl cfg =
     (let s = cf_server cfg;
          s = s\<lparr>sc_proxy_port := choose_port getenv (fl_port fl) ''PORT'' ''DEVHUB_PORT'' (sc_proxy_port s)\<rparr>;
          s = s\<lparr>sc_dashboard_port :=
                  choose_port getenv (fl_dashboard fl) ''DASHBOARD'' ''DEVHUB_DASHBOARD'' (sc_dashboard_port s)\<rparr>;
          s = s\<lparr>sc_dashboard_host :=
                  choose_text getenv (fl_dashboard_host fl) ''DEVHUB_DASHBOARD_HOST'' (sc_dashboard_host s)\<rparr>;
          s = s\<lparr>sc_auth_token :=
                  choose_text getenv (fl_dashboard_token fl) ''DEVHUB_DASHBOARD_TOKEN'' (sc_auth_token s)\<rparr>;
          s = (if fl_circuit_breaker fl then s\<lparr>sc_enforce_breaker := True\<rparr> else s);
          d = cf_docker cfg;
          d = (if getenv ''DOCKER_HOST'' \<noteq> [] then d\<lparr>dc_socket_path := getenv ''DOCKER_HOST''\<rparr> else d);
          d = (if fl_no_docker fl then d\<lparr>dc_enabled := False\<rparr> else d);
          t = cf_tunnel cfg;
          t = (if fl_tunnel fl then t\<lparr>tc_enabled := True\<rparr> else t)
      in cfg\<lparr>cf_server := s, cf_docker := d, cf_tunnel := t\<rparr>)"

text \<open>The configuration \<open>main\<close> hands to \<open>app.New\<close>, or the error it exits with.\<close>

definition main_config :: "config_env \<Rightarrow> (string \<Rightarrow> string) \<Rightarrow> flags \<Rightarrow> string + config" where
  "main_config env getenv fl =
     (case load_config env (config_path getenv fl) of
        Inl err \<Rightarrow> Inl err
      | Inr cfg \<Rightarrow> Inr (apply_overrides getenv fl cfg))"

section \<open>Lemmas\<close>

definition route_valid :: "config_env \<Rightarrow> route_config \<Rightarrow> bool" where
  "route_valid env r \<longleftrightarrow> has_prefix (rc_prefix r) ''/''
     \<and> (\<exists>u. cv_parse env (rc_target r) = Inr u \<and> u_scheme u \<in> {''http'', ''https''} \<and> u_host u \<noteq> [])"

definition server_ok :: "config \<Rightarrow> bool" where
  "server_ok cfg \<longleftrightarrow> 0 < sc_proxy_port (cf_server cfg) \<and> sc_proxy_port (cf_server cfg) < 65536
     \<and> 0 < sc_dashboard_port (cf_server cfg) \<and> sc_dashboard_port (cf_server cfg) < 65536
     \<and> sc_dashboard_host (cf_server cfg) \<noteq> [] \<and> 0 < tr_ring_size (cf_tracing cfg)"

lemma validate_route_target_None:
  "validate_route_target env t = None \<longleftrightarrow>
     (\<exists>u. cv_parse env t = Inr u \<and> u_scheme u \<in> {''http'', ''https''} \<and> u_host u \<noteq> [])"
  by (auto simp: validate_route_target_def split: sum.split)

lemma route_valid_iff:
  "route_valid env r \<longleftrightarrow> has_prefix (rc_prefix r) ''/'' \<and> validate_route_target env (rc_target r) = None"
  by (simp add: route_valid_def validate_route_target_None)

lemma check_routes_valid:
  "check_routes env i rs = Inr rs' \<Longrightarrow> \<forall>r \<in> set rs'. route_valid env r"
  by (induction env i rs arbitrary: rs' rule: check_routes.induct)
     (auto simp: route_valid_iff split: if_splits option.splits sum.splits)

lemma override_route_valid:
  assumes "\<forall>r \<in> set rs. route_valid env r" "validate_route_target env (oc_target ov) = None"
  shows "\<forall>r \<in> set (override_route (clean_override pre) ov rs). route_valid env r"
  using assms
proof (induction rs)
  case Nil
  have "has_prefix (clean_override pre) ''/''" by (simp add: clean_override_def)
  with Nil show ?case by (simp add: route_valid_iff)
next
  case (Cons r rs)
  have "route_valid env (r\<lparr>rc_target := oc_target ov, rc_strip_prefix := sp\<rparr>)" for sp
    using Cons.prems by (simp only: route_valid_iff list.set insert_iff ball_simps) simp
  with Cons show ?case by simp
qed

text \<open>What an override with a target does to the routes, whatever becomes of its mock rule.\<close>

lemma override_route_cong:
  "oc_target ov = oc_target ov' \<Longrightarrow> oc_strip_prefix ov = oc_strip_prefix ov' \<Longrightarrow>
     override_route c ov rs = override_route c ov' rs"
  by (induction rs) simp_all

lemma process_override_routes:
  assumes "process_override env pre ov cfg = Inr cfg'"
  shows "cf_routes cfg' = (if oc_target ov = [] then cf_routes cfg else override_route (clean_override pre) ov (cf_routes cfg))"
    and "oc_target ov \<noteq> [] \<Longrightarrow> validate_route_target env (oc_target ov) = None"
proof -
  let ?ov = "ov\<lparr>oc_mock := (oc_mock ov)\<lparr>mr_status_code := mr_status (oc_mock ov)\<rparr>\<rparr>"
  have "override_route (clean_override pre) ?ov (cf_routes cfg) = override_route (clean_override pre) ov (cf_routes cfg)"
    by (rule override_route_cong) simp_all
  then show "cf_routes cfg' = (if oc_target ov = [] then cf_routes cfg else override_route (clean_override pre) ov (cf_routes cfg))"
    and "oc_target ov \<noteq> [] \<Longrightarrow> validate_route_target env (oc_target ov) = None"
    using assms by (auto simp: process_override_def Let_def split: if_splits option.splits)
qed

lemma process_override_valid:
  assumes "process_override env pre ov cfg = Inr cfg'" "\<forall>r \<in> set (cf_routes cfg). route_valid env r"
  shows "\<forall>r \<in> set (cf_routes cfg'). route_valid env r"
  using process_override_routes [OF assms(1)] override_route_valid [OF assms(2)] assms(2) by auto

lemma process_overrides_valid:
  "process_overrides env ovs cfg = Inr cfg' \<Longrightarrow> \<forall>r \<in> set (cf_routes cfg). route_valid env r \<Longrightarrow>
     \<forall>r \<in> set (cf_routes cfg'). route_valid env r"
proof (induction env ovs cfg rule: process_overrides.induct)
  case (2 env pre ov ovs cfg)
  then show ?case using process_override_valid by (auto split: sum.splits)
qed simp

lemma apply_fallbacks_ok: "server_ok (apply_fallbacks cfg)" "cf_routes (apply_fallbacks cfg) = cf_routes cfg"
  by (simp_all add: server_ok_def apply_fallbacks_def port_or_def Let_def)

text \<open>The route an override leaves under its clean prefix.\<close>

lemma override_route_finds:
  "\<exists>r. find (\<lambda>r. rc_prefix r = c) (override_route c ov rs) = Some r \<and> rc_target r = oc_target ov
     \<and> rc_strip_prefix r = oc_strip_prefix ov"
  by (induction rs) auto

lemma override_route_other:
  "c \<noteq> d \<Longrightarrow> find (\<lambda>r. rc_prefix r = d) (override_route c ov rs) = find (\<lambda>r. rc_prefix r = d) rs"
  by (induction rs) auto

lemma process_overrides_other:
  assumes "process_overrides env ovs cfg = Inr cfg'" "d \<notin> clean_override ` fst ` set ovs"
  shows "find (\<lambda>r. rc_prefix r = d) (cf_routes cfg') = find (\<lambda>r. rc_prefix r = d) (cf_routes cfg)"
  using assms
proof (induction env ovs cfg rule: process_overrides.induct)
  case (2 env pre ov ovs cfg)
  then show ?case
    by (auto simp: process_override_routes(1) override_route_other split: sum.splits if_splits)
qed simp

lemma process_overrides_apply:
  assumes "process_overrides env ovs cfg = Inr cfg'" "distinct (map (clean_override \<circ> fst) ovs)"
    and "(pre, ov) \<in> set ovs" "oc_target ov \<noteq> []"
  shows "\<exists>r. find (\<lambda>r. rc_prefix r = clean_override pre) (cf_routes cfg') = Some r \<and> rc_target r = oc_target ov
    \<and> rc_strip_prefix r = oc_strip_prefix ov"
  using assms
proof (induction env ovs cfg rule: process_overrides.induct)
  case (2 env pre' ov' ovs cfg)
  then obtain cfg1 where step: "process_override env pre' ov' cfg = Inr cfg1" "process_overrides env ovs cfg1 = Inr cfg'"
    by (auto split: sum.splits)
  show ?case
  proof (cases "(pre, ov) = (pre', ov')")
    case True
    then have "clean_override pre \<notin> clean_override ` fst ` set ovs"
      using 2(3) by (auto simp: image_comp)
    with True show ?thesis
      using process_overrides_other [OF step(2)] process_override_routes(1) [OF step(1)] 2(5)
        override_route_finds [of "clean_override pre" ov "cf_routes cfg"] by auto
  next
    case False
    with 2 step show ?thesis by auto
  qed
qed simp

section \<open>Properties\<close>

text \<open>
  C28: every configuration \<open>LoadConfig\<close> returns has ports between 1 and 65535, a dashboard address and a
  positive ring size, and every route in it is a default one or begins with a slash and points to an
  http or https URL with a host.
\<close>

theorem loaded_config_in_bounds:
  assumes "load_config env path = Inr cfg"
  shows "server_ok cfg \<and> (\<forall>r \<in> set (cf_routes cfg). r \<in> set default_routes \<or> route_valid env r)"
proof -
  have default: "server_ok (default_config win)" "cf_routes (default_config win) = default_routes" for win
    by (simp_all add: server_ok_def default_config_def)
  have "server_ok cfg \<and> (\<forall>r \<in> set (cf_routes cfg). route_valid env r)" if "finish_config env c = Inr cfg" for c
  proof -
    from that obtain rs cfg1 where "check_routes env 0 (cf_routes (apply_ingress c)) = Inr rs"
      "process_overrides env (cf_overrides (apply_ingress c)) ((apply_ingress c)\<lparr>cf_routes := rs\<rparr>) = Inr cfg1"
      "cfg = apply_fallbacks cfg1"
      by (auto simp: finish_config_def Let_def split: sum.splits)
    with process_overrides_valid check_routes_valid show ?thesis
      by (simp add: apply_fallbacks_ok)
  qed
  with assms default show ?thesis
    by (auto simp: load_config_def Let_def split: if_splits file_result.splits sum.splits option.splits)
qed

definition sample_config_env :: config_env where
  "sample_config_env = \<lparr>cv_windows = False, cv_exists = (\<lambda>_. False), cv_read = (\<lambda>_. FileMissing),
     cv_unmarshal = (\<lambda>_ c. Inr c), cv_parse = (\<lambda>s. Inr \<lparr>u_scheme = ''http'', u_host = drop 7 s, u_string = s\<rparr>),
     cv_quote = id\<rparr>"

lemma sample_load: "load_config sample_config_env [] = Inr (default_config False)"
  by (simp add: load_config_def sample_config_env_def config_candidates_def)

theorem loaded_config_in_bounds_witness:
  "server_ok (default_config False) \<and> \<not> server_ok ((default_config False)\<lparr>cf_server :=
     (cf_server (default_config False))\<lparr>sc_proxy_port := 70000\<rparr>\<rparr>)"
  using loaded_config_in_bounds [OF sample_load] by (simp add: server_ok_def)

text \<open>
  when no two overrides name the same route, each override with a target ends up in the route of
  its prefix, whatever the iteration order.
\<close>

theorem overrides_take_effect:
  assumes "finish_config env c = Inr cfg" "distinct (map (clean_override \<circ> fst) (cf_overrides c))"
    and "(pre, ov) \<in> set (cf_overrides c)" "oc_target ov \<noteq> []"
  shows "\<exists>r. find (\<lambda>r. rc_prefix r = clean_override pre) (cf_routes cfg) = Some r
    \<and> rc_target r = oc_target ov \<and> rc_strip_prefix r = oc_strip_prefix ov"
proof -
  have same: "cf_overrides (apply_ingress c) = cf_overrides c" by (simp add: apply_ingress_def Let_def)
  from assms(1) obtain rs cfg1 where
    "process_overrides env (cf_overrides c) ((apply_ingress c)\<lparr>cf_routes := rs\<rparr>) = Inr cfg1" "cfg = apply_fallbacks cfg1"
    by (auto simp: finish_config_def Let_def same split: sum.splits)
  with process_overrides_apply [OF this(1) assms(2-4)] show ?thesis
    by (simp add: apply_fallbacks_ok)
qed

definition sample_override :: override_config where
  "sample_override = \<lparr>oc_target = ''http://localhost:9'', oc_strip_prefix = True,
     oc_mock = \<lparr>mr_prefix = [], mr_enabled = False, mr_mode = [], mr_status_code = 0, mr_status = 0,
       mr_headers = None, mr_body = [], mr_delay_ms = 0\<rparr>\<rparr>"

definition sample_config :: config where
  "sample_config = (default_config False)\<lparr>cf_overrides := [(''auth/'', sample_override)]\<rparr>"

lemma sample_finish: "\<exists>cfg. finish_config sample_config_env sample_config = Inr cfg"
  by (simp add: finish_config_def sample_config_def sample_override_def default_config_def default_routes_def
      apply_ingress_def process_override_def validate_route_target_def sample_config_env_def Let_def)

theorem overrides_take_effect_witness:
  "\<exists>cfg r. finish_config sample_config_env sample_config = Inr cfg
     \<and> find (\<lambda>r. rc_prefix r = ''/auth'') (cf_routes cfg) = Some r \<and> rc_target r = ''http://localhost:9''"
proof -
  obtain cfg where cfg: "finish_config sample_config_env sample_config = Inr cfg"
    using sample_finish by blast
  have ov: "cf_overrides sample_config = [(''auth/'', sample_override)]" by (simp add: sample_config_def)
  have pre: "clean_override ''auth/'' = ''/auth''"
    by (simp add: clean_override_def trim_slashes_def trim_left_def trim_right_def)
  have "distinct (map (clean_override \<circ> fst) (cf_overrides sample_config))" "(''auth/'', sample_override) \<in> set (cf_overrides sample_config)"
    "oc_target sample_override \<noteq> []"
    by (simp_all add: ov) (simp add: sample_override_def)
  from overrides_take_effect [OF cfg this] cfg show ?thesis
    unfolding pre by (auto simp: sample_override_def)
qed

text \<open>
  flags and environment variables take precedence over the file in the documented order, but their
  ports are only checked to be positive: a port above 65535 reaches the listener.
\<close>

theorem override_ports_unchecked:
  assumes "fl_port fl = 0" "go_atoi (getenv ''PORT'') = Some p" "65535 < p"
    and "load_config env (config_path getenv fl) = Inr cfg"
  shows "\<exists>cfg'. main_config env getenv fl = Inr cfg' \<and> sc_proxy_port (cf_server cfg') = p \<and> \<not> server_ok cfg'"
proof -
  have "getenv ''PORT'' \<noteq> []" using assms(2) by (auto simp: go_atoi_def)
  then have "choose_port getenv (fl_port fl) ''PORT'' ''DEVHUB_PORT'' old = p" for old
    using assms by (simp add: choose_port_def env_port_def)
  then show ?thesis
    using assms(3,4) by (simp add: main_config_def apply_overrides_def server_ok_def Let_def)
qed

theorem override_ports_unchecked_witness:
  "\<exists>cfg. main_config sample_config_env (\<lambda>v. if v = ''PORT'' then ''70000'' else [])
     \<lparr>fl_config = [], fl_port = 0, fl_dashboard = 0, fl_dashboard_host = [], fl_dashboard_token = [],
      fl_circuit_breaker = False, fl_no_docker = False, fl_tunnel = False\<rparr> = Inr cfg
   \<and> sc_proxy_port (cf_server cfg) = 70000"
proof -
  let ?fl = "\<lparr>fl_config = [], fl_port = 0, fl_dashboard = 0, fl_dashboard_host = [], fl_dashboard_token = [],
      fl_circuit_breaker = False, fl_no_docker = False, fl_tunnel = False\<rparr>"
  let ?env = "\<lambda>v. if v = ''PORT'' then ''70000'' else []"
  have "go_atoi ''70000'' = Some 70000" by code_simp
  then have port: "go_atoi (?env ''PORT'') = Some 70000" by simp
  have "load_config sample_config_env (config_path ?env ?fl) = Inr (default_config False)"
    by (simp add: config_path_def sample_load)
  from override_ports_unchecked [OF _ port _ this] show ?thesis by auto
qed

end
