(* ===== verification/Replay.thy ===== *)
theory Replay
  imports Webhook Trace_Context Capture "HOL-Library.Multiset"
begin

text \<open>
  On-demand replay of a recorded request, src/pkg/proxy/replay.go: the header pipeline (bypass,
  re-signing, detection), the request handed to the engine, and the bounded answer. The engine is the
  argument \<open>rv_serve\<close>; it receives a request and yields status, header and body of the recorder. The
  order in which Go ranges over a map is the argument \<open>rv_order\<close>.
\<close>

section \<open>Requests and answers\<close>

record replay_request =
  rp_method :: string
  rp_url :: string
  rp_headers :: str_headers
  rp_body :: string
  rp_resign_provider :: string
  rp_webhook_secret :: string
  rp_bypass_signatures :: bool

record replay_response =
  rs_status_code :: int
  rs_headers :: str_headers
  rs_body :: string
  rs_duration_ms :: int
  rs_trace_id :: string

text \<open>The request that reaches the engine; an empty body is none.\<close>

record replayed =
  rd_method :: string
  rd_url :: string
  rd_header :: header
  rd_body :: string

record replay_env =
  rv_hmac :: hmac
  rv_lower :: "string \<Rightarrow> string"
  rv_now :: int
  rv_later :: int
  rv_order :: "str_headers \<Rightarrow> str_headers"
  rv_new_request :: "string \<Rightarrow> string \<Rightarrow> string option"
  rv_duration :: int
  rv_serve :: "replayed \<Rightarrow> int \<times> header \<times> string"

section \<open>Execution\<close>

text \<open>Step 1 of \<open>Execute\<close>: which headers are replayed.\<close>

definition replay_resign :: "replay_env \<Rightarrow> str_headers \<Rightarrow> string \<Rightarrow> replay_request \<Rightarrow> str_headers" where
  "replay_resign env headers provider p =
     (case resign_headers (rv_hmac env) (rv_lower env) (rv_now env) (rv_later env) headers provider
             (rp_webhook_secret p) (rp_body p) of
        (resigned, None) \<Rightarrow> resigned
      | (_, Some _) \<Rightarrow> headers)"

definition replay_headers :: "replay_env \<Rightarrow> replay_request \<Rightarrow> str_headers" where
  "replay_headers env p =
     (let headers = rp_headers p
      in if rp_bypass_signatures p then bypass_headers (rv_lower env) headers
         else if rp_resign_provider p \<noteq> [] \<and> rp_webhook_secret p \<noteq> []
         then replay_resign env headers (rp_resign_provider p) p
         else if rp_webhook_secret p \<noteq> []
         then (let detected = detect_provider (rv_lower env) (rv_order env headers)
               in if detected \<noteq> [] then replay_resign env headers detected p else headers)
         else headers)"

definition set_all :: "header \<Rightarrow> str_headers \<Rightarrow> header" where
  "set_all h hs = foldl (\<lambda>h (k, v). hdr_set h k v) h hs"

text \<open>The header of the request, and the trace id the answer reports.\<close>

definition stamp_replay :: "header \<Rightarrow> u64 \<Rightarrow> (header \<times> string) \<times> u64" where
  "stamp_replay h counter =
     (let trace_id = hdr_get h ''X-DevHub-Trace-ID'';
          (h, trace_id, counter) =
            (if trace_id = []
             then (let (t, c) = fast_trace_id counter in (hdr_set h ''X-DevHub-Trace-ID'' t, t, c))
             else (h, trace_id, counter))
      in ((hdr_set h ''X-DevHub-Replayed'' ''true'', trace_id), counter))"

definition max_replay_capture :: nat where "max_replay_capture = 1024 * 1024"

definition truncation_note :: string where
  "truncation_note = [char_of (10 :: int)] @ ''...[response truncated by DevHub 1MB replay limit]''"

definition bounded_body :: "string \<Rightarrow> string" where
  "bounded_body body =
     (let resp = take (max_replay_capture + 1) body
      in if max_replay_capture < length resp then take max_replay_capture resp @ truncation_note else resp)"

definition normalise_replay :: "replay_request \<Rightarrow> replay_request" where
  "normalise_replay p =
     (let p = (if rp_method p = [] then p\<lparr>rp_method := ''GET''\<rparr> else p)
      in if rp_url p = [] then p\<lparr>rp_url := ''/''\<rparr> else p)"

text \<open>The answer or the error, the request that was served, and the id counter.\<close>

definition execute ::
  "replay_env \<Rightarrow> replay_request \<Rightarrow> u64 \<Rightarrow> (string + replay_response) \<times> replayed option \<times> u64" where
  "execute env p counter =
     (let p = normalise_replay p; headers = replay_headers env p
      in case rv_new_request env (rp_method p) (rp_url p) of
           Some err \<Rightarrow> (Inl (''failed to create replay request: '' @ err), None, counter)
         | None \<Rightarrow>
             (let ((h, trace_id), counter) = stamp_replay (set_all [] (rv_order env headers)) counter;
                  rd = \<lparr>rd_method = rp_method p, rd_url = rp_url p, rd_header = h, rd_body = rp_body p\<rparr>;
                  (status, rh, body) = rv_serve env rd
              in (Inr \<lparr>rs_status_code = status, rs_headers = extract_headers rh, rs_body = bounded_body body,
                       rs_duration_ms = rv_duration env, rs_trace_id = trace_id\<rparr>, Some rd, counter)))"

section \<open>Setting many headers\<close>

text \<open>The entries of a header map that end up in the field of \<open>k\<close>.\<close>

definition for_field :: "string \<Rightarrow> str_headers \<Rightarrow> str_headers" where
  "for_field k hs = filter (\<lambda>(l, v). canonical_key l = canonical_key k) hs"

lemma set_all_get:
  "hdr_get (set_all h hs) k = (if for_field k hs = [] then hdr_get h k else snd (last (for_field k hs)))"
proof (induction hs rule: rev_induct)
  case Nil
  then show ?case by (simp add: set_all_def for_field_def)
next
  case (snoc x hs)
  obtain l v where x: "x = (l, v)" by (cases x)
  show ?case
  proof (cases "canonical_key l = canonical_key k")
    case True
    then have "hdr_get (hdr_set h' l v) k = v" for h'
      by (simp add: hdr_get_def hdr_set_def)
    with True show ?thesis by (simp add: set_all_def for_field_def x)
  next
    case False
    with snoc show ?thesis by (simp add: set_all_def for_field_def x)
  qed
qed

text \<open>When only one entry goes to a field, the order does not matter.\<close>

lemma set_all_unique:
  assumes "mset (ord hs) = mset hs" "for_field k hs = [(l, v)]"
  shows "hdr_get (set_all [] (ord hs)) k = v"
proof -
  have "mset (for_field k (ord hs)) = mset (for_field k hs)"
    using assms(1) by (simp add: for_field_def mset_filter)
  with assms(2) have "for_field k (ord hs) = [(l, v)]"
    by simp
  then show ?thesis by (simp add: set_all_get)
qed

lemma set_all_none:
  assumes "mset (ord hs) = mset hs" "for_field k hs = []"
  shows "hdr_get (set_all [] (ord hs)) k = []"
proof -
  have "mset (for_field k (ord hs)) = mset (for_field k hs)"
    using assms(1) by (simp add: for_field_def mset_filter)
  with assms(2) have "for_field k (ord hs) = []" by simp
  then show ?thesis by (simp add: set_all_get) (simp add: hdr_get_def)
qed

text \<open>A map with one canonical name for the field.\<close>

lemma for_field_single:
  assumes "map_ok hs" "map_of hs key = Some v" "\<forall>k \<in> fst ` set hs. canonical_key k = canonical_key key \<longrightarrow> k = key"
  shows "for_field key hs = [(key, v)]"
  using assms
proof (induction hs)
  case (Cons x hs)
  obtain k u where x: "x = (k, u)" by (cases x)
  show ?case
  proof (cases "k = key")
    case True
    with Cons.prems(1) x have "key \<notin> fst ` set hs" by auto
    have "canonical_key l \<noteq> canonical_key key" if "(l, u) \<in> set hs" for l u
    proof -
      from that have "l \<in> fst ` set hs" by force
      moreover from this have "l \<in> fst ` set (x # hs)" by simp
      with Cons.prems(3) have "canonical_key l = canonical_key key \<longrightarrow> l = key" by blast
      ultimately show ?thesis using \<open>key \<notin> fst ` set hs\<close> by blast
    qed
    then have "for_field key hs = []"
      by (auto simp: for_field_def filter_empty_conv)
    with Cons.prems(2) True show ?thesis by (simp add: for_field_def x)
  next
    case False
    with Cons.prems(3) x have "canonical_key k \<noteq> canonical_key key" by auto
    with Cons False show ?thesis by (simp add: for_field_def x)
  qed
qed simp

lemma resigned_keys:
  assumes "resign_headers hm uni now now' hs provider secret payload = (out, None)"
  shows "fst ` set out \<subseteq> fst ` set hs \<union> {fst (projr (calculate_signature hm uni now provider secret payload 0)),
      ''X-Slack-Request-Timestamp'', ''X-DevHub-Resigned-Webhook''}"
  using assms by (auto simp: resign_headers_def Let_def dest!: set_update_cases split: sum.splits if_splits)

lemma resigned_value:
  assumes "calculate_signature hm uni now provider secret payload 0 = Inr (key, val)"
  shows "\<exists>out. resign_headers hm uni now now' hs provider secret payload = (out, None) \<and> map_of out key = Some val
    \<and> (map_ok hs \<longrightarrow> map_ok out)
    \<and> (\<forall>k. k \<notin> {key, ''X-Slack-Request-Timestamp'', ''X-DevHub-Resigned-Webhook''} \<longrightarrow> map_of out k = map_of hs k)"
  using assms calculate_key [OF assms] by (simp add: resign_headers_def Let_def)

lemma signature_header_names:
  assumes "calculate_signature hm uni now provider secret payload 0 = Inr (key, val)"
  shows "canonical_key key = key \<and> key \<noteq> ''X-Devhub-Resigned-Webhook'' \<and> key \<noteq> ''X-Devhub-Trace-Id''
    \<and> key \<noteq> ''X-Devhub-Replayed''"
proof -
  have "key \<in> {''Stripe-Signature'', ''X-Hub-Signature-256'', ''X-Razorpay-Signature'', ''X-Shopify-Hmac-Sha256'',
      ''X-Slack-Signature'', ''X-Signature-256''}"
    using assms by (auto simp: calculate_signature_def Let_def split: if_splits)
  moreover have "canonical_key ''Stripe-Signature'' = ''Stripe-Signature''"
    "canonical_key ''X-Hub-Signature-256'' = ''X-Hub-Signature-256''"
    "canonical_key ''X-Razorpay-Signature'' = ''X-Razorpay-Signature''"
    "canonical_key ''X-Shopify-Hmac-Sha256'' = ''X-Shopify-Hmac-Sha256''"
    "canonical_key ''X-Slack-Signature'' = ''X-Slack-Signature''" "canonical_key ''X-Signature-256'' = ''X-Signature-256''"
    by code_simp+
  ultimately show ?thesis by auto
qed

lemma replay_names [simp]:
  "canonical_key ''X-DevHub-Replayed'' = ''X-Devhub-Replayed''"
  "canonical_key ''X-DevHub-Resigned-Webhook'' = ''X-Devhub-Resigned-Webhook''"
  "canonical_key ''X-Slack-Request-Timestamp'' = ''X-Slack-Request-Timestamp''"
  by code_simp+

lemma stamp_replay_get:
  assumes "stamp_replay h counter = ((h', trace_id), counter')"
  shows "hdr_get h' ''X-DevHub-Replayed'' = ''true''" "hdr_get h' ''X-DevHub-Trace-ID'' = trace_id" "trace_id \<noteq> []"
    and "canonical_key k \<notin> {''X-Devhub-Replayed'', ''X-Devhub-Trace-Id''} \<Longrightarrow> hdr_get h' k = hdr_get h k"
  using assms by (auto simp: stamp_replay_def fast_trace_id_def hex_encode_def hex_byte_def be_bytes64_def Let_def
      split: if_splits)

lemma execute_succeeds:
  "\<forall>m u. rv_new_request env m u = None \<Longrightarrow> \<exists>resp rd c. execute env p counter = (Inr resp, Some rd, c)"
  by (simp add: execute_def Let_def split: prod.split)

text \<open>\<open>execute\<close> without its error branch.\<close>

lemma execute_sends:
  assumes "execute env p counter = (Inr resp, Some rd, counter')"
  shows "\<exists>h. stamp_replay (set_all [] (rv_order env (replay_headers env (normalise_replay p)))) counter
      = ((rd_header rd, rs_trace_id resp), counter') \<and> rs_body resp = bounded_body h"
  using assms by (auto simp: execute_def Let_def split: option.splits prod.splits)

lemma normalise_fields [simp]:
  "rp_headers (normalise_replay p) = rp_headers p" "rp_body (normalise_replay p) = rp_body p"
  "rp_resign_provider (normalise_replay p) = rp_resign_provider p"
  "rp_webhook_secret (normalise_replay p) = rp_webhook_secret p"
  "rp_bypass_signatures (normalise_replay p) = rp_bypass_signatures p"
  by (simp_all add: normalise_replay_def Let_def)

section \<open>Properties\<close>

text \<open>
  C33: when a recorded request, whose header names are canonical, is replayed with re-signing for a
  supported provider, the request that reaches the engine carries the freshly calculated signature in
  whatever order Go ranges over the headers, and is marked as a replay with the reported trace id.
\<close>

theorem replay_sends_fresh_signature:
  assumes "execute env p counter = (Inr resp, Some rd, counter')" "\<forall>hs. mset (rv_order env hs) = mset hs"
    and "\<not> rp_bypass_signatures p" "rp_resign_provider p \<noteq> []" "rp_webhook_secret p \<noteq> []"
    and "map_ok (rp_headers p)" "\<forall>k \<in> fst ` set (rp_headers p). canonical_key k = k"
    and "calculate_signature (rv_hmac env) (rv_lower env) (rv_now env) (rp_resign_provider p) (rp_webhook_secret p)
           (rp_body p) 0 = Inr (key, val)"
  shows "hdr_get (rd_header rd) key = val \<and> hdr_get (rd_header rd) ''X-DevHub-Replayed'' = ''true''
    \<and> hdr_get (rd_header rd) ''X-DevHub-Trace-ID'' = rs_trace_id resp \<and> rs_trace_id resp \<noteq> []"
proof -
  obtain out where out: "resign_headers (rv_hmac env) (rv_lower env) (rv_now env) (rv_later env) (rp_headers p)
      (rp_resign_provider p) (rp_webhook_secret p) (rp_body p) = (out, None)" "map_of out key = Some val" "map_ok out"
    using resigned_value [OF assms(8)] assms(6) by blast
  have "replay_headers env (normalise_replay p) = out"
    using assms(3-5) out by (simp add: replay_headers_def replay_resign_def Let_def)
  with execute_sends [OF assms(1)] have st: "stamp_replay (set_all [] (rv_order env out)) counter
      = ((rd_header rd, rs_trace_id resp), counter')" by auto
  note names = signature_header_names [OF assms(8)]
  have "\<forall>k \<in> fst ` set out. canonical_key k = canonical_key key \<longrightarrow> k = key"
  proof (intro ballI impI)
    fix k assume k: "k \<in> fst ` set out" and eq: "canonical_key k = canonical_key key"
    from k resigned_keys [OF out(1)] consider "k \<in> fst ` set (rp_headers p)" | "k = key"
      | "k = ''X-Slack-Request-Timestamp''" | "k = ''X-DevHub-Resigned-Webhook''"
      by (auto simp: assms(8))
    then show "k = key"
      using eq names assms(7) by cases auto
  qed
  from set_all_unique [of "rv_order env" out, OF _ for_field_single [OF out(3,2) this]] assms(2)
  have "hdr_get (set_all [] (rv_order env out)) key = val" by simp
  with stamp_replay_get [OF st] names show ?thesis by auto
qed

definition sample_replay_env :: "(str_headers \<Rightarrow> str_headers) \<Rightarrow> replay_env" where
  "sample_replay_env ord = \<lparr>rv_hmac = toy_hmac, rv_lower = id, rv_now = 5, rv_later = 5, rv_order = ord,
     rv_new_request = (\<lambda>_ _. None), rv_duration = 1, rv_serve = (\<lambda>_. (200, [], ''ok''))\<rparr>"

definition sample_replay :: "str_headers \<Rightarrow> replay_request" where
  "sample_replay hs = \<lparr>rp_method = ''POST'', rp_url = ''/hook'', rp_headers = hs, rp_body = ''{}'',
     rp_resign_provider = provider_github, rp_webhook_secret = ''s3cret'', rp_bypass_signatures = False\<rparr>"

lemma sample_execute:
  "\<exists>resp rd c. execute (sample_replay_env ord) p 0 = (Inr resp, Some rd, c)"
  by (rule execute_succeeds) (simp add: sample_replay_env_def)

lemma sample_signature:
  "\<exists>val. calculate_signature hm id now provider_github sec body 0 = Inr (''X-Hub-Signature-256'', val)"
proof -
  have "to_lower id provider_github = provider_github" by code_simp
  then show ?thesis by (simp add: calculate_signature_def provider_defs)
qed

theorem replay_sends_fresh_signature_witness:
  "\<exists>resp rd c val. execute (sample_replay_env id) (sample_replay [(''X-Hub-Signature-256'', ''sha256=old'')]) 0
      = (Inr resp, Some rd, c)
     \<and> calculate_signature toy_hmac id 5 provider_github ''s3cret'' ''{}'' 0 = Inr (''X-Hub-Signature-256'', val)
     \<and> hdr_get (rd_header rd) ''X-Hub-Signature-256'' = val"
proof -
  let ?p = "sample_replay [(''X-Hub-Signature-256'', ''sha256=old'')]" and ?env = "sample_replay_env id"
  obtain resp rd c where ex: "execute ?env ?p 0 = (Inr resp, Some rd, c)" using sample_execute by blast
  obtain val where val: "calculate_signature toy_hmac id 5 provider_github ''s3cret'' ''{}'' 0 = Inr (''X-Hub-Signature-256'', val)"
    using sample_signature by blast
  have canon: "canonical_key ''X-Hub-Signature-256'' = ''X-Hub-Signature-256''" by code_simp
  have "hdr_get (rd_header rd) ''X-Hub-Signature-256'' = val"
    using replay_sends_fresh_signature [OF ex, of "''X-Hub-Signature-256''" val] val canon
    by (simp add: sample_replay_env_def sample_replay_def provider_github_def)
  with ex val show ?thesis by blast
qed

text \<open>
  when the recorded headers name the signature in another letter case, the fresh signature is added
  beside the stale one and both are set on the request under the same canonical name: in some order of
  iteration the stale one is sent.
\<close>

theorem stale_signature_can_win:
  assumes "calculate_signature (rv_hmac env) (rv_lower env) (rv_now env) (rp_resign_provider p) (rp_webhook_secret p)
           (rp_body p) 0 = Inr (key, val)"
    and "\<not> rp_bypass_signatures p" "rp_resign_provider p \<noteq> []" "rp_webhook_secret p \<noteq> []"
    and "\<forall>m u. rv_new_request env m u = None" "map_of (rp_headers p) stale = Some old"
    and "canonical_key stale = key" "stale \<noteq> key" "stale \<noteq> ''X-Slack-Request-Timestamp''"
  shows "\<exists>ord resp rd c. (\<forall>hs. mset (ord hs) = mset hs)
    \<and> execute (env\<lparr>rv_order := ord\<rparr>) p counter = (Inr resp, Some rd, c) \<and> hdr_get (rd_header rd) key = old"
proof -
  define ord :: "str_headers \<Rightarrow> str_headers" where
    "ord = (\<lambda>hs. filter (\<lambda>x. x \<noteq> (stale, old)) hs @ filter (\<lambda>x. x = (stale, old)) hs)"
  have perm: "mset (ord hs) = mset hs" for hs
    by (induction hs) (auto simp: ord_def)
  let ?env = "env\<lparr>rv_order := ord\<rparr>"
  note names = signature_header_names [OF assms(1)]
  have other: "stale \<notin> {key, ''X-Slack-Request-Timestamp'', ''X-DevHub-Resigned-Webhook''}"
    using assms(7-9) names by auto
  obtain out where out: "resign_headers (rv_hmac env) (rv_lower env) (rv_now env) (rv_later env) (rp_headers p)
      (rp_resign_provider p) (rp_webhook_secret p) (rp_body p) = (out, None)" "map_of out stale = Some old"
    using resigned_value [OF assms(1), of "rv_later env" "rp_headers p"] other assms(6) by auto
  have hs: "replay_headers ?env (normalise_replay p) = out"
    using assms(2-4) out by (simp add: replay_headers_def replay_resign_def Let_def)
  obtain resp rd c where ex: "execute ?env p counter = (Inr resp, Some rd, c)"
    using execute_succeeds [of ?env p counter] assms(5) by auto
  from execute_sends [OF ex] hs have st: "stamp_replay (set_all [] (ord out)) counter = ((rd_header rd, rs_trace_id resp), c)"
    by auto
  have "(stale, old) \<in> set out" using out(2) by (rule map_of_SomeD)
  then have "for_field key (filter (\<lambda>x. x = (stale, old)) out) = filter (\<lambda>x. x = (stale, old)) out"
    and ne: "filter (\<lambda>x. x = (stale, old)) out \<noteq> []"
    using assms(7) names by (auto simp: for_field_def filter_empty_conv intro!: filter_cong)
  then have "last (for_field key (ord out)) = last (filter (\<lambda>x. x = (stale, old)) out)" "for_field key (ord out) \<noteq> []"
    by (auto simp: ord_def for_field_def)
  moreover have "last (filter (\<lambda>x. x = (stale, old)) out) = (stale, old)"
    using last_in_set [OF ne] by simp
  ultimately have "hdr_get (set_all [] (ord out)) key = old" by (simp add: set_all_get)
  with stamp_replay_get(4) [OF st, of key] names have "hdr_get (rd_header rd) key = old" by auto
  with perm ex show ?thesis by blast
qed

theorem stale_signature_can_win_witness:
  "\<exists>ord resp rd c. execute ((sample_replay_env id)\<lparr>rv_order := ord\<rparr>)
      (sample_replay [(''x-hub-signature-256'', ''sha256=old'')]) 0 = (Inr resp, Some rd, c)
     \<and> hdr_get (rd_header rd) ''X-Hub-Signature-256'' = ''sha256=old''"
proof -
  obtain val where val: "calculate_signature toy_hmac id 5 provider_github ''s3cret'' ''{}'' 0 = Inr (''X-Hub-Signature-256'', val)"
    using sample_signature by blast
  have canon: "canonical_key ''x-hub-signature-256'' = ''X-Hub-Signature-256''" by code_simp
  show ?thesis
    using stale_signature_can_win [of "sample_replay_env id" "sample_replay [(''x-hub-signature-256'', ''sha256=old'')]"
        "''X-Hub-Signature-256''" val "''x-hub-signature-256''" "''sha256=old''" 0] val canon
    by (simp add: sample_replay_env_def sample_replay_def provider_github_def) blast
qed

section \<open>Bypassing\<close>

lemma lower_upper_char [simp]: "lower_char (upper_char c) = lower_char c"
  by (subst char_eq_iff_nat) (auto simp: of_char_lower of_char_upper)

lemma lower_canonical_loop: "map lower_char (canonical_loop up s) = map lower_char s"
  by (induction s arbitrary: up) auto

lemma token_ascii: "token_char c \<Longrightarrow> (of_char c :: nat) < 128"
  by (auto simp: token_char_def Let_def)

lemma signature_key_field:
  assumes "canonical_key l = canonical_key k" "k \<in> set signature_keys"
  shows "to_lower uni l = k"
proof -
  have k: "list_all token_char k" "map lower_char k = k"
  proof -
    have "list_all (\<lambda>k. list_all token_char k \<and> map lower_char k = k) signature_keys" by code_simp
    with assms(2) show "list_all token_char k" "map lower_char k = k" by (auto simp: list_all_iff)
  qed
  have l: "list_all token_char l"
  proof (rule ccontr)
    assume "\<not> list_all token_char l"
    then have "l = canonical_loop True k" using assms(1) k by (simp add: canonical_key_def)
    with \<open>\<not> list_all token_char l\<close> canonical_loop_token [OF k(1)] show False by simp
  qed
  then have "canonical_loop True l = canonical_loop True k"
    using assms(1) k by (simp add: canonical_key_def)
  then have "map lower_char l = map lower_char k" by (metis lower_canonical_loop)
  moreover have "is_ascii l"
    using l by (auto simp: is_ascii_def list_all_iff token_ascii)
  ultimately show ?thesis using k(2) by (simp add: to_lower_def)
qed

text \<open>
  a replay with bypassed signatures reaches the engine without any known signature header, however
  the recorded names are spelled, and is marked as a bypass.
\<close>

theorem replay_bypass_sends_no_signature:
  assumes "execute env p counter = (Inr resp, Some rd, counter')" "\<forall>hs. mset (rv_order env hs) = mset hs"
    and "rp_bypass_signatures p" "k \<in> set signature_keys"
  shows "hdr_get (rd_header rd) k = []"
proof -
  let ?out = "bypass_headers (rv_lower env) (rp_headers p)"
  have "replay_headers env (normalise_replay p) = ?out"
    using assms(3) by (simp add: replay_headers_def Let_def)
  with execute_sends [OF assms(1)] have st: "stamp_replay (set_all [] (rv_order env ?out)) counter
      = ((rd_header rd, rs_trace_id resp), counter')" by auto
  have marks: "to_lower (rv_lower env) ''X-DevHub-Test-Mode'' \<notin> set signature_keys"
    "to_lower (rv_lower env) ''X-DevHub-Signature-Bypass'' \<notin> set signature_keys"
    by (simp_all add: to_lower_def is_ascii_def lower_char_def ascii_upper_def signature_keys_def char_of_eq_iff)
  have "for_field k ?out = []"
    using signature_key_field [OF _ assms(4)] assms(4) marks
    by (fastforce simp: for_field_def filter_empty_conv bypass_headers_def dest!: set_update_cases)
  with assms(2) have "hdr_get (set_all [] (rv_order env ?out)) k = []" by (intro set_all_none) simp_all
  moreover have "canonical_key k \<notin> {''X-Devhub-Replayed'', ''X-Devhub-Trace-Id''}"
  proof -
    have "list_all (\<lambda>k. canonical_key k \<notin> set [''X-Devhub-Replayed'', ''X-Devhub-Trace-Id'']) signature_keys" by code_simp
    with assms(4) show ?thesis by (auto simp: list_all_iff)
  qed
  ultimately show ?thesis using stamp_replay_get(4) [OF st] by simp
qed

theorem replay_bypass_sends_no_signature_witness:
  "\<exists>resp rd c. execute (sample_replay_env id)
      ((sample_replay [(''STRIPE-signature'', ''x'')])\<lparr>rp_bypass_signatures := True\<rparr>) 0 = (Inr resp, Some rd, c)
     \<and> hdr_get (rd_header rd) ''stripe-signature'' = []"
proof -
  let ?p = "(sample_replay [(''STRIPE-signature'', ''x'')])\<lparr>rp_bypass_signatures := True\<rparr>"
  obtain resp rd c where ex: "execute (sample_replay_env id) ?p 0 = (Inr resp, Some rd, c)"
    using sample_execute by blast
  have "hdr_get (rd_header rd) ''stripe-signature'' = []"
    by (rule replay_bypass_sends_no_signature [OF ex]) (simp_all add: sample_replay_env_def signature_keys_def)
  with ex show ?thesis by blast
qed

end
