(* ===== verification/Telemetry_Queue.thy ===== *)
theory Telemetry_Queue
  imports Ring_Buffer "HOL-Library.Word" "HOL-Library.Sublist"
begin

text \<open>
  The telemetry queue of src/internal/app/app.go: the broadcast callback that \<open>New\<close> gives the engine
  puts every event on a channel of 4096 events or counts it as dropped, and the worker that \<open>Start\<close>
  launches takes them off in order. The two counters are 64-bit atomics.
\<close>

section \<open>State and steps\<close>

definition queue_capacity :: nat where "queue_capacity = 4096"

record event_queue =
  eq_chan :: "trace_event list"
  eq_total :: "64 word"
  eq_dropped :: "64 word"
  eq_handled :: "trace_event list"

definition new_event_queue :: event_queue where
  "new_event_queue = \<lparr>eq_chan = [], eq_total = 0, eq_dropped = 0, eq_handled = []\<rparr>"

definition overflow_policy_of :: "string \<Rightarrow> string" where
  "overflow_policy_of p = (if p = [] then ''drop'' else p)"

text \<open>
  \<open>enqueue_event\<close> is the callback. Under the policy \<open>block\<close> a full channel is waited for up to 100
  milliseconds; \<open>freed\<close> says whether the worker took an event in that time, and its step is then part
  of the callback's.
\<close>

definition take_event :: "event_queue \<Rightarrow> event_queue" where
  "take_event q =
     (case eq_chan q of
        [] \<Rightarrow> q
      | ev # evs \<Rightarrow> q\<lparr>eq_chan := evs, eq_handled := eq_handled q @ [ev]\<rparr>)"

definition send_event :: "trace_event \<Rightarrow> event_queue \<Rightarrow> event_queue" where
  "send_event ev q = q\<lparr>eq_chan := eq_chan q @ [ev]\<rparr>"

definition enqueue_event :: "string \<Rightarrow> bool \<Rightarrow> trace_event \<Rightarrow> event_queue \<Rightarrow> event_queue" where
  "enqueue_event policy freed ev q =
     (let q = q\<lparr>eq_total := eq_total q + 1\<rparr>
      in if length (eq_chan q) < queue_capacity then send_event ev q
         else if policy = ''block'' \<and> freed then send_event ev (take_event q)
         else q\<lparr>eq_dropped := eq_dropped q + 1\<rparr>)"

datatype queue_op = Emit bool trace_event | Handle

fun queue_step :: "string \<Rightarrow> event_queue \<Rightarrow> queue_op \<Rightarrow> event_queue" where
  "queue_step policy q (Emit freed ev) = enqueue_event policy freed ev q"
| "queue_step policy q Handle = take_event q"

record queue_stats =
  qs_total :: "64 word"
  qs_dropped :: "64 word"
  qs_depth :: nat
  qs_capacity :: nat
  qs_policy :: string

text \<open>What \<open>/api/telemetry/stats\<close> reports.\<close>

definition queue_stats_of :: "string \<Rightarrow> event_queue \<Rightarrow> queue_stats" where
  "queue_stats_of policy q =
     \<lparr>qs_total = eq_total q, qs_dropped = eq_dropped q, qs_depth = length (eq_chan q),
      qs_capacity = queue_capacity, qs_policy = overflow_policy_of policy\<rparr>"

section \<open>Accounting\<close>

fun emitted :: "queue_op list \<Rightarrow> trace_event list" where
  "emitted [] = []"
| "emitted (Emit _ ev # ops) = ev # emitted ops"
| "emitted (Handle # ops) = emitted ops"

definition queue_ok :: "event_queue \<Rightarrow> bool" where
  "queue_ok q \<longleftrightarrow> length (eq_chan q) \<le> queue_capacity
     \<and> eq_total q = eq_dropped q + of_nat (length (eq_handled q) + length (eq_chan q))"

lemma queue_ok_new: "queue_ok new_event_queue"
  by (simp add: queue_ok_def new_event_queue_def)

lemma take_event_flow: "eq_handled (take_event q) @ eq_chan (take_event q) = eq_handled q @ eq_chan q"
  by (simp add: take_event_def split: list.split)

lemma take_event_counters [simp]:
  "eq_total (take_event q) = eq_total q" "eq_dropped (take_event q) = eq_dropped q"
  by (simp_all add: take_event_def split: list.split)

lemma queue_ok_take: "queue_ok q \<Longrightarrow> queue_ok (take_event q)"
  by (auto simp: queue_ok_def take_event_def split: list.split)

lemma queue_ok_step: "queue_ok q \<Longrightarrow> queue_ok (queue_step policy q op)"
proof (cases op)
  case Handle
  then show "queue_ok q \<Longrightarrow> ?thesis" by (simp add: queue_ok_take)
next
  case (Emit freed ev)
  assume "queue_ok q"
  then show ?thesis
    unfolding Emit
    by (cases "eq_chan q")
       (auto simp: queue_ok_def enqueue_event_def send_event_def take_event_def queue_capacity_def Let_def)
qed

lemma queue_ok_run: "queue_ok q \<Longrightarrow> queue_ok (foldl (queue_step policy) q ops)"
  by (induction ops arbitrary: q) (simp_all add: queue_ok_step)

text \<open>The events taken in so far, handled or waiting.\<close>

abbreviation accepted :: "event_queue \<Rightarrow> trace_event list" where
  "accepted q \<equiv> eq_handled q @ eq_chan q"

lemma accepted_step:
  "accepted (queue_step policy q (Emit freed ev)) = accepted q @ [ev]
   \<or> (accepted (queue_step policy q (Emit freed ev)) = accepted q \<and> length (eq_chan q) \<ge> queue_capacity)"
  using take_event_flow [of q] take_event_flow [of "q\<lparr>eq_total := eq_total q + 1\<rparr>"]
  by (auto simp: enqueue_event_def send_event_def Let_def)

lemma accepted_take [simp]: "accepted (queue_step policy q Handle) = accepted q"
  by (simp add: take_event_flow)

lemma subseq_snoc: "subseq xs ys \<Longrightarrow> subseq xs (ys @ [y])" "subseq xs ys \<Longrightarrow> subseq (xs @ [y]) (ys @ [y])"
  by (auto intro: subseq_order.trans)

lemma emitted_append [simp]: "emitted (xs @ ys) = emitted xs @ emitted ys"
  by (induction xs rule: emitted.induct) simp_all

lemma accepted_run: "subseq (accepted (foldl (queue_step policy) new_event_queue ops)) (emitted ops)"
proof (induction ops rule: rev_induct)
  case Nil
  then show ?case by (simp add: new_event_queue_def)
next
  case (snoc op ops)
  let ?q = "foldl (queue_step policy) new_event_queue ops"
  show ?case
  proof (cases op)
    case (Emit freed ev)
    have run: "foldl (queue_step policy) new_event_queue (ops @ [op]) = queue_step policy ?q (Emit freed ev)"
      "emitted (ops @ [op]) = emitted ops @ [ev]"
      by (simp_all add: Emit del: queue_step.simps)
    show ?thesis
      unfolding run using accepted_step [of policy ?q freed ev] subseq_snoc [OF snoc, of ev] by metis
  next
    case Handle
    with snoc accepted_take [of policy ?q] show ?thesis by (simp del: queue_step.simps)
  qed
qed

lemma total_run: "eq_total (foldl (queue_step policy) q ops) = eq_total q + of_nat (length (emitted ops))"
proof (induction ops arbitrary: q)
  case (Cons op ops)
  have "eq_total (enqueue_event policy freed ev q) = eq_total q + 1" for freed ev
    by (simp add: enqueue_event_def send_event_def Let_def)
  with Cons show ?case by (cases op) simp_all
qed simp

lemma chan_length_step:
  "length (eq_chan (queue_step policy q op)) \<le> length (eq_chan q) + length (emitted [op])"
  by (cases op; cases "eq_chan q") (auto simp: enqueue_event_def send_event_def take_event_def Let_def)

lemma accepted_all:
  "length (emitted ops) \<le> queue_capacity \<Longrightarrow>
     accepted (foldl (queue_step policy) new_event_queue ops) = emitted ops
     \<and> length (eq_chan (foldl (queue_step policy) new_event_queue ops)) \<le> length (emitted ops)"
proof (induction ops rule: rev_induct)
  case Nil
  then show ?case by (simp add: new_event_queue_def)
next
  case (snoc op ops)
  let ?q = "foldl (queue_step policy) new_event_queue ops"
  from snoc have IH: "accepted ?q = emitted ops" "length (eq_chan ?q) \<le> length (emitted ops)" by auto
  show ?case
  proof (cases op)
    case (Emit freed ev)
    with snoc.prems IH have "length (eq_chan ?q) < queue_capacity" by simp
    with accepted_step [of policy ?q freed ev] chan_length_step [of policy ?q op] IH Emit show ?thesis
      by (auto simp del: queue_step.simps)
  next
    case Handle
    with accepted_take [of policy ?q] chan_length_step [of policy ?q op] IH show ?thesis
      by (simp del: queue_step.simps)
  qed
qed

section \<open>Properties\<close>

text \<open>
  C26: whatever the engine emits and the worker takes, the queue holds at most 4096 events, every event
  counted as emitted is handled, waiting or counted as dropped, the order is kept, and nothing is
  dropped before 4096 events were emitted.
\<close>

theorem telemetry_accounting:
  defines "q \<equiv> \<lambda>policy ops. foldl (queue_step policy) new_event_queue ops"
  shows "length (eq_chan (q policy ops)) \<le> 4096
    \<and> eq_total (q policy ops) = of_nat (length (emitted ops))
    \<and> eq_total (q policy ops) = eq_dropped (q policy ops)
        + of_nat (length (eq_handled (q policy ops)) + length (eq_chan (q policy ops)))
    \<and> subseq (eq_handled (q policy ops) @ eq_chan (q policy ops)) (emitted ops)
    \<and> (4096 < length (emitted ops) \<or> eq_handled (q policy ops) @ eq_chan (q policy ops) = emitted ops)"
proof -
  have "queue_ok (q policy ops)" "eq_total (q policy ops) = of_nat (length (emitted ops))"
    "subseq (accepted (q policy ops)) (emitted ops)"
    using queue_ok_run [OF queue_ok_new] total_run [of policy new_event_queue ops] accepted_run
    by (simp_all add: q_def new_event_queue_def)
  moreover have "4096 < length (emitted ops) \<or> accepted (q policy ops) = emitted ops"
    using accepted_all [of ops policy] unfolding q_def queue_capacity_def by linarith
  ultimately show ?thesis by (simp add: queue_ok_def queue_capacity_def)
qed

text \<open>
  a worker that keeps running handles every accepted event: after as many of its steps as events
  are waiting, the channel is empty and all of them were handled in order.
\<close>

theorem telemetry_drains:
  assumes "length (eq_chan q) \<le> n"
  shows "eq_chan (foldl (queue_step policy) q (replicate n Handle)) = []
    \<and> eq_handled (foldl (queue_step policy) q (replicate n Handle)) = eq_handled q @ eq_chan q"
  using assms
proof (induction n arbitrary: q)
  case (Suc n)
  have "length (eq_chan (take_event q)) \<le> n"
    using Suc.prems by (auto simp: take_event_def split: list.split)
  with Suc.IH take_event_flow [of q] show ?case by simp
qed simp

theorem telemetry_drains_witness:
  "eq_handled (foldl (queue_step ''drop'') (foldl (queue_step ''drop'') new_event_queue [Emit False zero_event])
     (replicate 2 Handle)) = [zero_event]"
proof -
  let ?q = "foldl (queue_step ''drop'') new_event_queue [Emit False zero_event]"
  have q: "eq_chan ?q = [zero_event]" "eq_handled ?q = []"
    by (simp_all add: enqueue_event_def send_event_def new_event_queue_def queue_capacity_def Let_def)
  with telemetry_drains [of ?q 2 "''drop''"] show ?thesis by simp
qed

end
