(* ===== verification/Dashboard_Hub.thy ===== *)
theory Dashboard_Hub
  imports Telemetry_Queue
begin

text \<open>
  The WebSocket hub of src/internal/app/app.go as a transition system: the goroutine \<open>Hub.run\<close>, the
  \<open>Close\<close> call of \<open>Shutdown\<close>, the senders of \<open>broadcastJSON\<close>, and for every dashboard connection its
  \<open>/ws\<close> handler and its writer goroutine. A step is what happens between two points where the source
  takes a lock, loads an atomic or uses a channel. Sending on or closing a closed channel is the panic
  Go makes of it.
\<close>

section \<open>Clients and their channels\<close>

definition send_capacity :: nat where "send_capacity = 256"
definition broadcast_capacity :: nat where "broadcast_capacity = 2048"

text \<open>
  \<open>Joining\<close>: the handler saw the hub open and sends on \<open>register\<close>. \<open>Replaying ms\<close>: it still has the
  history \<open>ms\<close> to send. \<open>Leaving\<close>: the writer saw the hub open and sends on \<open>unregister\<close>.
\<close>

datatype handler_pc = Joining | Replaying "string list" | Reading | Crashed
datatype writer_pc = Unstarted | Writing | Leaving | Gone

record ws_client =
  ws_buf :: "string list"
  ws_closed :: bool
  ws_written :: "string list"
  ws_handler :: handler_pc
  ws_writer :: writer_pc

definition new_ws_client :: ws_client where
  "new_ws_client = \<lparr>ws_buf = [], ws_closed = False, ws_written = [], ws_handler = Joining,
     ws_writer = Unstarted\<rparr>"

text \<open>A non-blocking send: a full buffer drops the frame, a closed channel panics (\<open>None\<close>).\<close>

definition offer_frame :: "string \<Rightarrow> ws_client \<Rightarrow> ws_client option" where
  "offer_frame m cl =
     (if ws_closed cl then None
      else Some (if length (ws_buf cl) < send_capacity then cl\<lparr>ws_buf := ws_buf cl @ [m]\<rparr> else cl))"

definition close_frames :: "ws_client \<Rightarrow> ws_client option" where
  "close_frames cl = (if ws_closed cl then None else Some (cl\<lparr>ws_closed := True\<rparr>))"

section \<open>The hub\<close>

datatype loop_pc = Selecting | Inserting nat | Removing nat | Delivering string | Clearing | Returned
datatype closer_pc = Not_Called | Emptying | Closed

record hub =
  hub_clients :: "nat list"
  hub_broadcast :: "string list"
  hub_closed :: bool
  hub_heap :: "nat \<Rightarrow> ws_client option"
  hub_loop :: loop_pc
  hub_closer :: closer_pc
  hub_senders :: "string list"
  hub_panic :: bool

definition new_hub :: hub where
  "new_hub = \<lparr>hub_clients = [], hub_broadcast = [], hub_closed = False, hub_heap = (\<lambda>_. None),
     hub_loop = Selecting, hub_closer = Not_Called, hub_senders = [], hub_panic = False\<rparr>"

definition set_client :: "nat \<Rightarrow> ws_client \<Rightarrow> hub \<Rightarrow> hub" where
  "set_client c cl h = h\<lparr>hub_heap := (hub_heap h)(c \<mapsto> cl)\<rparr>"

text \<open>A channel operation of the hub's own code on client \<open>c\<close>.\<close>

definition on_client :: "(ws_client \<Rightarrow> ws_client option) \<Rightarrow> nat \<Rightarrow> hub \<Rightarrow> hub" where
  "on_client f c h =
     (case Option.bind (hub_heap h c) f of
        None \<Rightarrow> h\<lparr>hub_panic := True\<rparr>
      | Some cl \<Rightarrow> set_client c cl h)"

definition insert_client :: "nat \<Rightarrow> hub \<Rightarrow> hub" where
  "insert_client c h = h\<lparr>hub_clients := List.insert c (hub_clients h)\<rparr>"

definition remove_client :: "nat \<Rightarrow> hub \<Rightarrow> hub" where
  "remove_client c h =
     (if c \<in> set (hub_clients h)
      then on_client close_frames c (h\<lparr>hub_clients := remove1 c (hub_clients h)\<rparr>) else h)"

definition deliver :: "string \<Rightarrow> hub \<Rightarrow> hub" where
  "deliver m h = fold (on_client (offer_frame m)) (hub_clients h) h"

definition clear_clients :: "hub \<Rightarrow> hub" where
  "clear_clients h = (fold (on_client close_frames) (hub_clients h) h)\<lparr>hub_clients := []\<rparr>"

definition offer_broadcast :: "string \<Rightarrow> hub \<Rightarrow> hub" where
  "offer_broadcast m h =
     (if length (hub_broadcast h) < broadcast_capacity
      then h\<lparr>hub_broadcast := hub_broadcast h @ [m]\<rparr> else h)"

text \<open>The writer leaves: it announces itself only to a hub that is still open.\<close>

definition writer_leaves :: "nat \<Rightarrow> ws_client \<Rightarrow> hub \<Rightarrow> hub" where
  "writer_leaves c cl h = set_client c (cl\<lparr>ws_writer := (if hub_closed h then Gone else Leaving)\<rparr>) h"

definition history_frames :: "(trace_event \<Rightarrow> string) \<Rightarrow> ring_buffer \<Rightarrow> string list" where
  "history_frames marshal ring = map marshal (rev (ring_get_all ring))"

inductive loop_step :: "hub \<Rightarrow> hub \<Rightarrow> bool" where
  loop_register: "hub_loop h = Selecting \<Longrightarrow> hub_heap h c = Some cl \<Longrightarrow> ws_handler cl = Joining \<Longrightarrow>
    loop_step h (set_client c (cl\<lparr>ws_handler := Replaying history, ws_writer := Writing\<rparr>)
      (h\<lparr>hub_loop := (if hub_closed h then Selecting else Inserting c)\<rparr>))"
| loop_insert: "hub_loop h = Inserting c \<Longrightarrow> loop_step h (insert_client c (h\<lparr>hub_loop := Selecting\<rparr>))"
| loop_unregister: "hub_loop h = Selecting \<Longrightarrow> hub_heap h c = Some cl \<Longrightarrow> ws_writer cl = Leaving \<Longrightarrow>
    loop_step h (set_client c (cl\<lparr>ws_writer := Gone\<rparr>) (h\<lparr>hub_loop := Removing c\<rparr>))"
| loop_remove: "hub_loop h = Removing c \<Longrightarrow> loop_step h (remove_client c (h\<lparr>hub_loop := Selecting\<rparr>))"
| loop_take: "hub_loop h = Selecting \<Longrightarrow> hub_broadcast h = m # ms \<Longrightarrow>
    loop_step h (h\<lparr>hub_broadcast := ms, hub_loop := (if hub_closed h then Selecting else Delivering m)\<rparr>)"
| loop_deliver: "hub_loop h = Delivering m \<Longrightarrow> loop_step h (deliver m (h\<lparr>hub_loop := Selecting\<rparr>))"
| loop_cancelled: "hub_loop h = Selecting \<Longrightarrow>
    loop_step h (h\<lparr>hub_loop := (if hub_closed h then Returned else Clearing), hub_closed := True\<rparr>)"
| loop_clear: "hub_loop h = Clearing \<Longrightarrow> loop_step h (clear_clients (h\<lparr>hub_loop := Returned\<rparr>))"

inductive close_step :: "hub \<Rightarrow> hub \<Rightarrow> bool" where
  close_swap: "hub_closer h = Not_Called \<Longrightarrow>
    close_step h (h\<lparr>hub_closer := (if hub_closed h then Closed else Emptying), hub_closed := True\<rparr>)"
| close_clear: "hub_closer h = Emptying \<Longrightarrow> close_step h (clear_clients (h\<lparr>hub_closer := Closed\<rparr>))"

inductive sender_step :: "hub \<Rightarrow> hub \<Rightarrow> bool" where
  sender_start: "\<not> hub_closed h \<Longrightarrow> sender_step h (h\<lparr>hub_senders := m # hub_senders h\<rparr>)"
| sender_offer: "m \<in> set (hub_senders h) \<Longrightarrow>
    sender_step h (offer_broadcast m (h\<lparr>hub_senders := remove1 m (hub_senders h)\<rparr>))"

inductive client_step :: "hub \<Rightarrow> hub \<Rightarrow> bool" where
  client_connect: "\<not> hub_closed h \<Longrightarrow> hub_heap h c = None \<Longrightarrow> client_step h (set_client c new_ws_client h)"
| client_history: "hub_heap h c = Some cl \<Longrightarrow> ws_handler cl = Replaying (m # ms) \<Longrightarrow>
    client_step h (set_client c (case offer_frame m cl of
        None \<Rightarrow> cl\<lparr>ws_handler := Crashed\<rparr>
      | Some cl' \<Rightarrow> cl'\<lparr>ws_handler := Replaying ms\<rparr>) h)"
| client_read: "hub_heap h c = Some cl \<Longrightarrow> ws_handler cl = Replaying [] \<Longrightarrow>
    client_step h (set_client c (cl\<lparr>ws_handler := Reading\<rparr>) h)"
| writer_write: "hub_heap h c = Some cl \<Longrightarrow> ws_writer cl = Writing \<Longrightarrow> ws_buf cl = m # ms \<Longrightarrow>
    client_step h (set_client c (cl\<lparr>ws_buf := ms, ws_written := ws_written cl @ [m]\<rparr>) h)"
| writer_fail: "hub_heap h c = Some cl \<Longrightarrow> ws_writer cl = Writing \<Longrightarrow> ws_buf cl = m # ms \<Longrightarrow>
    client_step h (writer_leaves c (cl\<lparr>ws_buf := ms\<rparr>) h)"
| writer_end: "hub_heap h c = Some cl \<Longrightarrow> ws_writer cl = Writing \<Longrightarrow> ws_buf cl = [] \<Longrightarrow> ws_closed cl \<Longrightarrow>
    client_step h (writer_leaves c cl h)"
| writer_timeout: "hub_heap h c = Some cl \<Longrightarrow> ws_writer cl = Leaving \<Longrightarrow>
    client_step h (set_client c (cl\<lparr>ws_writer := Gone\<rparr>) h)"

inductive hub_step :: "hub \<Rightarrow> hub \<Rightarrow> bool" where
  by_loop: "loop_step h h' \<Longrightarrow> hub_step h h'"
| by_closer: "close_step h h' \<Longrightarrow> hub_step h h'"
| by_sender: "sender_step h h' \<Longrightarrow> hub_step h h'"
| by_client: "client_step h h' \<Longrightarrow> hub_step h h'"

inductive_cases hub_stepE: "hub_step h h'"
inductive_cases loop_stepE: "loop_step h h'"
inductive_cases close_stepE: "close_step h h'"
inductive_cases sender_stepE: "sender_step h h'"
inductive_cases client_stepE: "client_step h h'"

inductive hub_reachable :: "hub \<Rightarrow> bool" where
  hub_start: "hub_reachable new_hub"
| hub_next: "hub_reachable h \<Longrightarrow> hub_step h h' \<Longrightarrow> hub_reachable h'"

section \<open>Rounds over the clients\<close>

lemma on_client_Some: "Option.bind (hub_heap h c) f = Some cl \<Longrightarrow> on_client f c h = set_client c cl h"
  by (simp add: on_client_def)

lemma on_clients_fold:
  assumes "distinct cs" and "\<And>c. c \<in> set cs \<Longrightarrow> Option.bind (hub_heap h c) f \<noteq> None"
  shows "fold (on_client f) cs h
    = h\<lparr>hub_heap := \<lambda>c. if c \<in> set cs then Option.bind (hub_heap h c) f else hub_heap h c\<rparr>"
  using assms
proof (induction cs arbitrary: h)
  case (Cons c cs)
  from Cons.prems(2) [of c] obtain cl where cl: "Option.bind (hub_heap h c) f = Some cl" by auto
  let ?h = "set_client c cl h"
  have "Option.bind (hub_heap ?h d) f \<noteq> None" if "d \<in> set cs" for d
    using that Cons.prems by (auto simp: set_client_def)
  with Cons.IH [of ?h] Cons.prems(1) have "fold (on_client f) cs ?h
    = ?h\<lparr>hub_heap := \<lambda>d. if d \<in> set cs then Option.bind (hub_heap ?h d) f else hub_heap ?h d\<rparr>" by simp
  also have "\<dots> = h\<lparr>hub_heap := \<lambda>d. if d \<in> set (c # cs) then Option.bind (hub_heap h d) f else hub_heap h d\<rparr>"
    using cl Cons.prems(1) by (auto simp: set_client_def fun_eq_iff)
  finally show ?case by (simp add: on_client_Some [OF cl])
qed simp

section \<open>Invariant\<close>

definition client_open :: "hub \<Rightarrow> nat \<Rightarrow> bool" where
  "client_open h c \<longleftrightarrow> (\<exists>cl. hub_heap h c = Some cl \<and> \<not> ws_closed cl \<and> ws_handler cl \<noteq> Joining)"

definition ws_ok :: "ws_client \<Rightarrow> bool" where
  "ws_ok cl \<longleftrightarrow> length (ws_buf cl) \<le> send_capacity
     \<and> (ws_handler cl = Joining \<longrightarrow> \<not> ws_closed cl \<and> ws_buf cl = [] \<and> ws_writer cl = Unstarted)"

text \<open>A client to be inserted or registered is open, and registered at most once.\<close>

definition hub_ok :: "hub \<Rightarrow> bool" where
  "hub_ok h \<longleftrightarrow> \<not> hub_panic h \<and> distinct (hub_clients h)
     \<and> (\<forall>c \<in> set (hub_clients h). client_open h c)
     \<and> (\<forall>c. hub_loop h = Inserting c \<longrightarrow> client_open h c \<and> c \<notin> set (hub_clients h))
     \<and> length (hub_broadcast h) \<le> broadcast_capacity
     \<and> (\<forall>c cl. hub_heap h c = Some cl \<longrightarrow> ws_ok cl)"

lemma hub_okD:
  assumes "hub_ok h"
  shows "\<not> hub_panic h" "distinct (hub_clients h)" "c \<in> set (hub_clients h) \<Longrightarrow> client_open h c"
    "hub_loop h = Inserting c \<Longrightarrow> client_open h c \<and> c \<notin> set (hub_clients h)" "length (hub_broadcast h) \<le> broadcast_capacity"
    "hub_heap h c = Some cl \<Longrightarrow> ws_ok cl"
  using assms unfolding hub_ok_def by blast+

lemma hub_ok_new: "hub_ok new_hub"
  by (simp add: hub_ok_def new_hub_def)

text \<open>A step that changes one client's record and keeps it open keeps the invariant.\<close>

lemma hub_ok_set_client:
  assumes "hub_ok h" "ws_ok cl"
    and "client_open h c \<Longrightarrow> \<not> ws_closed cl \<and> ws_handler cl \<noteq> Joining"
  shows "hub_ok (set_client c cl h)"
  using assms by (auto simp: hub_ok_def set_client_def client_open_def)

lemma open_clientD: "client_open h c \<Longrightarrow> hub_heap h c = Some cl \<Longrightarrow> \<not> ws_closed cl \<and> ws_handler cl \<noteq> Joining"
  by (auto simp: client_open_def)

text \<open>The hub's own fields may change freely as long as the loop does not start an insertion.\<close>

lemma hub_ok_fields:
  assumes "hub_ok h" "hub_clients h' = hub_clients h" "hub_heap h' = hub_heap h" "hub_panic h' = hub_panic h"
    "length (hub_broadcast h') \<le> broadcast_capacity"
    "\<And>c. hub_loop h' = Inserting c \<Longrightarrow> client_open h c \<and> c \<notin> set (hub_clients h)"
  shows "hub_ok h'"
  using assms by (simp add: hub_ok_def client_open_def)

lemma deliver_ok_simp:
  assumes "hub_ok h"
  shows "deliver m h = h\<lparr>hub_heap := \<lambda>c. if c \<in> set (hub_clients h)
    then Option.bind (hub_heap h c) (offer_frame m) else hub_heap h c\<rparr>"
  unfolding deliver_def
  by (intro on_clients_fold hub_okD(2) [OF assms])
     (auto dest!: hub_okD(3) [OF assms] simp: client_open_def offer_frame_def)

lemma clear_ok_simp:
  assumes "hub_ok h"
  shows "clear_clients h = h\<lparr>hub_heap := \<lambda>c. if c \<in> set (hub_clients h)
    then Option.bind (hub_heap h c) close_frames else hub_heap h c, hub_clients := []\<rparr>"
  unfolding clear_clients_def
  by (subst on_clients_fold, rule hub_okD(2) [OF assms])
     (auto dest!: hub_okD(3) [OF assms] simp: client_open_def close_frames_def)

lemma hub_ok_deliver: "hub_ok h \<Longrightarrow> hub_ok (deliver m h)"
  by (auto simp: deliver_ok_simp)
     (auto simp: hub_ok_def client_open_def offer_frame_def ws_ok_def split: if_splits Option.bind_splits)

lemma hub_ok_clear:
  assumes "hub_ok h"
  shows "hub_ok (clear_clients h)"
  using assms unfolding clear_ok_simp [OF assms(1)]
  by (auto simp: hub_ok_def client_open_def close_frames_def ws_ok_def split: if_splits Option.bind_splits)

lemma hub_ok_insert:
  assumes "hub_ok h" "hub_loop h = Inserting c"
  shows "hub_ok (insert_client c (h\<lparr>hub_loop := Selecting\<rparr>))"
  using assms by (auto simp: hub_ok_def insert_client_def client_open_def)

lemma hub_ok_remove:
  assumes "hub_ok h" "hub_loop h = Selecting"
  shows "hub_ok (remove_client c h)"
proof (cases "c \<in> set (hub_clients h)")
  case True
  then obtain cl where cl: "hub_heap h c = Some cl" "\<not> ws_closed cl"
    using hub_okD(3) [OF assms(1)] by (auto simp: client_open_def)
  let ?h = "h\<lparr>hub_clients := remove1 c (hub_clients h)\<rparr>"
  have "remove_client c h = set_client c (cl\<lparr>ws_closed := True\<rparr>) ?h"
    using True cl by (simp add: remove_client_def on_client_def close_frames_def set_client_def)
  moreover have "ws_ok (cl\<lparr>ws_closed := True\<rparr>)"
    using hub_okD(3) [OF assms(1) True] hub_okD(6) [OF assms(1) cl(1)] cl by (auto simp: ws_ok_def client_open_def)
  ultimately show ?thesis
    using assms by (auto simp: hub_ok_def set_client_def client_open_def distinct_remove1 set_remove1_eq)
qed (simp add: remove_client_def assms)

lemma hub_ok_leaves:
  assumes "hub_ok h" "hub_heap h c = Some cl" "ws_writer cl = Writing" "cl' = cl\<lparr>ws_buf := drop n (ws_buf cl)\<rparr>"
  shows "hub_ok (writer_leaves c cl' h)"
proof -
  have ok: "ws_ok cl" using hub_okD(6) [OF assms(1,2)] .
  show ?thesis
    unfolding writer_leaves_def
    by (rule hub_ok_set_client [OF assms(1)])
       (use ok assms in \<open>auto simp: ws_ok_def client_open_def\<close>)
qed

lemma hub_ok_loop: "loop_step h h' \<Longrightarrow> hub_ok h \<Longrightarrow> hub_ok h'"
proof (induction rule: loop_step.induct)
  case (loop_register h c cl history)
  have cl: "ws_ok cl" "c \<notin> set (hub_clients h)"
    using loop_register hub_okD(6) [OF loop_register.prems]
    by (auto dest!: hub_okD(3) [OF loop_register.prems] simp: client_open_def)
  with loop_register show ?case
    by (auto simp: hub_ok_def set_client_def client_open_def ws_ok_def)
next
  case (loop_unregister h c cl)
  then have "ws_ok cl" using hub_okD(6) by auto
  with loop_unregister show ?case
    by (auto simp: hub_ok_def set_client_def client_open_def ws_ok_def)
next
  case (loop_take h m ms)
  then show ?case by (intro hub_ok_fields [OF loop_take.prems]) (auto dest: hub_okD(5) split: if_splits)
next
  case (loop_cancelled h)
  then show ?case by (intro hub_ok_fields [OF loop_cancelled.prems]) (auto dest: hub_okD(5) split: if_splits)
next
  case (loop_deliver h m)
  have "hub_ok (h\<lparr>hub_loop := Selecting\<rparr>)"
    by (rule hub_ok_fields [OF loop_deliver.prems]) (auto intro: hub_okD(5) [OF loop_deliver.prems])
  then show ?case by (rule hub_ok_deliver)
next
  case (loop_clear h)
  have "hub_ok (h\<lparr>hub_loop := Returned\<rparr>)"
    by (rule hub_ok_fields [OF loop_clear.prems]) (auto intro: hub_okD(5) [OF loop_clear.prems])
  then show ?case by (rule hub_ok_clear)
next
  case (loop_remove h c)
  have "hub_ok (h\<lparr>hub_loop := Selecting\<rparr>)"
    by (rule hub_ok_fields [OF loop_remove.prems]) (auto intro: hub_okD(5) [OF loop_remove.prems])
  then show ?case by (rule hub_ok_remove) simp
next
  case (loop_insert h c)
  then show ?case by (intro hub_ok_insert)
qed

lemma hub_ok_close: "close_step h h' \<Longrightarrow> hub_ok h \<Longrightarrow> hub_ok h'"
proof (induction rule: close_step.induct)
  case (close_swap h)
  show ?case
    by (rule hub_ok_fields [OF close_swap.prems])
       (auto dest: hub_okD(4) [OF close_swap.prems] intro: hub_okD(5) [OF close_swap.prems])
next
  case (close_clear h)
  have "hub_ok (h\<lparr>hub_closer := Closed\<rparr>)"
    by (rule hub_ok_fields [OF close_clear.prems])
       (auto dest: hub_okD(4) [OF close_clear.prems] intro: hub_okD(5) [OF close_clear.prems])
  then show ?case by (rule hub_ok_clear)
qed

lemma hub_ok_sender: "sender_step h h' \<Longrightarrow> hub_ok h \<Longrightarrow> hub_ok h'"
proof (induction rule: sender_step.induct)
  case (sender_start h m)
  show ?case
    by (rule hub_ok_fields [OF sender_start.prems])
       (auto dest: hub_okD(4) [OF sender_start.prems] intro: hub_okD(5) [OF sender_start.prems])
next
  case (sender_offer m h)
  have fields: "hub_loop (offer_broadcast m g) = hub_loop g" "hub_clients (offer_broadcast m g) = hub_clients g"
    "hub_heap (offer_broadcast m g) = hub_heap g" "hub_panic (offer_broadcast m g) = hub_panic g"
    "length (hub_broadcast g) \<le> broadcast_capacity \<Longrightarrow>
       length (hub_broadcast (offer_broadcast m g)) \<le> broadcast_capacity" for g
    by (simp_all add: offer_broadcast_def)
  show ?case
    by (rule hub_ok_fields [OF sender_offer.prems])
       (use fields hub_okD(4,5) [OF sender_offer.prems] in simp_all)
qed

lemma hub_ok_client: "client_step h h' \<Longrightarrow> hub_ok h \<Longrightarrow> hub_ok h'"
proof (induction rule: client_step.induct)
  case (client_connect h c)
  then show ?case
    by (intro hub_ok_set_client) (auto simp: ws_ok_def new_ws_client_def client_open_def)
next
  case (client_history h c cl m ms)
  note cl = hub_okD(6) [OF client_history.prems client_history.hyps(1)]
  show ?case
    by (rule hub_ok_set_client [OF client_history.prems])
       (use cl client_history in
         \<open>auto simp: ws_ok_def client_open_def offer_frame_def split: option.split\<close>)
next
  case (client_read h c cl)
  note cl = hub_okD(6) [OF client_read.prems client_read.hyps(1)]
  show ?case
    by (rule hub_ok_set_client [OF client_read.prems]) (use cl client_read in \<open>auto simp: ws_ok_def client_open_def\<close>)
next
  case (writer_write h c cl m ms)
  note cl = hub_okD(6) [OF writer_write.prems writer_write.hyps(1)]
  show ?case
    by (rule hub_ok_set_client [OF writer_write.prems]) (use cl writer_write in \<open>auto simp: ws_ok_def client_open_def\<close>)
next
  case (writer_fail h c cl m ms)
  then show ?case by (intro hub_ok_leaves [where n = 1]) auto
next
  case (writer_end h c cl)
  then show ?case by (intro hub_ok_leaves [where n = 0]) auto
next
  case (writer_timeout h c cl)
  note cl = hub_okD(6) [OF writer_timeout.prems writer_timeout.hyps(1)]
  show ?case
    by (rule hub_ok_set_client [OF writer_timeout.prems])
       (use cl writer_timeout in \<open>auto simp: ws_ok_def client_open_def\<close>)
qed

lemma hub_ok_step: "hub_step h h' \<Longrightarrow> hub_ok h \<Longrightarrow> hub_ok h'"
  by (erule hub_stepE) (simp_all add: hub_ok_loop hub_ok_close hub_ok_sender hub_ok_client)

interpretation hub_kept: kept_by_steps hub_step hub_ok
  by unfold_locales (rule hub_ok_step)

lemma hub_ok_reachable: "hub_reachable h \<Longrightarrow> hub_ok h"
  by (induction rule: hub_reachable.induct) (auto intro: hub_ok_new hub_kept.step_keeps)

section \<open>Properties\<close>

text \<open>
  C18: in whatever order the loop, the shutdown, the broadcasters, the handlers and the writers run, the
  hub's own code never sends on or closes a closed client channel; every registered client is
  registered once and its channel is open, and the channels keep to their capacities.
\<close>

theorem hub_never_panics:
  assumes "hub_reachable h"
  shows "\<not> hub_panic h \<and> distinct (hub_clients h)
    \<and> list_all (\<lambda>c. \<exists>cl. hub_heap h c = Some cl \<and> \<not> ws_closed cl) (hub_clients h)
    \<and> length (hub_broadcast h) \<le> 2048
    \<and> pred_option (\<lambda>cl. length (ws_buf cl) \<le> 256) (hub_heap h c)"
proof -
  note ok = hub_ok_reachable [OF assms]
  have "list_all (\<lambda>c. \<exists>cl. hub_heap h c = Some cl \<and> \<not> ws_closed cl) (hub_clients h)"
    by (auto simp: list_all_iff client_open_def dest!: hub_okD(3) [OF ok])
  moreover have "pred_option (\<lambda>cl. length (ws_buf cl) \<le> 256) (hub_heap h c)"
    using hub_okD(6) [OF ok, of c] by (cases "hub_heap h c") (auto simp: ws_ok_def send_capacity_def)
  ultimately show ?thesis
    using hub_okD(1,2,5) [OF ok] by (simp add: broadcast_capacity_def)
qed

text \<open>
  delivering a broadcast message appends it to the channel of exactly the registered clients with
  room; a lagging client loses this frame only and neither blocks the hub nor affects another client.
\<close>

theorem deliver_reaches_clients_with_room:
  assumes "hub_reachable h"
  shows "hub_heap (deliver m h) c
    = (if c \<in> set (hub_clients h)
       then map_option (\<lambda>cl. if length (ws_buf cl) < 256 then cl\<lparr>ws_buf := ws_buf cl @ [m]\<rparr> else cl) (hub_heap h c)
       else hub_heap h c)"
  using hub_okD(3) [OF hub_ok_reachable [OF assms], of c]
  by (auto simp: deliver_ok_simp [OF hub_ok_reachable [OF assms]] client_open_def offer_frame_def
      send_capacity_def)

text \<open>The emptying step of a shutdown closes every registered channel and keeps what is in it.\<close>

theorem clear_closes_clients:
  assumes "hub_reachable h"
  shows "hub_clients (clear_clients h) = []
    \<and> hub_heap (clear_clients h) c
      = (if c \<in> set (hub_clients h) then map_option (\<lambda>cl. cl\<lparr>ws_closed := True\<rparr>) (hub_heap h c)
         else hub_heap h c)"
  using hub_okD(3) [OF hub_ok_reachable [OF assms], of c]
  by (auto simp: clear_ok_simp [OF hub_ok_reachable [OF assms]] client_open_def close_frames_def)

section \<open>Races with the shutdown\<close>

definition joined_client :: "string list \<Rightarrow> ws_client" where
  "joined_client ms = new_ws_client\<lparr>ws_handler := Replaying ms, ws_writer := Writing\<rparr>"

definition joined_hub :: "string list \<Rightarrow> hub" where
  "joined_hub ms = new_hub\<lparr>hub_heap := [0 \<mapsto> joined_client ms], hub_loop := Inserting 0\<rparr>"

lemma joined_hub_reachable: "hub_reachable (joined_hub ms)"
proof -
  have "hub_step new_hub (set_client 0 new_ws_client new_hub)"
    by (intro by_client client_connect) (simp_all add: new_hub_def)
  with hub_start have 1: "hub_reachable (set_client 0 new_ws_client new_hub)" by (rule hub_next)
  have "loop_step (set_client 0 new_ws_client new_hub) (joined_hub ms)"
    using loop_register [of "set_client 0 new_ws_client new_hub" 0 new_ws_client ms]
    by (simp add: joined_hub_def joined_client_def set_client_def new_hub_def new_ws_client_def)
  with 1 show ?thesis by (blast intro: hub_next by_loop)
qed

text \<open>The hub has stopped for good: neither its loop nor a \<open>Close\<close> has anything left to do.\<close>

definition hub_stopped :: "hub \<Rightarrow> bool" where
  "hub_stopped h \<longleftrightarrow> hub_closed h \<and> hub_loop h = Returned \<and> hub_closer h = Closed"

text \<open>A registered client of a stopped hub: its channel is open and its writer waits or writes.\<close>

definition stranded :: "nat \<Rightarrow> hub \<Rightarrow> bool" where
  "stranded c h \<longleftrightarrow> hub_stopped h \<and> c \<in> set (hub_clients h) \<and> (\<exists>cl. hub_heap h c = Some cl \<and> \<not> ws_closed cl)"

lemma stopped_no_loop: "hub_stopped h \<Longrightarrow> \<not> loop_step h h'"
  by (auto simp: hub_stopped_def elim!: loop_stepE)

lemma stopped_no_close: "hub_stopped h \<Longrightarrow> \<not> close_step h h'"
  by (auto simp: hub_stopped_def elim!: close_stepE)

lemma stranded_step:
  assumes "stranded c h" "hub_step h h'"
  shows "stranded c h'"
proof (rule hub_stepE [OF assms(2)])
  assume "client_step h h'"
  with assms(1) show ?thesis
    by (auto elim!: client_stepE simp: stranded_def hub_stopped_def set_client_def writer_leaves_def
        offer_frame_def split: option.splits)
next
  assume "sender_step h h'"
  with assms(1) show ?thesis
    by (auto elim!: sender_stepE simp: stranded_def hub_stopped_def offer_broadcast_def)
qed (use assms(1) stopped_no_loop stopped_no_close in \<open>auto simp: stranded_def\<close>)

interpretation stranded: kept_by_steps hub_step "stranded c" for c
  by unfold_locales (rule stranded_step)

text \<open>
  a client whose registration the loop has received when \<open>Close\<close> empties the hub is inserted
  afterwards: the hub can stop with it registered, and nothing ever closes its channel, so its writer
  goroutine waits on it for ever.
\<close>

theorem late_registration_leaks_client:
  "\<exists>h c. hub_reachable h \<and> {h'. hub_step\<^sup>*\<^sup>* h h'} \<subseteq> {h'. stranded c h'}"
proof -
  let ?h0 = "joined_hub []"
  let ?h1 = "?h0\<lparr>hub_closer := Emptying, hub_closed := True\<rparr>"
  let ?h2 = "clear_clients (?h1\<lparr>hub_closer := Closed\<rparr>)"
  let ?h3 = "insert_client 0 (?h2\<lparr>hub_loop := Selecting\<rparr>)"
  let ?h4 = "?h3\<lparr>hub_loop := Returned, hub_closed := True\<rparr>"
  have "close_step ?h0 ?h1" using close_swap [of ?h0] by (simp add: joined_hub_def new_hub_def)
  then have r1: "hub_reachable ?h1" using joined_hub_reachable by (blast intro: hub_next by_closer)
  have "close_step ?h1 ?h2" by (rule close_clear) simp
  then have r2: "hub_reachable ?h2" using r1 by (blast intro: hub_next by_closer)
  have "loop_step ?h2 ?h3" by (rule loop_insert) (simp add: clear_clients_def joined_hub_def new_hub_def)
  then have r3: "hub_reachable ?h3" using r2 by (blast intro: hub_next by_loop)
  have "loop_step ?h3 ?h4"
    using loop_cancelled [of ?h3] by (simp add: insert_client_def clear_clients_def joined_hub_def new_hub_def)
  then have r4: "hub_reachable ?h4" using r3 by (blast intro: hub_next by_loop)
  have s4: "stranded 0 ?h4"
    by (simp add: stranded_def hub_stopped_def insert_client_def clear_clients_def joined_hub_def
        joined_client_def new_ws_client_def new_hub_def)
  have "{h'. hub_step\<^sup>*\<^sup>* ?h4 h'} \<subseteq> {h'. stranded 0 h'}"
    using stranded.steps_keep [OF _ s4] by blast
  with r4 show ?thesis by blast
qed

text \<open>
  When the writer fails while the handler still replays the history, the hub closes the channel under
  the handler, whose next send panics.
\<close>

theorem history_replay_can_panic: "\<exists>h cl. hub_reachable h \<and> hub_heap h 0 = Some cl \<and> ws_handler cl = Crashed"
proof -
  let ?cl = "joined_client [[], []]"
  let ?h1 = "insert_client 0 ((joined_hub [[], []])\<lparr>hub_loop := Selecting\<rparr>)"
  let ?c2 = "?cl\<lparr>ws_buf := [[]], ws_handler := Replaying [[]]\<rparr>"
  let ?c3 = "?c2\<lparr>ws_buf := [], ws_writer := Leaving\<rparr>"
  let ?c4 = "?c3\<lparr>ws_writer := Gone\<rparr>"
  let ?c5 = "?c4\<lparr>ws_closed := True\<rparr>"
  let ?h4 = "set_client 0 ?c4 (?h1\<lparr>hub_loop := Removing 0\<rparr>)"
  let ?h5 = "set_client 0 ?c5 (?h1\<lparr>hub_clients := [], hub_loop := Selecting\<rparr>)"
  note defs = insert_client_def joined_hub_def joined_client_def new_ws_client_def new_hub_def
    set_client_def offer_frame_def send_capacity_def
  have "loop_step (joined_hub [[], []]) ?h1" by (rule loop_insert) (simp add: joined_hub_def)
  then have r1: "hub_reachable ?h1" using joined_hub_reachable by (blast intro: hub_next by_loop)
  have "client_step ?h1 (set_client 0 ?c2 ?h1)"
    using client_history [of ?h1 0 ?cl "[]" "[[]]"] by (simp add: defs)
  then have r2: "hub_reachable (set_client 0 ?c2 ?h1)" using r1 by (blast intro: hub_next by_client)
  have "client_step (set_client 0 ?c2 ?h1) (set_client 0 ?c3 ?h1)"
    using writer_fail [of "set_client 0 ?c2 ?h1" 0 ?c2 "[]" "[]"] by (simp add: defs writer_leaves_def)
  then have r3: "hub_reachable (set_client 0 ?c3 ?h1)" using r2 by (blast intro: hub_next by_client)
  have "loop_step (set_client 0 ?c3 ?h1) ?h4"
    using loop_unregister [of "set_client 0 ?c3 ?h1" 0 ?c3] by (simp add: defs)
  then have r4: "hub_reachable ?h4" using r3 by (blast intro: hub_next by_loop)
  have "loop_step ?h4 ?h5"
    using loop_remove [of ?h4 0] by (simp add: defs remove_client_def on_client_def close_frames_def)
  then have r5: "hub_reachable ?h5" using r4 by (blast intro: hub_next by_loop)
  have "client_step ?h5 (set_client 0 (?c5\<lparr>ws_handler := Crashed\<rparr>) ?h5)"
    using client_history [of ?h5 0 ?c5 "[]" "[]"] by (simp add: defs)
  then have "hub_reachable (set_client 0 (?c5\<lparr>ws_handler := Crashed\<rparr>) ?h5)"
    using r5 by (blast intro: hub_next by_client)
  then show ?thesis by (force simp: set_client_def)
qed

section \<open>Witnesses\<close>

definition served_hub :: hub where
  "served_hub = insert_client 0 ((joined_hub [])\<lparr>hub_loop := Selecting\<rparr>)"

lemma served_hub_reachable: "hub_reachable served_hub"
  unfolding served_hub_def
  by (rule hub_next [OF joined_hub_reachable], rule by_loop, rule loop_insert) (simp add: joined_hub_def)

theorem hub_never_panics_witness:
  "\<not> hub_panic served_hub \<and> pred_option (\<lambda>cl. length (ws_buf cl) \<le> 256) (hub_heap served_hub 0)"
  using hub_never_panics [OF served_hub_reachable, of 0] by simp

theorem deliver_reaches_clients_with_room_witness:
  "hub_heap (deliver ''frame'' served_hub) 0 = Some ((joined_client [])\<lparr>ws_buf := [''frame'']\<rparr>)"
  using deliver_reaches_clients_with_room [OF served_hub_reachable, of "''frame''" 0]
  by (simp add: served_hub_def insert_client_def joined_hub_def joined_client_def new_ws_client_def new_hub_def)

end
