(* ===== verification/Engine_Sound.thy ===== *)
theory Engine_Sound
  imports Engine_Properties "HOL-Library.Sublist"
begin

text \<open>
  The parts of the engine stay sound while it serves requests: \<open>ServeHTTP\<close> never changes the router or
  the mock rules, and keeps the invariants of the ring and of the health monitor.
\<close>

definition engine_ok :: "engine \<Rightarrow> bool" where
  "engine_ok e \<longleftrightarrow> router_inv (eg_router e) \<and> pred_option ring_inv (eg_ring e)
     \<and> pred_option mock_inv (eg_mocks e) \<and> pred_option health_inv (eg_health e)
     \<and> eg_mocks e \<noteq> None \<and> eg_health e \<noteq> None \<and> eg_ring e \<noteq> None"

text \<open>The URLs the health monitor watches.\<close>

definition monitored :: "health_monitor \<Rightarrow> string list" where
  "monitored h = map fst (hm_targets h)"

definition health_urls :: "engine \<Rightarrow> string list option" where
  "health_urls e = map_option monitored (eg_health e)"

lemma health_urls_frame [simp]:
  "health_urls (e\<lparr>eg_mocks := m\<rparr>) = health_urls e" "health_urls (e\<lparr>eg_seq := n\<rparr>) = health_urls e"
  "health_urls (e\<lparr>eg_router := r\<rparr>) = health_urls e"
  by (simp_all add: health_urls_def)

lemma keys_update_present: "map_of m k \<noteq> None \<Longrightarrow> map fst (AList.update k v m) = map fst m"
  by (induction m) auto

lemma monitored_results:
  "monitored (fst (record_success now u h)) = monitored h" "monitored (fst (record_failure now u h)) = monitored h"
  "monitored (fst (probe_record now latency outcome key h)) = monitored h"
  by (auto simp: monitored_def record_success_def record_failure_def probe_record_def Let_def keys_update_present
      split: option.split)

text \<open>What serving a request may do to the parts.\<close>

definition engine_keeps :: "engine \<Rightarrow> engine \<Rightarrow> bool" where
  "engine_keeps e e' \<longleftrightarrow> eg_router e' = eg_router e \<and> eg_mocks e' = eg_mocks e
     \<and> eg_policy e' = eg_policy e \<and> eg_forward_policy e' = eg_forward_policy e
     \<and> eg_broadcast e' = eg_broadcast e \<and> eg_redact e' = eg_redact e
     \<and> prefix (eg_sent e) (eg_sent e') \<and> health_urls e' = health_urls e
     \<and> (eg_ring e = None \<longleftrightarrow> eg_ring e' = None) \<and> (eg_health e = None \<longleftrightarrow> eg_health e' = None)
     \<and> (pred_option ring_inv (eg_ring e) \<longrightarrow> pred_option ring_inv (eg_ring e'))
     \<and> (pred_option health_inv (eg_health e) \<longrightarrow> pred_option health_inv (eg_health e'))"

lemma engine_keeps_refl [simp]: "engine_keeps e e"
  by (simp add: engine_keeps_def)

lemma engine_keeps_trans: "engine_keeps e e' \<Longrightarrow> engine_keeps e' e'' \<Longrightarrow> engine_keeps e e''"
  unfolding engine_keeps_def by (metis prefix_order.trans)

lemma engine_keeps_ok: "engine_keeps e e' \<Longrightarrow> engine_ok e \<Longrightarrow> engine_ok e'"
  unfolding engine_keeps_def engine_ok_def by metis

lemma engine_keeps_context: "engine_keeps e (snd (trace_context_of w h e))"
  by (simp add: engine_keeps_def health_urls_def)

lemma engine_keeps_emit: "engine_keeps e (emit_new w ev e)"
  by (cases "eg_ring e")
     (auto simp: engine_keeps_def health_urls_def emit_new_def emit_trace_event_def Let_def ring_inv_push split: prod.split)

lemma health_inv_success: "health_inv h \<Longrightarrow> health_inv (fst (record_success now u h))"
  using health_inv_step [of h undefined "Success now u"] by simp

lemma health_inv_failure: "health_inv h \<Longrightarrow> health_inv (fst (record_failure now u h))"
  using health_inv_step [of h undefined "Failure now u"] by simp

lemma engine_keeps_report: "engine_keeps e (report_health w u st e)"
proof (cases "eg_health e")
  case (Some h)
  have "(health_inv h \<longrightarrow> health_inv h') \<and> monitored h' = monitored h"
    if "(if 500 \<le> st then record_failure (wo_now w) (Some u) h else record_success (wo_now w) (Some u) h) = (h', ns)" for h' ns
    using that health_inv_success [of h "wo_now w" "Some u"] health_inv_failure [of h "wo_now w" "Some u"]
      monitored_results(1,2) [where now = "wo_now w" and u = "Some u" and h = h]
    by (auto split: if_splits)
  with Some show ?thesis
    by (auto simp: report_health_def engine_keeps_def health_urls_def split: prod.split)
qed (simp add: report_health_def)

lemma engine_keeps_ids: "engine_keeps e (e\<lparr>eg_ids := ids\<rparr>)"
  by (simp add: engine_keeps_def health_urls_def)

lemma engine_keeps_run_proxy: "engine_keeps e (snd (snd (snd (snd (run_proxy w tm rq h e rh rw)))))"
  by (auto simp: run_proxy_def Let_def engine_keeps_ids split: option.split prod.split proxy_outcome.split)

lemma engine_keeps_eqs:
  "trace_context_of w h e = (ctx, e') \<Longrightarrow> engine_keeps e e'"
  "run_proxy w tm rq h e rh rw = (rh', rw', p, out, e') \<Longrightarrow> engine_keeps e e'"
  using engine_keeps_context [of e w h] engine_keeps_run_proxy [of e w tm rq h rh rw] by simp_all

lemmas engine_keeps_steps =
  engine_keeps_trans [OF _ engine_keeps_emit] engine_keeps_trans [OF _ engine_keeps_report]

lemma serve_mock_keeps: "engine_keeps e (sr_engine (serve_mock w mark target rule rq e cl))"
  by (auto simp: serve_mock_def Let_def split: option.split prod.split
      intro!: engine_keeps_steps dest: engine_keeps_eqs)

lemma serve_unrouted_keeps: "engine_keeps e (sr_engine (serve_unrouted w rq e cl))"
  by (auto simp: serve_unrouted_def Let_def split: prod.split intro!: engine_keeps_steps dest: engine_keeps_eqs)

lemma serve_broken_keeps: "engine_keeps e (sr_engine (serve_broken w t rq e cl))"
  by (auto simp: serve_broken_def Let_def serve_mock_keeps split: option.split prod.split
      intro!: engine_keeps_steps dest: engine_keeps_eqs)

lemma serve_routed_keeps: "engine_keeps e (sr_engine (serve_routed w t p rq e cl))"
  by (auto simp: serve_routed_def Let_def split: prod.split
      intro!: engine_keeps_steps dest!: engine_keeps_eqs intro: engine_keeps_trans)

lemma connect_keeps: "engine_keeps e (sr_engine (handle_connect_tunnel w rq e cl))"
  by (auto simp: handle_connect_tunnel_def Let_def split: sum.split prod.split
      intro!: engine_keeps_steps dest!: engine_keeps_eqs)

lemma websocket_keeps: "engine_keeps e (sr_engine (proxy_websocket w u p rq e cl))"
  by (auto simp: proxy_websocket_def ws_session_def Let_def split: sum.split prod.split option.split
      intro!: engine_keeps_steps dest!: engine_keeps_eqs)

lemma forward_keeps: "engine_keeps e (sr_engine (handle_forward_proxy_http w rq e cl))"
  by (auto simp: handle_forward_proxy_http_def Let_def split: sum.split prod.split option.split
      intro!: engine_keeps_steps dest!: engine_keeps_eqs)

lemma serve_http_keeps: "engine_keeps e (sr_engine (serve_http w rq e cl))"
  by (simp add: serve_http_def connect_keeps forward_keeps serve_mock_keeps serve_unrouted_keeps
      serve_broken_keeps serve_routed_keeps websocket_keeps split: option.split prod.split)

end
