(* ===== verification/Application.thy ===== *)
theory Application
  imports Engine_Sound Config Dashboard_Hub
begin

text \<open>
  The assembly of the program in src/internal/app/app.go: \<open>New\<close> builds router, ring, engine, hub and
  telemetry queue from the configuration, \<open>Start\<close> launches them in order and undoes a failed start,
  \<open>Shutdown\<close> stops them.
\<close>

section \<open>New\<close>

text \<open>The engine's router, ring, health monitor and mock rules are the ones the app refers to.\<close>

record app =
  ap_config :: config
  ap_engine :: engine
  ap_hub :: hub
  ap_queue :: event_queue
  ap_tickets :: "(string \<times> int) list"

text \<open>
  With egress control enabled the engine gets a policy object of its own. Otherwise the one made by
  \<open>NewEngine\<close>, which the dialer of \<open>ForwardTransport\<close> refers to as well, is changed in place.
\<close>

definition configured_policy :: "config \<Rightarrow> egress_policy" where
  "configured_policy cfg =
     \<lparr>ep_mode = ec_mode (cf_egress cfg), ep_block_metadata = sc_block_metadata (cf_server cfg),
      ep_allowed_hosts = ec_allowed_hosts (cf_egress cfg),
      ep_denied_cidrs = parse_prefixes (ec_denied_cidrs (cf_egress cfg)), ep_resolver = None\<rparr>"

definition configure_egress :: "config \<Rightarrow> engine \<Rightarrow> engine" where
  "configure_egress cfg e =
     (if ec_enabled (cf_egress cfg) then e\<lparr>eg_policy := Some (configured_policy cfg)\<rparr>
      else (let set = map_option (\<lambda>p. p\<lparr>ep_block_metadata := sc_block_metadata (cf_server cfg)\<rparr>)
            in e\<lparr>eg_policy := set (eg_policy e), eg_forward_policy := set (eg_forward_policy e)\<rparr>))"

definition configure_health :: "config \<Rightarrow> engine \<Rightarrow> engine" where
  "configure_health cfg e =
     e\<lparr>eg_health := map_option (\<lambda>h. set_on_status_change True
          (set_circuit_breaker_enforcement (sc_enforce_breaker (cf_server cfg)) h)) (eg_health e)\<rparr>"

definition mount_configured :: "(string \<Rightarrow> string + gurl) \<Rightarrow> engine \<Rightarrow> route_config \<Rightarrow> engine" where
  "mount_configured parse e rc =
     (case parse (rc_target rc) of
        Inl _ \<Rightarrow> e
      | Inr u \<Rightarrow>
          e\<lparr>eg_router := add_with_timeout (eg_router e) (rc_prefix rc) u (rc_strip_prefix rc) (rc_timeout_ms rc),
            eg_health := map_option (register_target (Some u) (rc_health_check_path rc)) (eg_health e)\<rparr>)"

definition mount_mock :: "engine \<Rightarrow> string \<times> override_config \<Rightarrow> engine" where
  "mount_mock e entry =
     (let (pre, ov) = entry
      in if mr_enabled (oc_mock ov) \<or> mr_body (oc_mock ov) \<noteq> []
         then e\<lparr>eg_mocks := map_option (set_rule ((oc_mock ov)\<lparr>mr_prefix := pre\<rparr>)) (eg_mocks e)\<rparr>
         else e)"

text \<open>
  \<open>ids\<close> and \<open>sq\<close> are the package-level counters the engine uses; the overrides come in one iteration
  order of the map.
\<close>

definition new_app :: "(string \<Rightarrow> string + gurl) \<Rightarrow> id_counters \<Rightarrow> u64 \<Rightarrow> config \<Rightarrow> app" where
  "new_app parse ids sq cfg =
     (let ring = new_ring_buffer (tr_ring_size (cf_tracing cfg));
          e = new_engine (new_router []) (Some ring) True ids sq;
          e = e\<lparr>eg_redact := tr_redact_pii (cf_tracing cfg)\<rparr>;
          e = configure_health cfg (configure_egress cfg e);
          e = foldl (mount_configured parse) e (cf_routes cfg);
          e = foldl mount_mock e (cf_overrides cfg)
      in \<lparr>ap_config = cfg, ap_engine = e, ap_hub = new_hub, ap_queue = new_event_queue, ap_tickets = []\<rparr>)"

section \<open>Start and Shutdown\<close>

definition host_port :: "string \<Rightarrow> int \<Rightarrow> string" where
  "host_port host port = host @ '':'' @ dec_of_int port"

text \<open>An empty proxy host gives the same address by either branch of the source.\<close>

definition proxy_addr :: "config \<Rightarrow> string" where
  "proxy_addr cfg =
     (if sc_host (cf_server cfg) = [] then '':'' @ dec_of_int (sc_proxy_port (cf_server cfg))
      else host_port (sc_host (cf_server cfg)) (sc_proxy_port (cf_server cfg)))"

definition dashboard_addr :: "config \<Rightarrow> string" where
  "dashboard_addr cfg =
     host_port (if sc_dashboard_host (cf_server cfg) = [] then ''127.0.0.1'' else sc_dashboard_host (cf_server cfg))
       (sc_dashboard_port (cf_server cfg))"

datatype start_action =
  RunHub
| RunWorker
| RunProbes nat
| RunDocker string string bool
| RunTunnel string string string string
| ListenProxy string
| ServeProxy string
| ListenDashboard string
| ServeDashboard string
| CloseProxyListener
| PrintBanner

text \<open>\<open>listen\<close> answers \<open>net.Listen\<close>; the errors of the Docker watcher and the tunnel are dropped.\<close>

definition start_workers :: "config \<Rightarrow> start_action list" where
  "start_workers cfg =
     [RunHub, RunWorker, RunProbes 3]
     @ (if dc_enabled (cf_docker cfg)
        then [RunDocker (dc_socket_path (cf_docker cfg)) (dc_mode (cf_docker cfg)) (dc_auto_route_all (cf_docker cfg))]
        else [])
     @ (if tc_enabled (cf_tunnel cfg)
        then [RunTunnel (tc_server_url (cf_tunnel cfg)) (tc_subdomain (cf_tunnel cfg)) (tc_auth_token (cf_tunnel cfg))
                (''http://localhost:'' @ dec_of_int (sc_proxy_port (cf_server cfg)))]
        else [])"

definition start_app :: "(string \<Rightarrow> string option) \<Rightarrow> config \<Rightarrow> start_action list \<times> string option" where
  "start_app listen cfg =
     (let acts = start_workers cfg @ [ListenProxy (proxy_addr cfg)]
      in case listen (proxy_addr cfg) of
           Some err \<Rightarrow> (acts, Some (''failed to bind proxy port '' @ proxy_addr cfg @ '': '' @ err))
         | None \<Rightarrow>
             (let acts = acts @ [ServeProxy (proxy_addr cfg), ListenDashboard (dashboard_addr cfg)]
              in case listen (dashboard_addr cfg) of
                   Some err \<Rightarrow>
                     (acts @ [CloseProxyListener],
                      Some (''failed to bind dashboard port '' @ dashboard_addr cfg @ '': '' @ err))
                 | None \<Rightarrow> (acts @ [ServeDashboard (dashboard_addr cfg), PrintBanner], None)))"

datatype stop_action = StopProxy | StopDashboard | CloseHub | StopDocker | AwaitWorkers

text \<open>The servers and the watcher exist once started; the answers of the two servers come as arguments.\<close>

definition shutdown_app ::
  "bool \<Rightarrow> bool \<Rightarrow> bool \<Rightarrow> string option \<Rightarrow> string option \<Rightarrow> stop_action list \<times> string option" where
  "shutdown_app proxy dashboard docker proxy_err dashboard_err =
     (let first = (if proxy then proxy_err else None);
          first = (if dashboard \<and> first = None then dashboard_err else first)
      in ((if proxy then [StopProxy] else []) @ (if dashboard then [StopDashboard] else [])
          @ [CloseHub] @ (if docker then [StopDocker] else []) @ [AwaitWorkers], first))"

section \<open>Lemmas\<close>

abbreviation app_routes :: "app \<Rightarrow> string list \<Rightarrow> route_target option" where
  "app_routes a \<equiv> router_routes (eg_router (ap_engine a))"

text \<open>The routing table the configuration describes: a later route of the same segments replaces an earlier one.\<close>

definition configured_routes :: "(string \<Rightarrow> string + gurl) \<Rightarrow> route_config list \<Rightarrow> string list \<Rightarrow> route_target option" where
  "configured_routes parse rcs segs =
     fold (\<lambda>rc found. case parse (rc_target rc) of
         Inl _ \<Rightarrow> found
       | Inr u \<Rightarrow> if route_segments (rc_prefix rc) = segs
                  then Some (target_of (rc_prefix rc) u (rc_strip_prefix rc) (rc_timeout_ms rc)) else found) rcs None"

lemma health_inv_register: "health_inv h \<Longrightarrow> health_inv (register_target u p h)"
  using health_inv_step [of h undefined "Register u p"] by simp

lemma engine_ok_mount:
  assumes "engine_ok e"
  shows "engine_ok (mount_configured parse e rc)
    \<and> router_routes (eg_router (mount_configured parse e rc)) segs
      = (case parse (rc_target rc) of
           Inl _ \<Rightarrow> router_routes (eg_router e) segs
         | Inr u \<Rightarrow> if route_segments (rc_prefix rc) = segs
                    then Some (target_of (rc_prefix rc) u (rc_strip_prefix rc) (rc_timeout_ms rc))
                    else router_routes (eg_router e) segs)"
  using assms router_add_correct [of "eg_router e" "rc_prefix rc"]
  by (auto simp: mount_configured_def engine_ok_def option.pred_map comp_def health_inv_register
      split: sum.split option.splits elim: option.pred_mono_strong)

lemma engine_ok_mounts:
  assumes "engine_ok e"
  shows "engine_ok (foldl (mount_configured parse) e rcs)"
  using assms by (induction rcs arbitrary: e) (simp_all add: engine_ok_mount)

lemma mounts_routes:
  assumes "engine_ok e"
  shows "router_routes (eg_router (foldl (mount_configured parse) e rcs)) segs
    = fold (\<lambda>rc found. case parse (rc_target rc) of
         Inl _ \<Rightarrow> found
       | Inr u \<Rightarrow> if route_segments (rc_prefix rc) = segs
                  then Some (target_of (rc_prefix rc) u (rc_strip_prefix rc) (rc_timeout_ms rc)) else found) rcs
        (router_routes (eg_router e) segs)"
  using assms
proof (induction rcs arbitrary: e)
  case (Cons rc rcs)
  note m = engine_ok_mount [OF Cons.prems, of parse rc]
  show ?case
    using Cons.IH [OF conjunct1 [OF m]] conjunct2 [OF m, of segs] by simp
qed simp

lemma mount_configured_fields [simp]:
  "eg_policy (mount_configured parse e rc) = eg_policy e"
  "eg_forward_policy (mount_configured parse e rc) = eg_forward_policy e"
  "eg_ring (mount_configured parse e rc) = eg_ring e" "eg_redact (mount_configured parse e rc) = eg_redact e"
  "eg_mocks (mount_configured parse e rc) = eg_mocks e"
  by (simp_all add: mount_configured_def split: sum.split)

lemma mount_mock_fields [simp]:
  "eg_policy (mount_mock e o') = eg_policy e" "eg_forward_policy (mount_mock e o') = eg_forward_policy e"
  "eg_ring (mount_mock e o') = eg_ring e" "eg_redact (mount_mock e o') = eg_redact e"
  "eg_router (mount_mock e o') = eg_router e" "eg_health (mount_mock e o') = eg_health e"
  by (simp_all add: mount_mock_def split: prod.split)

lemma foldl_keeps: "(\<And>e x. f (g e x) = f e) \<Longrightarrow> f (foldl g e xs) = f e"
  by (induction xs arbitrary: e) simp_all

lemmas mounts_fields [simp] =
  foldl_keeps [where g = "mount_configured parse" and f = eg_policy for parse, OF mount_configured_fields(1)]
  foldl_keeps [where g = "mount_configured parse" and f = eg_forward_policy for parse, OF mount_configured_fields(2)]
  foldl_keeps [where g = "mount_configured parse" and f = eg_ring for parse, OF mount_configured_fields(3)]
  foldl_keeps [where g = "mount_configured parse" and f = eg_redact for parse, OF mount_configured_fields(4)]
  foldl_keeps [where g = "mount_configured parse" and f = eg_mocks for parse, OF mount_configured_fields(5)]
  foldl_keeps [where g = mount_mock and f = eg_policy, OF mount_mock_fields(1)]
  foldl_keeps [where g = mount_mock and f = eg_forward_policy, OF mount_mock_fields(2)]
  foldl_keeps [where g = mount_mock and f = eg_ring, OF mount_mock_fields(3)]
  foldl_keeps [where g = mount_mock and f = eg_redact, OF mount_mock_fields(4)]
  foldl_keeps [where g = mount_mock and f = eg_router, OF mount_mock_fields(5)]
  foldl_keeps [where g = mount_mock and f = eg_health, OF mount_mock_fields(6)]

lemma engine_ok_mount_mock: "engine_ok e \<Longrightarrow> engine_ok (mount_mock e o')"
  by (auto simp: engine_ok_def mount_mock_def option.pred_map comp_def mock_inv_set split: prod.split
      elim: option.pred_mono_strong)

lemma engine_ok_mount_mocks: "engine_ok e \<Longrightarrow> engine_ok (foldl mount_mock e ovs)"
  by (induction ovs arbitrary: e) (simp_all add: engine_ok_mount_mock)

text \<open>The engine before routes and mocks are mounted.\<close>

definition base_engine :: "id_counters \<Rightarrow> u64 \<Rightarrow> config \<Rightarrow> engine" where
  "base_engine ids sq cfg =
     configure_health cfg (configure_egress cfg
       ((new_engine (new_router []) (Some (new_ring_buffer (tr_ring_size (cf_tracing cfg)))) True ids sq)
          \<lparr>eg_redact := tr_redact_pii (cf_tracing cfg)\<rparr>))"

lemma new_app_engine:
  "ap_engine (new_app parse ids sq cfg)
     = foldl mount_mock (foldl (mount_configured parse) (base_engine ids sq cfg) (cf_routes cfg)) (cf_overrides cfg)"
  by (simp add: new_app_def base_engine_def Let_def)

lemma base_engine_fields [simp]:
  "eg_router (base_engine ids sq cfg) = new_router []" "eg_mocks (base_engine ids sq cfg) = Some new_mocks"
  "eg_ring (base_engine ids sq cfg) = Some (new_ring_buffer (tr_ring_size (cf_tracing cfg)))"
  "eg_health (base_engine ids sq cfg)
     = Some (new_health_monitor\<lparr>hm_notify := True, hm_enforce := sc_enforce_breaker (cf_server cfg)\<rparr>)"
  "eg_redact (base_engine ids sq cfg) = tr_redact_pii (cf_tracing cfg)"
  "ec_enabled (cf_egress cfg) \<Longrightarrow> eg_policy (base_engine ids sq cfg) = Some (configured_policy cfg)"
  "ec_enabled (cf_egress cfg) \<Longrightarrow>
     eg_forward_policy (base_engine ids sq cfg) = Some (new_egress_policy egress_mode_metadata True)"
  by (simp_all add: base_engine_def configure_health_def configure_egress_def new_engine_def Let_def
      set_on_status_change_def set_circuit_breaker_enforcement_def new_health_monitor_def)

lemma engine_ok_base: "engine_ok (base_engine ids sq cfg)"
  by (simp add: engine_ok_def router_inv_initial ring_inv_new mock_inv_new)
     (simp add: health_inv_def new_health_monitor_def)

lemma engine_ok_new: "engine_ok (ap_engine (new_app parse ids sq cfg))"
  unfolding new_app_engine by (intro engine_ok_mount_mocks engine_ok_mounts engine_ok_base)

lemma new_app_routes: "app_routes (new_app parse ids sq cfg) segs = configured_routes parse (cf_routes cfg) segs"
  unfolding new_app_engine
  using router_inv_new [of "[]"]
  by (simp add: mounts_routes [OF engine_ok_base] configured_routes_def closed_below_def)

section \<open>Properties\<close>

text \<open>
  C27: the app \<open>New\<close> builds is well formed whatever the configuration: the router's trie, the ring, the
  mock rules and the health targets satisfy their invariants, the ring holds the configured number of
  events (100 unless positive), the hub has no client, nothing to broadcast and no sender waiting, the
  telemetry queue is empty with all its counts at zero, and no ticket is out.
\<close>

theorem new_app_well_formed:
  fixes parse :: "string \<Rightarrow> string + gurl" and ids :: id_counters and sq :: u64 and cfg :: config
  defines "a \<equiv> new_app parse ids sq cfg"
  shows "engine_ok (ap_engine a)
    \<and> map_option ring_capacity (eg_ring (ap_engine a))
      = Some (if 0 < tr_ring_size (cf_tracing cfg) then tr_ring_size (cf_tracing cfg) else 100)
    \<and> hub_ok (ap_hub a) \<and> hub_clients (ap_hub a) = [] \<and> hub_broadcast (ap_hub a) = []
    \<and> hub_senders (ap_hub a) = [] \<and> \<not> hub_closed (ap_hub a) \<and> (\<forall>c. hub_heap (ap_hub a) c = None)
    \<and> queue_ok (ap_queue a) \<and> eq_chan (ap_queue a) = [] \<and> eq_handled (ap_queue a) = []
    \<and> eq_total (ap_queue a) = 0 \<and> eq_dropped (ap_queue a) = 0 \<and> ap_tickets a = []
    \<and> eg_redact (ap_engine a) = tr_redact_pii (cf_tracing cfg)"
proof -
  have "map_option ring_capacity (eg_ring (ap_engine a))
      = Some (if 0 < tr_ring_size (cf_tracing cfg) then tr_ring_size (cf_tracing cfg) else 100)"
    unfolding a_def new_app_engine by (simp add: ring_capacity_def new_ring_buffer_def Let_def)
  moreover have "ap_hub a = new_hub" "ap_queue a = new_event_queue" "ap_tickets a = []"
    by (simp_all add: a_def new_app_def Let_def)
  moreover have "eg_redact (ap_engine a) = tr_redact_pii (cf_tracing cfg)"
    unfolding a_def new_app_engine by simp
  ultimately show ?thesis
    using engine_ok_new [of parse ids sq cfg] hub_ok_new queue_ok_new
    by (simp add: a_def) (simp add: new_hub_def new_event_queue_def)
qed

text \<open>
  C15: the gateway routes by the configuration: its router answers every path as a linear search for the
  longest configured prefix would, where of several routes with the same segments the last one counts.
\<close>

theorem new_app_routes_as_configured:
  "match_route (eg_router (ap_engine (new_app parse ids sq cfg))) path
    = map_option (\<lambda>(n, t). (t, outbound_path t n (request_path path)))
        (longest_route (configured_routes parse (cf_routes cfg)) (path_segments (request_path path)))"
proof -
  have "router_inv (eg_router (ap_engine (new_app parse ids sq cfg)))"
    using engine_ok_new by (simp add: engine_ok_def)
  moreover have "app_routes (new_app parse ids sq cfg) = configured_routes parse (cf_routes cfg)"
    by (intro ext new_app_routes)
  ultimately show ?thesis by (simp add: match_route_correct)
qed

text \<open>
  C38: with egress control enabled, the configured policy governs CONNECT requests only: forward-proxied
  HTTP requests are dialled under the policy of an engine without any configuration, whatever mode,
  allow-list and denied ranges the configuration sets.
\<close>

theorem forward_proxy_ignores_configured_policy:
  assumes "ec_enabled (cf_egress cfg)"
  shows "eg_policy (ap_engine (new_app parse ids sq cfg)) = Some (configured_policy cfg)
    \<and> forward_round_trip w rq h (ap_engine (new_app parse ids sq cfg))
      = forward_round_trip w rq h (new_engine (new_router []) None True ids sq)"
proof -
  have "eg_forward_policy (ap_engine (new_app parse ids sq cfg))
      = eg_forward_policy (new_engine (new_router []) None True ids sq)"
    unfolding new_app_engine using assms by (simp add: new_engine_def Let_def)
  moreover have "eg_policy (ap_engine (new_app parse ids sq cfg)) = Some (configured_policy cfg)"
    unfolding new_app_engine using assms by simp
  ultimately show ?thesis by (simp add: forward_round_trip_def)
qed

definition strict_config :: config where
  "strict_config = (default_config False)\<lparr>cf_egress :=
     \<lparr>ec_enabled = True, ec_mode = egress_mode_strict, ec_allowed_hosts = [], ec_denied_cidrs = []\<rparr>\<rparr>"

lemma strict_rejects:
  "\<exists>err. resolve_and_validate env (configured_policy strict_config) target = Inl err"
  by (simp add: resolve_and_validate_def resolve_allowed_def configured_policy_def strict_config_def
      Let_def split: prod.split)

theorem forward_proxy_ignores_configured_policy_witness:
  "(\<exists>err. validate_destination sample_env (configured_policy strict_config) ''10.0.0.1:80'' = Some err)
   \<and> eg_policy (ap_engine (new_app (cv_parse sample_config_env) \<lparr>trace_seq = 0, span_seq = 0\<rparr> 0 strict_config))
       = Some (configured_policy strict_config)
   \<and> snd (forward_round_trip sample_world sample_forward []
       (ap_engine (new_app (cv_parse sample_config_env) \<lparr>trace_seq = 0, span_seq = 0\<rparr> 0 strict_config)))
     = [DialedIp (V4 0x0A000001, ''80''), Forwarded ''http://10.0.0.1/'' []]"
proof -
  have en: "ec_enabled (cf_egress strict_config)" by (simp add: strict_config_def)
  have "resolve_and_validate sample_env (new_egress_policy egress_mode_metadata True) ''10.0.0.1:80''
      = Inr (V4 0x0A000001, ''80'')"
    by code_simp
  moreover have "canonical_addr id ''http'' ''10.0.0.1'' = ''10.0.0.1:80''" by code_simp
  ultimately have "snd (forward_round_trip sample_world sample_forward []
      (new_engine (new_router []) None True \<lparr>trace_seq = 0, span_seq = 0\<rparr> 0))
    = [DialedIp (V4 0x0A000001, ''80''), Forwarded ''http://10.0.0.1/'' []]"
    by (simp add: forward_round_trip_def sample_forward_def dial_by_policy_def dial_validated_def new_engine_def
        Let_def sample_world_def)
  moreover obtain err where "resolve_and_validate sample_env (configured_policy strict_config) ''10.0.0.1:80'' = Inl err"
    using strict_rejects by blast
  ultimately show ?thesis
    using forward_proxy_ignores_configured_policy [OF en, of "cv_parse sample_config_env"
        "\<lparr>trace_seq = 0, span_seq = 0\<rparr>" 0 sample_world sample_forward "[]"]
    by (simp add: validate_destination_def)
qed

text \<open>
  a start that fails has bound nothing it keeps: when the proxy port cannot be bound nothing
  listens, when the dashboard port cannot be bound the proxy listener is closed again, and the error
  names the address. The gateway serves before the dashboard port is tried.
\<close>

theorem failed_start_releases_ports:
  assumes "start_app listen cfg = (acts, res)"
  shows "(res = None \<longleftrightarrow> listen (proxy_addr cfg) = None \<and> listen (dashboard_addr cfg) = None)
    \<and> (res = None \<longleftrightarrow> ServeDashboard (dashboard_addr cfg) \<in> set acts)
    \<and> (CloseProxyListener \<in> set acts \<longleftrightarrow> res \<noteq> None \<and> ServeProxy (proxy_addr cfg) \<in> set acts)
    \<and> take (length (start_workers cfg)) acts = start_workers cfg"
  using assms
  by (auto simp: start_app_def start_workers_def Let_def split: option.splits)

lemma default_addrs:
  "dashboard_addr (default_config False) = ''127.0.0.1:4040''"
  "proxy_addr (default_config False) = ''0.0.0.0:4000''"
  by (simp_all add: dashboard_addr_def proxy_addr_def host_port_def default_config_def dec_of_int_def
      dec_of_nat.simps char_of_def bit_0)

theorem failed_start_releases_ports_witness:
  "CloseProxyListener \<in> set (fst (start_app (\<lambda>a. if a = ''127.0.0.1:4040'' then Some ''in use'' else None)
     (default_config False)))"
proof -
  let ?l = "\<lambda>a. if a = ''127.0.0.1:4040'' then Some ''in use'' else None"
  note addr = default_addrs
  obtain acts res where s: "start_app ?l (default_config False) = (acts, res)" by (rule prod.exhaust)
  have "ServeProxy (proxy_addr (default_config False)) \<in> set (fst (start_app ?l (default_config False)))"
    by (simp add: start_app_def addr Let_def)
  with failed_start_releases_ports [OF s] show ?thesis by (simp add: s addr)
qed

text \<open>
  An interface given as an IPv6 address is joined to the port without brackets, and the result is no
  address: a listener on it cannot be opened.
\<close>

theorem colon_host_cannot_listen:
  assumes "CHR '':'' \<in> set host" "hd host \<noteq> CHR ''[''" "0 \<le> port"
  shows "split_host_port (host_port host port) = Inl (''address '' @ host_port host port @ '': too many colons in address'')"
proof -
  have digits: "CHR '':'' \<notin> set (dec_of_nat n)" for n
  proof (induction n rule: dec_of_nat.induct)
    case (1 n)
    have "CHR '':'' \<noteq> char_of (48 + m)" if "m < 10" for m :: nat
    proof
      assume "CHR '':'' = char_of (48 + m)"
      then have "of_char (CHR '':'') = (48 + m) mod 256" by (simp add: of_char_of)
      with that show False by simp
    qed
    with 1 show ?case by (subst dec_of_nat.simps) auto
  qed
  then have "CHR '':'' \<notin> set (dec_of_int port)" using assms(3) by (simp add: dec_of_int_def)
  then have "last_index_byte (host @ CHR '':'' # dec_of_int port) CHR '':'' = Some (length host)"
    by (rule last_index_byte_append)
  moreover have "(host @ CHR '':'' # dec_of_int port) ! 0 \<noteq> CHR ''[''"
    using assms(1,2) by (cases host) auto
  ultimately show ?thesis
    using assms(1) by (simp add: split_host_port_def host_port_def addr_err_def Let_def)
qed

theorem colon_host_cannot_listen_witness:
  "dashboard_addr ((default_config False)\<lparr>cf_server := (cf_server (default_config False))
       \<lparr>sc_dashboard_host := ''::1''\<rparr>\<rparr>) = host_port ''::1'' 4040
   \<and> isl (split_host_port (host_port ''::1'' 4040))"
  using colon_host_cannot_listen [of "''::1''" 4040] by (simp add: dashboard_addr_def default_config_def)

end
