(* ===== verification/Url_Query.thy ===== *)
theory Url_Query
  imports Prelude "HOL-Library.List_Lexorder" "HOL-Library.Char_ord"
begin

text \<open>
  Query strings as \<open>net/url\<close> encodes and decodes them: src/internal/app/app.go reads tokens and tickets
  from them, src/pkg/docker/client.go builds its API requests with them.
\<close>

section \<open>Decoding\<close>

text \<open>\<open>url.ParseQuery\<close> and \<open>Values.Get\<close>: undecodable pairs are skipped, the first value counts.\<close>

definition hex_value :: "char \<Rightarrow> nat option" where
  "hex_value c =
     (let n = of_char c :: nat
      in if 48 \<le> n \<and> n \<le> 57 then Some (n - 48)
         else if 97 \<le> n \<and> n \<le> 102 then Some (n - 87)
         else if 65 \<le> n \<and> n \<le> 70 then Some (n - 55)
         else None)"

fun query_unescape :: "string \<Rightarrow> string option" where
  "query_unescape [] = Some []"
| "query_unescape (c # s) =
     (if c = CHR ''%'' then
        (case s of
           a # b # s' \<Rightarrow>
             (case (hex_value a, hex_value b) of
                (Some m, Some n) \<Rightarrow> map_option (\<lambda>r. char_of (16 * m + n) # r) (query_unescape s')
              | _ \<Rightarrow> None)
         | _ \<Rightarrow> None)
      else map_option (\<lambda>r. (if c = CHR ''+'' then CHR '' '' else c) # r) (query_unescape s))"

definition query_pair :: "string \<Rightarrow> (string \<times> string) option" where
  "query_pair s =
     (if s = [] \<or> CHR '';'' \<in> set s then None
      else (case (query_unescape (takeWhile (\<lambda>c. c \<noteq> CHR ''='') s),
                  query_unescape (drop 1 (dropWhile (\<lambda>c. c \<noteq> CHR ''='') s))) of
              (Some k, Some v) \<Rightarrow> Some (k, v)
            | _ \<Rightarrow> None))"

definition query_get :: "string \<Rightarrow> string \<Rightarrow> string" where
  "query_get raw k =
     (case map_of (List.map_filter query_pair (split_on CHR ''&'' raw)) k of Some v \<Rightarrow> v | None \<Rightarrow> [])"

section \<open>Encoding\<close>

definition upper_hex :: "nat \<Rightarrow> char" where
  "upper_hex n = char_of (if n < 10 then 48 + n else 55 + n)"

definition unreserved :: "char \<Rightarrow> bool" where
  "unreserved c \<longleftrightarrow>
     (let n = of_char c :: nat
      in 48 \<le> n \<and> n \<le> 57 \<or> 65 \<le> n \<and> n \<le> 90 \<or> 97 \<le> n \<and> n \<le> 122 \<or> c \<in> {CHR ''-'', CHR ''_'', CHR ''.'', CHR ''~''})"

definition escape_char :: "char \<Rightarrow> string" where
  "escape_char c =
     (if unreserved c then [c]
      else if c = CHR '' '' then ''+''
      else [CHR ''%'', upper_hex (of_char c div 16), upper_hex (of_char c mod 16)])"

definition query_escape :: "string \<Rightarrow> string" where
  "query_escape s = concat (map escape_char s)"

text \<open>\<open>Values.Encode\<close> for one value per key: sorted by key.\<close>

definition encode_values :: "(string \<times> string) list \<Rightarrow> string" where
  "encode_values kvs =
     join_with ''&'' (map (\<lambda>(k, v). query_escape k @ ''='' @ query_escape v) (sort_key fst kvs))"

section \<open>Round trip\<close>

lemma hex_value_upper: "n < 16 \<Longrightarrow> hex_value (upper_hex n) = Some n"
  by (auto simp: hex_value_def upper_hex_def Let_def of_char_of)

lemma upper_hex_plain: "n < 16 \<Longrightarrow> upper_hex n \<notin> {CHR ''&'', CHR ''='', CHR '';''}"
proof -
  assume "n < 16"
  then have "(of_char (upper_hex n) :: nat) \<in> {48..57} \<union> {65..70}"
    by (auto simp: upper_hex_def of_char_of)
  then show ?thesis by auto
qed

lemma nibbles:
  "(of_char c :: nat) div 16 < 16" "(of_char c :: nat) mod 16 < 16"
  "char_of (16 * ((of_char c :: nat) div 16) + of_char c mod 16) = c"
  using nat_of_char_less_256 [of c] by (simp_all add: less_mult_imp_div_less)

lemma unescape_percent:
  assumes "m < 16" "n < 16"
  shows "query_unescape (CHR ''%'' # upper_hex m # upper_hex n # s)
    = map_option (\<lambda>r. char_of (16 * m + n) # r) (query_unescape s)"
  using assms by (simp add: hex_value_upper)

lemma unescape_char: "query_unescape (escape_char c @ s) = map_option (\<lambda>r. c # r) (query_unescape s)"
proof -
  consider "unreserved c" | "\<not> unreserved c" "c = CHR '' ''" | "\<not> unreserved c" "c \<noteq> CHR '' ''" by blast
  then show ?thesis
  proof cases
    case 1
    then have "c \<noteq> CHR ''%''" "c \<noteq> CHR ''+''" by (auto simp: unreserved_def)
    with 1 show ?thesis by (simp add: escape_char_def)
  next
    case 2
    then show ?thesis by (simp add: escape_char_def)
  next
    case 3
    then show ?thesis
      using unescape_percent [OF nibbles(1,2), of c c s] unfolding nibbles(3) by (simp add: escape_char_def)
  qed
qed

lemma unescape_escape: "query_unescape (query_escape s) = Some s"
  by (induction s) (simp_all add: query_escape_def unescape_char)

lemma escape_char_plain: "set (escape_char c) \<inter> {CHR ''&'', CHR ''='', CHR '';''} = {}"
proof (cases "unreserved c")
  case True
  then have "c \<notin> {CHR ''&'', CHR ''='', CHR '';''}" by (auto simp: unreserved_def)
  with True show ?thesis by (simp add: escape_char_def)
next
  case False
  with upper_hex_plain [OF nibbles(1) [of c]] upper_hex_plain [OF nibbles(2) [of c]] show ?thesis
    by (auto simp: escape_char_def)
qed

lemma escape_plain: "set (query_escape s) \<inter> {CHR ''&'', CHR ''='', CHR '';''} = {}"
  using escape_char_plain by (induction s) (auto simp: query_escape_def)

lemma query_pair_encoded: "k \<noteq> [] \<Longrightarrow> query_pair (query_escape k @ ''='' @ query_escape v) = Some (k, v)"
proof -
  have "CHR ''='' \<notin> set (query_escape k)" using escape_plain [of k] by auto
  then have "takeWhile (\<lambda>c. c \<noteq> CHR ''='') (query_escape k @ ''='' @ query_escape v) = query_escape k"
    "dropWhile (\<lambda>c. c \<noteq> CHR ''='') (query_escape k @ ''='' @ query_escape v) = CHR ''='' # query_escape v"
    by (simp_all add: takeWhile_append dropWhile_append)
  moreover have "CHR '';'' \<notin> set (query_escape k @ ''='' @ query_escape v)"
    using escape_plain [of k] escape_plain [of v] by auto
  ultimately show ?thesis by (simp add: query_pair_def unescape_escape)
qed

lemma split_join: "parts \<noteq> [] \<Longrightarrow> (\<And>p. p \<in> set parts \<Longrightarrow> c \<notin> set p) \<Longrightarrow> split_on c (join_with [c] parts) = parts"
  by (induction "[c]" parts rule: join_with.induct) (simp_all add: split_on_append)

lemma query_get_encode:
  assumes "kvs \<noteq> []" "[] \<notin> fst ` set kvs" "distinct (map fst kvs)"
  shows "query_get (encode_values kvs) k = (case map_of kvs k of Some v \<Rightarrow> v | None \<Rightarrow> [])"
proof -
  let ?enc = "\<lambda>(k, v). query_escape k @ ''='' @ query_escape v"
  have "length (sort_key fst kvs) \<noteq> 0" using assms(1) by simp
  then have sorted: "map ?enc (sort_key fst kvs) \<noteq> []" by (metis length_0_conv length_map)
  have "CHR ''&'' \<notin> set p" if "p \<in> set (map ?enc (sort_key fst kvs))" for p
  proof -
    from that obtain a b where "p = query_escape a @ ''='' @ query_escape b" by auto
    then show ?thesis using escape_plain [of a] escape_plain [of b] by auto
  qed
  then have "split_on CHR ''&'' (encode_values kvs) = map ?enc (sort_key fst kvs)"
    unfolding encode_values_def using sorted by (intro split_join) simp_all
  moreover have "List.map_filter query_pair (map ?enc ps) = ps" if "[] \<notin> fst ` set ps" for ps
    using that
  proof (induction ps)
    case (Cons p ps)
    obtain a b where p: "p = (a, b)" by (cases p)
    with Cons.prems have "query_pair (?enc p) = Some p"
      by (simp only: p prod.case) (rule query_pair_encoded, auto simp: p)
    with Cons show ?case by (simp add: List.map_filter_simps)
  qed (simp add: List.map_filter_simps)
  moreover have keys: "distinct (map fst (sort_key fst kvs))"
    using assms(3) by (simp add: distinct_map)
  moreover have "map_of (sort_key fst kvs) k = map_of kvs k"
    by (rule fun_cong [where x = k], rule map_of_inject_set [THEN iffD2]) (simp_all add: assms(3) keys)
  ultimately show ?thesis using assms(2) by (simp add: query_get_def)
qed

end
