(* ===== verification/Ticket_Store.thy ===== *)
theory Ticket_Store
  imports Prelude
begin

text \<open>
  What the stream endpoint of the dashboard relies on: tickets that are issued with a lifetime, held in
  a table and used up. The interface is over any system that takes operations in sequence; Dashboard
  interprets it on the whole app.
\<close>

text \<open>The times at which a run issued a ticket, and how often it was used.\<close>

fun times_issued :: "('s \<Rightarrow> 'o \<Rightarrow> 's) \<Rightarrow> ('s \<Rightarrow> 'o \<Rightarrow> int option) \<Rightarrow> 's \<Rightarrow> 'o list \<Rightarrow> int list" where
  "times_issued step issued s [] = []"
| "times_issued step issued s (op # ops) =
     (case issued s op of Some n \<Rightarrow> [n] | None \<Rightarrow> []) @ times_issued step issued (step s op) ops"

fun times_used :: "('s \<Rightarrow> 'o \<Rightarrow> 's) \<Rightarrow> ('s \<Rightarrow> 'o \<Rightarrow> bool) \<Rightarrow> 's \<Rightarrow> 'o list \<Rightarrow> nat" where
  "times_used step used s [] = 0"
| "times_used step used s (op # ops) = (if used s op then 1 else 0) + times_used step used (step s op) ops"

text \<open>
  The laws: an issue stores the ticket with its expiry, a use needs a stored unexpired ticket and removes
  it, and no other operation brings a ticket back or changes its expiry.
\<close>

locale single_use_tickets =
  fixes step :: "'s \<Rightarrow> 'o \<Rightarrow> 's"
    and issued :: "'t \<Rightarrow> 's \<Rightarrow> 'o \<Rightarrow> int option"
    and used :: "'t \<Rightarrow> 's \<Rightarrow> 'o \<Rightarrow> bool"
    and expiry :: "'s \<Rightarrow> 't \<Rightarrow> int option"
    and clock :: "'o \<Rightarrow> int"
    and lifetime :: int
    and ok :: "'s \<Rightarrow> bool"
  assumes ok_step: "ok s \<Longrightarrow> ok (step s op)"
    and issue_law: "ok s \<Longrightarrow> issued t s op = Some n \<Longrightarrow>
      expiry (step s op) t = Some (n + lifetime) \<and> \<not> used t s op"
    and other_law: "ok s \<Longrightarrow> issued t s op = None \<Longrightarrow> expiry (step s op) t \<in> {None, expiry s t}"
    and use_law: "ok s \<Longrightarrow> used t s op \<Longrightarrow>
      (\<exists>e. expiry s t = Some e \<and> clock op < e) \<and> expiry (step s op) t = None"
begin

lemma balance:
  assumes "ok s"
  shows "times_used step (used t) s ops + (if expiry (foldl step s ops) t = None then 0 else 1)
    \<le> length (times_issued step (issued t) s ops) + (if expiry s t = None then 0 else 1)"
  using assms
proof (induction ops arbitrary: s)
  case (Cons op ops)
  from Cons.IH [OF ok_step [OF Cons.prems, of op]] issue_law [OF Cons.prems, of t op]
    other_law [OF Cons.prems, of t op] use_law [OF Cons.prems, of t op]
  show ?case by (cases "issued t s op") (auto split: if_splits)
qed simp

lemma origin:
  assumes "ok s" "expiry (foldl step s ops) t = Some e"
  shows "(\<exists>n \<in> set (times_issued step (issued t) s ops). e = n + lifetime) \<or> expiry s t = Some e"
  using assms
proof (induction ops arbitrary: s)
  case (Cons op ops)
  from Cons.IH [OF ok_step [OF Cons.prems(1), of op]] Cons.prems issue_law [OF Cons.prems(1), of t op]
    other_law [OF Cons.prems(1), of t op]
  show ?case by (cases "issued t s op") auto
qed simp

lemma single_use:
  assumes "ok s" "expiry s t = None" "ok (foldl step s ops)" "used t (foldl step s ops) op"
  shows "times_used step (used t) s ops < length (times_issued step (issued t) s ops)
    \<and> (\<exists>n \<in> set (times_issued step (issued t) s ops). clock op < n + lifetime)
    \<and> expiry (step (foldl step s ops) op) t = None"
proof -
  from use_law [OF assms(3,4)] obtain e where e: "expiry (foldl step s ops) t = Some e" "clock op < e"
    and gone: "expiry (step (foldl step s ops) op) t = None" by blast
  from balance [OF assms(1), of t ops] e(1) assms(2)
  have "times_used step (used t) s ops < length (times_issued step (issued t) s ops)" by simp
  with origin [OF assms(1) e(1)] e(2) gone assms(2) show ?thesis by auto
qed

end

end
