(* ===== verification/Dashboard.thy ===== *)
theory Dashboard
  imports Application Replay Waterfall Url_Query Ticket_Store
begin

text \<open>
  The control plane of src/internal/app/app.go: the handlers \<open>setupDashboardRoutes\<close> registers, with
  bearer and ticket authentication and the origin check, over the app's state, and the gateway's
  requests as they fill the telemetry queue. JSON decoding and encoding, the random bytes, the clock
  and the WebSocket handshake enter through the record \<open>dash_env\<close>.
\<close>

section \<open>Surroundings and replies\<close>

record dash_env =
  de_now :: int
  de_random :: "byte list"
  de_parse :: "string \<Rightarrow> string + gurl"
  de_fold :: "string \<Rightarrow> string"
  de_upgrade :: bool
  de_rule :: "mock_rule option"
  de_toggle :: "(string \<times> bool) option"
  de_replay :: "replay_request option"
  de_replay_env :: replay_env
  de_request :: "replayed \<Rightarrow> request"
  de_world :: world
  de_freed :: bool
  de_outer :: "string list"
  de_inner :: "string \<Rightarrow> string list"

datatype dash_body =
  TicketBody string
| RoutesBody "route_config list"
| StatsBody queue_stats
| HealthBody "target_health list"
| RulesBody "mock_rule list"
| OkBody
| ReplayBody replay_response
| WaterfallBody "span_map \<times> string list"
| TracesBody "trace_event list"

text \<open>\<open>Refused\<close> is \<open>http.Error\<close>; \<open>Unupgraded\<close> the refusal of the WebSocket library; \<open>Aborted\<close> a panic.\<close>

datatype dash_reply =
  Refused string int
| Answered dash_body
| Page
| Streaming "trace_event list"
| Unupgraded
| Aborted

section \<open>Authentication\<close>

definition go_second :: int where "go_second = 1000000000"
definition max_tickets :: nat where "max_tickets = 1000"

abbreviation auth_token :: "app \<Rightarrow> string" where
  "auth_token a \<equiv> sc_auth_token (cf_server (ap_config a))"

abbreviation bearer_ok :: "app \<Rightarrow> request \<Rightarrow> bool" where
  "bearer_ok a rq \<equiv> hdr_get (rq_header rq) ''Authorization'' = ''Bearer '' @ auth_token a"

abbreviation query_token :: "request \<Rightarrow> string" where
  "query_token rq \<equiv> query_get (rq_raw_query rq) ''token''"

definition token_accepted :: "app \<Rightarrow> request \<Rightarrow> bool" where
  "token_accepted a rq \<longleftrightarrow> auth_token a = [] \<or> query_token rq = auth_token a \<or> bearer_ok a rq"

definition auth_middleware :: "(app \<Rightarrow> app \<times> dash_reply) \<Rightarrow> request \<Rightarrow> app \<Rightarrow> app \<times> dash_reply" where
  "auth_middleware handler rq a =
     (if auth_token a \<noteq> [] \<and> query_token rq \<noteq> auth_token a \<and> \<not> bearer_ok a rq
      then (a, Refused ''Unauthorized: invalid dashboard token'' 401)
      else handler a)"

definition purge_tickets :: "int \<Rightarrow> (string \<times> int) list \<Rightarrow> (string \<times> int) list" where
  "purge_tickets now ts = filter (\<lambda>(t, exp). \<not> exp < now) ts"

definition issue_ticket :: "dash_env \<Rightarrow> app \<Rightarrow> app \<times> dash_reply" where
  "issue_ticket env a =
     (let ticket = hex_encode (de_random env); ts = purge_tickets (de_now env) (ap_tickets a)
      in if length ts < max_tickets
         then (a\<lparr>ap_tickets := AList.update ticket (de_now env + 60 * go_second) ts\<rparr>, Answered (TicketBody ticket))
         else (a\<lparr>ap_tickets := ts\<rparr>, Refused ''Too many active tickets'' 503))"

text \<open>The ticket that opens a stream is removed; an expired one stays until the next issue.\<close>

definition redeem_ticket :: "int \<Rightarrow> string \<Rightarrow> (string \<times> int) list \<Rightarrow> bool \<times> (string \<times> int) list" where
  "redeem_ticket now ticket ts =
     (if ticket = [] then (False, ts)
      else (case map_of ts ticket of
              Some expiry \<Rightarrow> if now < expiry then (True, AList.delete ticket ts) else (False, ts)
            | None \<Rightarrow> (False, ts)))"

definition authorize_stream :: "dash_env \<Rightarrow> request \<Rightarrow> app \<Rightarrow> bool \<times> app" where
  "authorize_stream env rq a =
     (if auth_token a = [] then (True, a)
      else if bearer_ok a rq then (True, a)
      else (let (ok, ts) = redeem_ticket (de_now env) (query_get (rq_raw_query rq) ''ticket'') (ap_tickets a);
                a = a\<lparr>ap_tickets := ts\<rparr>
            in if ok then (True, a) else (query_token rq = auth_token a, a)))"

definition check_origin :: "dash_env \<Rightarrow> request \<Rightarrow> app \<Rightarrow> bool" where
  "check_origin env rq a =
     (let origin = hdr_get (rq_header rq) ''Origin'';
          port = dec_of_int (sc_dashboard_port (cf_server (ap_config a)))
      in if origin = [] then True
         else (case de_parse env origin of
                 Inl _ \<Rightarrow> False
               | Inr u \<Rightarrow>
                   if u_scheme u \<noteq> ''http'' \<and> u_scheme u \<noteq> ''https'' then False
                   else de_fold env (u_host u) = de_fold env (rq_host rq)
                     \<or> de_fold env (u_host u) = de_fold env (''localhost:'' @ port)
                     \<or> de_fold env (u_host u) = de_fold env (''127.0.0.1:'' @ port)
                     \<or> (port = ''80'' \<and> (u_host u = ''localhost'' \<or> u_host u = ''127.0.0.1''))))"

section \<open>Handlers\<close>

definition set_mocks :: "mock_rules \<Rightarrow> app \<Rightarrow> app" where
  "set_mocks m a = a\<lparr>ap_engine := (ap_engine a)\<lparr>eg_mocks := Some m\<rparr>\<rparr>"

definition app_mocks :: "app \<Rightarrow> mock_rules" where
  "app_mocks a = (case eg_mocks (ap_engine a) of Some m \<Rightarrow> m | None \<Rightarrow> [])"

definition app_events :: "app \<Rightarrow> trace_event list" where
  "app_events a = (case eg_ring (ap_engine a) of Some r \<Rightarrow> ring_get_all r | None \<Rightarrow> [])"

text \<open>A request the engine serves, and the events it passes to the callback \<open>New\<close> installed.\<close>

definition publish_events :: "app \<Rightarrow> bool \<Rightarrow> engine \<Rightarrow> app" where
  "publish_events a freed e =
     a\<lparr>ap_engine := e,
       ap_queue := foldl (\<lambda>q ev. enqueue_event (overflow_policy_of (tr_overflow_policy (cf_tracing (ap_config a)))) freed ev q)
         (ap_queue a) (drop (length (eg_sent (ap_engine a))) (eg_sent e))\<rparr>"

definition gateway_request :: "dash_env \<Rightarrow> request \<Rightarrow> client \<Rightarrow> app \<Rightarrow> app \<times> serve_result" where
  "gateway_request env rq cl a =
     (let r = serve_http (de_world env) rq (ap_engine a) cl
      in (publish_events a (de_freed env) (sr_engine r), r))"

text \<open>\<open>httptest.ResponseRecorder\<close>.\<close>

definition recorder :: client where
  "recorder = \<lparr>cl_header = [], cl_writer =
     \<lparr>rw_calls = [], rw_flusher = True, rw_hijacker = False, rw_result = (\<lambda>b. (length b, None))\<rparr>,
     cl_conn = []\<rparr>"

definition recorded_result :: "client \<Rightarrow> int \<times> header \<times> string" where
  "recorded_result cl =
     (case rw_calls (cl_writer cl) of HeaderCall code # _ \<Rightarrow> code | _ \<Rightarrow> 200, cl_header cl,
      concat (write_calls (rw_calls (cl_writer cl))))"

text \<open>
  \<open>Execute\<close> with the engine as the server: the request it builds and the id counter after it do not
  depend on the answer.
\<close>

definition replay_handler :: "dash_env \<Rightarrow> request \<Rightarrow> app \<Rightarrow> app \<times> dash_reply" where
  "replay_handler env rq a =
     (if rq_method rq \<noteq> ''POST'' then (a, Refused ''Method not allowed'' 405)
      else (case de_replay env of
              None \<Rightarrow> (a, Refused ''Invalid JSON replay request'' 400)
            | Some p \<Rightarrow>
                (let (_, built, counter) = execute (de_replay_env env) p (eg_seq (ap_engine a));
                     a1 = a\<lparr>ap_engine := (ap_engine a)\<lparr>eg_seq := counter\<rparr>\<rparr>
                 in case built of
                      None \<Rightarrow>
                        (case execute (de_replay_env env) p (eg_seq (ap_engine a)) of
                           (Inl err, _) \<Rightarrow> (a1, Refused err 500)
                         | (Inr res, _) \<Rightarrow> (a1, Answered (ReplayBody res)))
                    | Some rd \<Rightarrow>
                        (let (a2, r) = gateway_request env (de_request env rd) recorder a1
                         in if sr_panic r then (a2, Aborted)
                            else (case execute ((de_replay_env env)\<lparr>rv_serve := \<lambda>_. recorded_result (sr_client r)\<rparr>)
                                     p (eg_seq (ap_engine a)) of
                                    (Inl err, _) \<Rightarrow> (a2, Refused err 500)
                                  | (Inr res, _) \<Rightarrow> (a2, Answered (ReplayBody res)))))))"

definition mocks_handler :: "dash_env \<Rightarrow> request \<Rightarrow> app \<Rightarrow> app \<times> dash_reply" where
  "mocks_handler env rq a =
     (let m = (if rq_method rq = ''POST''
               then (case de_rule env of Some rule \<Rightarrow> set_rule rule (app_mocks a) | None \<Rightarrow> app_mocks a)
               else app_mocks a);
          (rules, m) = list_rules m
      in (set_mocks m a, Answered (RulesBody rules)))"

definition toggle_handler :: "dash_env \<Rightarrow> request \<Rightarrow> app \<Rightarrow> app \<times> dash_reply" where
  "toggle_handler env rq a =
     (if rq_method rq \<noteq> ''POST'' then (a, Refused ''Method not allowed'' 405)
      else (case de_toggle env of
              Some (pre, enabled) \<Rightarrow> (set_mocks (snd (toggle_rule pre enabled (app_mocks a))) a, Answered OkBody)
            | None \<Rightarrow> (a, Answered OkBody)))"

definition stats_body :: "app \<Rightarrow> dash_body" where
  "stats_body a = StatsBody (queue_stats_of (tr_overflow_policy (cf_tracing (ap_config a))) (ap_queue a))"

definition health_body :: "app \<Rightarrow> dash_body" where
  "health_body a =
     HealthBody (case eg_health (ap_engine a) of Some h \<Rightarrow> get_all_status h | None \<Rightarrow> [])"

definition waterfall_body :: "dash_env \<Rightarrow> request \<Rightarrow> app \<Rightarrow> dash_body" where
  "waterfall_body env rq a =
     WaterfallBody (build_waterfall (de_outer env) (de_inner env) (app_events a) (query_get (rq_raw_query rq) ''trace_id''))"

text \<open>
  \<open>/ws\<close>: a stream starts with the ring's events, the oldest first; the hub takes over from there.
\<close>

definition stream_handler :: "dash_env \<Rightarrow> request \<Rightarrow> app \<Rightarrow> app \<times> dash_reply" where
  "stream_handler env rq a =
     (let (authorized, a) = authorize_stream env rq a
      in if \<not> authorized then (a, Refused ''Unauthorized'' 401)
         else if \<not> de_upgrade env \<or> \<not> check_origin env rq a then (a, Unupgraded)
         else if hub_closed (ap_hub a) then (a, Streaming [])
         else (a, Streaming (rev (app_events a))))"

definition protected_handler :: "dash_env \<Rightarrow> string \<Rightarrow> request \<Rightarrow> app \<Rightarrow> app \<times> dash_reply" where
  "protected_handler env pattern rq a =
     (if pattern = ''/api/auth/ticket'' then issue_ticket env a
      else if pattern = ''/api/routes'' then (a, Answered (RoutesBody (cf_routes (ap_config a))))
      else if pattern = ''/api/telemetry/stats'' then (a, Answered (stats_body a))
      else if pattern = ''/api/health'' then (a, Answered (health_body a))
      else if pattern = ''/api/mocks'' then mocks_handler env rq a
      else if pattern = ''/api/mocks/toggle'' then toggle_handler env rq a
      else if pattern = ''/api/replay'' then replay_handler env rq a
      else if pattern = ''/api/waterfall'' then (a, Answered (waterfall_body env rq a))
      else (a, Answered (TracesBody (app_events a))))"

definition protected_patterns :: "string list" where
  "protected_patterns = [''/api/auth/ticket'', ''/api/routes'', ''/api/telemetry/stats'', ''/api/health'',
     ''/api/mocks'', ''/api/mocks/toggle'', ''/api/replay'', ''/api/waterfall'', ''/api/traces'']"

text \<open>The mux on a clean path: an exact pattern, else the single page.\<close>

definition serve_dashboard :: "dash_env \<Rightarrow> request \<Rightarrow> app \<Rightarrow> app \<times> dash_reply" where
  "serve_dashboard env rq a =
     (if rq_path rq = ''/ws'' then stream_handler env rq a
      else if rq_path rq \<in> set protected_patterns
      then auth_middleware (protected_handler env (rq_path rq) rq) rq a
      else (a, Page))"

section \<open>Runs of the program\<close>

text \<open>
  What may happen to a running app: a dashboard request, a gateway request, a step of the telemetry
  worker, a health probe.
\<close>

datatype app_op =
  DashboardRequest dash_env request
| GatewayRequest dash_env request client
| HandleEvent
| ProbeTarget "int \<Rightarrow> string" int int probe_result string

fun app_step :: "app \<Rightarrow> app_op \<Rightarrow> app" where
  "app_step a (DashboardRequest env rq) = fst (serve_dashboard env rq a)"
| "app_step a (GatewayRequest env rq cl) = fst (gateway_request env rq cl a)"
| "app_step a HandleEvent = a\<lparr>ap_queue := take_event (ap_queue a)\<rparr>"
| "app_step a (ProbeTarget stext now latency result key) =
     a\<lparr>ap_engine := (ap_engine a)\<lparr>eg_health :=
         map_option (\<lambda>h. fst (health_step stext h (Probe now latency result key))) (eg_health (ap_engine a))\<rparr>\<rparr>"

definition app_ok :: "app \<Rightarrow> bool" where
  "app_ok a \<longleftrightarrow> engine_ok (ap_engine a) \<and> queue_ok (ap_queue a)
     \<and> eq_total (ap_queue a) = of_nat (length (eg_sent (ap_engine a)))
     \<and> map_ok (ap_tickets a) \<and> length (ap_tickets a) \<le> max_tickets"

text \<open>What no operation changes.\<close>

definition app_fixed ::
  "app \<Rightarrow> config \<times> router \<times> egress_policy option \<times> egress_policy option \<times> bool \<times> string list option" where
  "app_fixed a = (ap_config a, eg_router (ap_engine a), eg_policy (ap_engine a),
     eg_forward_policy (ap_engine a), eg_redact (ap_engine a), health_urls (ap_engine a))"

definition app_keeps :: "app \<Rightarrow> app \<Rightarrow> bool" where
  "app_keeps a a' \<longleftrightarrow> app_fixed a' = app_fixed a \<and> (app_ok a \<longrightarrow> app_ok a')"

lemma app_keeps_refl [simp]: "app_keeps a a"
  by (simp add: app_keeps_def)

lemma app_keeps_trans: "app_keeps a a' \<Longrightarrow> app_keeps a' a'' \<Longrightarrow> app_keeps a a''"
  unfolding app_keeps_def by metis

lemma queue_ok_publish: "queue_ok q \<Longrightarrow> queue_ok (foldl (\<lambda>q ev. enqueue_event policy freed ev q) q evs)"
proof (induction evs arbitrary: q)
  case (Cons ev evs)
  with queue_ok_step [of q policy "Emit freed ev"] show ?case by simp
qed simp

lemma total_publish:
  "eq_total (foldl (\<lambda>q ev. enqueue_event policy freed ev q) q evs) = eq_total q + of_nat (length evs)"
proof (induction evs arbitrary: q)
  case (Cons ev evs)
  have "eq_total (enqueue_event policy freed ev q) = eq_total q + 1"
    by (simp add: enqueue_event_def send_event_def Let_def)
  with Cons show ?case by simp
qed simp

lemma gateway_request_keeps: "app_keeps a (fst (gateway_request env rq cl a))"
proof -
  let ?e = "sr_engine (serve_http (de_world env) rq (ap_engine a) cl)"
  have keeps: "engine_keeps (ap_engine a) ?e" by (rule serve_http_keeps)
  then have "prefix (eg_sent (ap_engine a)) (eg_sent ?e)" by (simp add: engine_keeps_def)
  then have "length (eg_sent (ap_engine a)) + length (drop (length (eg_sent (ap_engine a))) (eg_sent ?e))
      = length (eg_sent ?e)"
    by (auto elim!: prefixE)
  then have "of_nat (length (eg_sent (ap_engine a))) + of_nat (length (eg_sent ?e) - length (eg_sent (ap_engine a)))
      = (of_nat (length (eg_sent ?e)) :: u64)"
    by (metis length_drop of_nat_add)
  with keeps show ?thesis
    by (auto simp: app_keeps_def app_fixed_def app_ok_def gateway_request_def publish_events_def Let_def
        queue_ok_publish total_publish intro: engine_keeps_ok) (simp_all add: engine_keeps_def)
qed

lemma set_mocks_keeps: "(app_ok a \<Longrightarrow> mock_inv m) \<Longrightarrow> app_keeps a (set_mocks m a)"
  by (auto simp: app_keeps_def app_fixed_def app_ok_def engine_ok_def set_mocks_def)

lemma app_mocks_inv: "app_ok a \<Longrightarrow> mock_inv (app_mocks a)"
  by (auto simp: app_ok_def engine_ok_def app_mocks_def split: option.split)

lemma mocks_handler_keeps: "app_keeps a (fst (mocks_handler env rq a))"
proof -
  have "app_ok a \<Longrightarrow> mock_inv (snd (list_rules m))" if "m = app_mocks a \<or> (\<exists>rule. m = set_rule rule (app_mocks a))" for m
    using that app_mocks_inv mock_inv_set by (metis list_rules_pure snd_conv)
  then show ?thesis
    by (auto simp: mocks_handler_def Let_def split: prod.split option.split intro!: set_mocks_keeps) (metis snd_conv)+
qed

lemma toggle_handler_keeps: "app_keeps a (fst (toggle_handler env rq a))"
  by (auto simp: toggle_handler_def split: option.split prod.split intro!: set_mocks_keeps mock_inv_toggle app_mocks_inv)

lemma map_ok_purge: "map_ok ts \<Longrightarrow> map_ok (purge_tickets now ts)"
  by (simp add: purge_tickets_def distinct_map_filter)

lemma length_purge: "length (purge_tickets now ts) \<le> length ts"
  by (simp add: purge_tickets_def)

lemma length_update: "length (AList.update k v ts) \<le> Suc (length ts)"
  by (induction ts) auto

lemma issue_ticket_keeps: "app_keeps a (fst (issue_ticket env a))"
  using length_update length_purge [of "de_now env" "ap_tickets a"]
  by (auto simp: app_keeps_def app_fixed_def app_ok_def issue_ticket_def Let_def map_ok_purge
      intro: order.trans [OF length_update Suc_leI])

lemma authorize_stream_keeps: "app_keeps a (snd (authorize_stream env rq a))"
  by (auto simp: app_keeps_def app_fixed_def app_ok_def authorize_stream_def redeem_ticket_def Let_def
      split: option.split intro: order.trans [OF length_delete_le])

lemma replay_handler_keeps: "app_keeps a (fst (replay_handler env rq a))"
proof -
  have seq: "app_keeps a (a\<lparr>ap_engine := (ap_engine a)\<lparr>eg_seq := n\<rparr>\<rparr>)" for n
    by (simp add: app_keeps_def app_fixed_def app_ok_def engine_ok_def)
  have "app_keeps a (fst (gateway_request env r cl (a\<lparr>ap_engine := (ap_engine a)\<lparr>eg_seq := n\<rparr>\<rparr>)))" for r cl n
    by (rule app_keeps_trans [OF seq gateway_request_keeps])
  then have "gateway_request env r cl (a\<lparr>ap_engine := (ap_engine a)\<lparr>eg_seq := n\<rparr>\<rparr>) = (a', x) \<Longrightarrow> app_keeps a a'"
    for r cl n a' x
    by (metis fst_conv)
  with seq show ?thesis
    by (auto simp: replay_handler_def Let_def split: prod.split option.split sum.split)
qed

lemma stream_handler_keeps: "app_keeps a (fst (stream_handler env rq a))"
  using authorize_stream_keeps [of a env rq] by (auto simp: stream_handler_def Let_def split: prod.split)

lemma serve_dashboard_keeps: "app_keeps a (fst (serve_dashboard env rq a))"
  by (simp add: serve_dashboard_def auth_middleware_def protected_handler_def stream_handler_keeps
      issue_ticket_keeps mocks_handler_keeps toggle_handler_keeps replay_handler_keeps)

lemma app_step_keeps: "app_keeps a (app_step a op)"
proof (cases op)
  case (ProbeTarget stext now latency result key)
  have "health_inv h \<Longrightarrow> health_inv (fst (health_step stext h (Probe now latency result key)))" for h
    by (rule health_inv_step)
  then show ?thesis
    by (auto simp: ProbeTarget app_keeps_def app_fixed_def app_ok_def engine_ok_def option.pred_map comp_def
        health_urls_def option.map_comp monitored_results elim: option.pred_mono_strong)
next
  case HandleEvent
  then show ?thesis by (auto simp: app_keeps_def app_fixed_def app_ok_def queue_ok_take)
qed (simp_all add: serve_dashboard_keeps gateway_request_keeps)

lemma app_run_keeps: "app_keeps a (foldl app_step a ops)"
  by (induction ops arbitrary: a) (auto intro: app_keeps_trans [OF app_step_keeps])

lemma app_ok_new: "app_ok (new_app parse ids sq cfg)"
proof -
  have "eg_sent (mount_configured parse e rc) = eg_sent e" "eg_sent (mount_mock e entry) = eg_sent e" for e rc entry
    by (simp_all add: mount_configured_def mount_mock_def split: sum.split prod.split)
  then have "eg_sent (ap_engine (new_app parse ids sq cfg)) = []"
    unfolding new_app_engine
    by (simp add: foldl_keeps [where f = eg_sent] base_engine_def configure_health_def configure_egress_def
        new_engine_def Let_def)
  then show ?thesis
    using engine_ok_new [of parse ids sq cfg]
    by (simp add: app_ok_def) (simp add: new_app_def Let_def queue_ok_new, simp add: new_event_queue_def)
qed

section \<open>Tickets over time\<close>

definition issue_time :: "string \<Rightarrow> app \<Rightarrow> app_op \<Rightarrow> int option" where
  "issue_time t a op =
     (case op of
        DashboardRequest env rq \<Rightarrow>
          (if snd (serve_dashboard env rq a) = Answered (TicketBody t) then Some (de_now env) else None)
      | _ \<Rightarrow> None)"

definition opens_stream :: "string \<Rightarrow> app \<Rightarrow> app_op \<Rightarrow> bool" where
  "opens_stream t a op \<longleftrightarrow>
     (case op of
        DashboardRequest env rq \<Rightarrow>
          rq_path rq = ''/ws'' \<and> auth_token a \<noteq> [] \<and> \<not> bearer_ok a rq
          \<and> query_get (rq_raw_query rq) ''ticket'' = t \<and> fst (redeem_ticket (de_now env) t (ap_tickets a))
      | _ \<Rightarrow> False)"

abbreviation issue_times :: "string \<Rightarrow> app \<Rightarrow> app_op list \<Rightarrow> int list" where
  "issue_times t \<equiv> times_issued app_step (issue_time t)"

abbreviation opened_streams :: "string \<Rightarrow> app \<Rightarrow> app_op list \<Rightarrow> nat" where
  "opened_streams t \<equiv> times_used app_step (opens_stream t)"

text \<open>The clock an operation of the dashboard reads.\<close>

definition op_clock :: "app_op \<Rightarrow> int" where
  "op_clock op = (case op of DashboardRequest env rq \<Rightarrow> de_now env | _ \<Rightarrow> 0)"

lemma map_of_purge:
  assumes "map_ok ts" "map_of (purge_tickets now ts) t = Some e"
  shows "map_of ts t = Some e"
proof -
  have "(t, e) \<in> set ts" using map_of_SomeD [OF assms(2)] by (simp add: purge_tickets_def)
  with assms(1) show ?thesis by simp
qed

lemma gateway_tickets: "gateway_request env r cl a = (a', x) \<Longrightarrow> ap_tickets a' = ap_tickets a"
  by (auto simp: gateway_request_def publish_events_def Let_def)

lemma replay_tickets [simp]: "ap_tickets (fst (replay_handler env rq a)) = ap_tickets a"
  by (auto simp: replay_handler_def Let_def split: prod.split option.split sum.split dest!: gateway_tickets)

lemma replay_reply: "snd (replay_handler env rq a) \<noteq> Answered (TicketBody t)"
  by (auto simp: replay_handler_def Let_def split: prod.splits option.splits sum.splits if_splits)

text \<open>Only two requests touch the tickets.\<close>

lemma dashboard_tickets:
  assumes "rq_path rq \<noteq> ''/ws''" "rq_path rq \<noteq> ''/api/auth/ticket'' \<or> \<not> token_accepted a rq"
  shows "ap_tickets (fst (serve_dashboard env rq a)) = ap_tickets a
    \<and> snd (serve_dashboard env rq a) \<noteq> Answered (TicketBody t)"
  using assms
  by (auto simp: serve_dashboard_def auth_middleware_def token_accepted_def protected_handler_def replay_reply
      mocks_handler_def toggle_handler_def set_mocks_def stats_body_def health_body_def waterfall_body_def
      Let_def split: prod.split option.split)

lemma dashboard_issue:
  assumes "rq_path rq = ''/api/auth/ticket''" "token_accepted a rq"
  shows "serve_dashboard env rq a = issue_ticket env a"
  using assms by (auto simp: serve_dashboard_def auth_middleware_def token_accepted_def protected_handler_def
      protected_patterns_def)

lemma dashboard_stream: "rq_path rq = ''/ws'' \<Longrightarrow> serve_dashboard env rq a = stream_handler env rq a"
  by (simp add: serve_dashboard_def)

lemma stream_tickets:
  "ap_tickets (fst (stream_handler env rq a))
     = (if auth_token a = [] \<or> bearer_ok a rq then ap_tickets a
        else snd (redeem_ticket (de_now env) (query_get (rq_raw_query rq) ''ticket'') (ap_tickets a)))"
  "snd (stream_handler env rq a) \<noteq> Answered (TicketBody t)"
  by (auto simp: stream_handler_def authorize_stream_def Let_def split: prod.split)

lemma redeem_tickets:
  "map_of (snd (redeem_ticket now t ts)) t' = (if fst (redeem_ticket now t ts) \<and> t' = t then None else map_of ts t')"
  "fst (redeem_ticket now t ts) \<Longrightarrow> \<exists>e. map_of ts t = Some e \<and> now < e"
  by (auto simp: redeem_ticket_def split: option.splits if_splits)

lemma ticket_step:
  assumes "app_ok a"
  shows "case issue_time t a op of
      Some n \<Rightarrow> map_of (ap_tickets (app_step a op)) t = Some (n + 60 * go_second) \<and> \<not> opens_stream t a op
    | None \<Rightarrow> map_of (ap_tickets (app_step a op)) t \<in> {None, map_of (ap_tickets a) t}
        \<and> (opens_stream t a op \<longrightarrow> map_of (ap_tickets a) t \<noteq> None \<and> map_of (ap_tickets (app_step a op)) t = None)"
proof (cases op)
  case (DashboardRequest env rq)
  note op = this
  show ?thesis
  proof (cases "rq_path rq = ''/ws''")
    case True
    with op show ?thesis
      using redeem_tickets [of "de_now env" "query_get (rq_raw_query rq) ''ticket''" "ap_tickets a"]
      by (auto simp: issue_time_def opens_stream_def dashboard_stream stream_tickets)
  next
    case no_ws: False
    show ?thesis
    proof (cases "rq_path rq = ''/api/auth/ticket'' \<and> token_accepted a rq")
      case True
      have "map_ok (ap_tickets a)" using assms by (simp add: app_ok_def)
      from map_of_purge [OF this, of "de_now env" t] have
        "map_of (purge_tickets (de_now env) (ap_tickets a)) t \<in> {None, map_of (ap_tickets a) t}"
        by (cases "map_of (purge_tickets (de_now env) (ap_tickets a)) t") auto
      with True no_ws op show ?thesis
        by (auto simp: issue_time_def opens_stream_def dashboard_issue issue_ticket_def Let_def)
    next
      case False
      with no_ws op dashboard_tickets [of rq a env t] show ?thesis
        by (auto simp: issue_time_def opens_stream_def)
    qed
  qed
next
  case (GatewayRequest env rq cl)
  then show ?thesis
    using gateway_tickets [of env rq cl a] by (cases "gateway_request env rq cl a") (auto simp: issue_time_def opens_stream_def)
qed (auto simp: issue_time_def opens_stream_def)

lemma opens_stream_held:
  "opens_stream t a op \<Longrightarrow> \<exists>e. map_of (ap_tickets a) t = Some e \<and> op_clock op < e"
  using redeem_tickets(2) by (auto simp: opens_stream_def op_clock_def split: app_op.splits)

interpretation app_tickets:
  single_use_tickets app_step issue_time opens_stream "\<lambda>a. map_of (ap_tickets a)" op_clock "60 * go_second" app_ok
proof
  fix a op t n
  assume ok: "app_ok a"
  show "app_ok (app_step a op)" using app_step_keeps [of a op] ok by (simp add: app_keeps_def)
  note step = ticket_step [OF ok, where t = t and op = op]
  show "map_of (ap_tickets (app_step a op)) t = Some (n + 60 * go_second) \<and> \<not> opens_stream t a op"
    if "issue_time t a op = Some n" using step that by simp
  show "map_of (ap_tickets (app_step a op)) t \<in> {None, map_of (ap_tickets a) t}"
    if "issue_time t a op = None" using step that by simp
  show "(\<exists>e. map_of (ap_tickets a) t = Some e \<and> op_clock op < e) \<and> map_of (ap_tickets (app_step a op)) t = None"
    if "opens_stream t a op" using step that opens_stream_held [OF that] by (auto split: option.splits)
qed

lemma get_rule_exact:
  assumes "map_ok m" "map_of m (clean_prefix path) = Some r" "mr_enabled r"
  shows "get_rule path m = Some r"
proof -
  have r: "(clean_prefix path, r) \<in> set m" "applicable (clean_prefix path) (clean_prefix path, r)"
    using assms by (auto simp: applicable_def dest: map_of_SomeD)
  from get_rule_cases [of path m] r obtain e where
    e: "e \<in> set m" "applicable (clean_prefix path) e" "get_rule path m = Some (snd e)"
      "\<forall>e' \<in> set m. applicable (clean_prefix path) e' \<longrightarrow> length (fst e') \<le> length (fst e)" by blast
  have pre: "has_prefix (clean_prefix path) (fst e)" by (rule applicable_prefix [OF e(2)])
  have "length (clean_prefix path) \<le> length (fst e)" using e(4) r by force
  with pre have "fst e = clean_prefix path" by (auto simp: has_prefix_iff)
  with e(1) have "map_of m (clean_prefix path) = Some (snd e)"
    using map_ok_in_set [OF assms(1), of "fst e" "snd e"] by (metis prod.collapse)
  with assms(2) e(3) show ?thesis by simp
qed

lemma dashboard_mocks:
  assumes "rq_path rq = ''/api/mocks''" "token_accepted a rq"
  shows "serve_dashboard env rq a = mocks_handler env rq a"
  using assms by (auto simp: serve_dashboard_def auth_middleware_def token_accepted_def protected_handler_def
      protected_patterns_def)

section \<open>Properties\<close>

text \<open>
  C7: with a dashboard token configured, a request that shows neither the token nor an unexpired ticket
  is answered 401 on every endpoint, learns nothing and changes nothing; only the static page is served.
\<close>

theorem unauthenticated_requests_inert:
  assumes "auth_token a \<noteq> []" "\<not> token_accepted a rq"
    and "\<not> fst (redeem_ticket (de_now env) (query_get (rq_raw_query rq) ''ticket'') (ap_tickets a))"
  shows "serve_dashboard env rq a
    = (a, if rq_path rq = ''/ws'' then Refused ''Unauthorized'' 401
          else if rq_path rq \<in> set protected_patterns then Refused ''Unauthorized: invalid dashboard token'' 401
          else Page)"
proof -
  have "snd (redeem_ticket (de_now env) (query_get (rq_raw_query rq) ''ticket'') (ap_tickets a)) = ap_tickets a"
    using assms(3) by (auto simp: redeem_ticket_def split: option.splits if_splits)
  with assms show ?thesis
    by (auto simp: serve_dashboard_def stream_handler_def authorize_stream_def auth_middleware_def
        token_accepted_def Let_def split: prod.splits)
qed

text \<open>
  whatever dashboard requests, gateway requests, worker steps and probes follow, the app's parts
  keep their invariants, every event the engine emitted is counted once by the telemetry queue, at most
  1000 tickets are held, and neither the routes nor the monitored targets nor the egress policies nor
  the redaction setting change.
\<close>

theorem running_app_invariant:
  fixes parse :: "string \<Rightarrow> string + gurl" and ids :: id_counters and sq :: u64 and cfg :: config
  defines "a \<equiv> new_app parse ids sq cfg"
  shows "app_ok (foldl app_step a ops) \<and> app_fixed (foldl app_step a ops) = app_fixed a
    \<and> eq_total (ap_queue (foldl app_step a ops)) = of_nat (length (eg_sent (ap_engine (foldl app_step a ops))))
    \<and> length (ap_tickets (foldl app_step a ops)) \<le> 1000"
  using app_run_keeps [of a ops] app_ok_new [of parse ids sq cfg]
  by (simp add: app_keeps_def a_def app_ok_def max_tickets_def)

text \<open>
  C12: a ticket opens at most one stream: when a request opens one with ticket \<open>t\<close>, \<open>t\<close> has been issued
  more often than it has opened streams before, less than 60 seconds ago, and is gone afterwards.
\<close>

theorem tickets_single_use:
  assumes "opens_stream t (foldl app_step (new_app parse ids sq cfg) ops) (DashboardRequest env rq)"
  shows "opened_streams t (new_app parse ids sq cfg) ops < length (issue_times t (new_app parse ids sq cfg) ops)
    \<and> (\<exists>n \<in> set (issue_times t (new_app parse ids sq cfg) ops). de_now env < n + 60 * go_second)
    \<and> map_of (ap_tickets (app_step (foldl app_step (new_app parse ids sq cfg) ops) (DashboardRequest env rq))) t = None"
proof -
  have "app_ok (foldl app_step (new_app parse ids sq cfg) ops)"
    using app_run_keeps [of "new_app parse ids sq cfg" ops] app_ok_new by (simp add: app_keeps_def)
  moreover have "map_of (ap_tickets (new_app parse ids sq cfg)) t = None" by (simp add: new_app_def Let_def)
  ultimately show ?thesis
    using app_tickets.single_use [OF app_ok_new _ _ assms] by (simp add: op_clock_def)
qed

text \<open>
  a rule accepted by \<open>/api/mocks\<close> takes effect: the gateway answers the next request for its path
  with the stored rule, filled in with the defaults, and sends nothing upstream.
\<close>

theorem posted_rule_answers:
  assumes "app_ok a" "token_accepted a rq" "rq_path rq = ''/api/mocks''" "rq_method rq = ''POST''"
    and "de_rule env = Some rule" "mr_enabled rule" "mr_mode rule = [] \<or> mr_mode rule = mode_always"
    and "rq_method rq' \<noteq> ''CONNECT''" "\<not> is_forward_request rq'"
    and "clean_prefix (rq_path rq') = clean_prefix (mr_prefix rule)"
  defines "e \<equiv> ap_engine (fst (serve_dashboard env rq a))"
  shows "serve_http w rq' e cl
      = serve_mock w ''X-DevHub-Mock-Response'' (''[Mock Mode] '' @ clean_prefix (mr_prefix rule))
          ((normalise_rule rule)\<lparr>mr_prefix := clean_prefix (mr_prefix rule)\<rparr>) rq' e cl
    \<and> sr_out (serve_http w rq' e cl) = []"
proof -
  let ?m = "set_rule rule (app_mocks a)"
  let ?r = "(normalise_rule rule)\<lparr>mr_prefix := clean_prefix (mr_prefix rule)\<rparr>"
  have inv: "mock_inv ?m" by (intro mock_inv_set app_mocks_inv assms(1))
  have mocks: "eg_mocks e = Some ?m"
    unfolding e_def dashboard_mocks [OF assms(3,2)]
    using assms(4,5) by (simp add: mocks_handler_def list_rules_pure [OF inv] set_mocks_def)
  have r: "mr_enabled ?r" "mr_mode ?r = mode_always"
    using assms(6,7) by (auto simp: normalise_rule_def Let_def mode_always_def)
  have "get_rule (rq_path rq') ?m = Some ?r"
    using inv r(1) by (intro get_rule_exact) (simp_all add: mock_inv_def assms(10) set_rule_def Let_def)
  with mocks r have "always_mock_for (rq_path rq') e = Some ?r"
    by (simp add: always_mock_for_def mock_for_def)
  then show ?thesis using assms(8,9) by (simp add: serve_http_def)
qed

text \<open>
  C32: a refused request changes nothing, except that the refusal for a full ticket table drops the
  tickets that have expired and keeps every other one. Each refusal has its one cause: 401 missing
  credentials, 405 a method other than POST, 400 an undecodable replay, 500 a replay of which
  \<open>http.NewRequest\<close> makes no request, 503 a full ticket table.
\<close>

theorem refusals_change_nothing:
  assumes "serve_dashboard env rq a = (a', Refused msg code)"
  shows "a' = (if code = 503
        then a\<lparr>ap_tickets := filter (\<lambda>(t, expiry). de_now env \<le> expiry) (ap_tickets a)\<rparr> else a)
    \<and> (code = 401 \<and> auth_token a \<noteq> [] \<and> \<not> token_accepted a rq
       \<or> code = 405 \<and> rq_method rq \<noteq> ''POST'' \<and> rq_path rq \<in> {''/api/mocks/toggle'', ''/api/replay''}
       \<or> code = 400 \<and> rq_path rq = ''/api/replay'' \<and> de_replay env = None
       \<or> code = 500 \<and> rq_path rq = ''/api/replay''
         \<and> (\<exists>p err. de_replay env = Some p \<and> msg = ''failed to create replay request: '' @ err
              \<and> rv_new_request (de_replay_env env) (rp_method (normalise_replay p)) (rp_url (normalise_replay p)) = Some err)
       \<or> code = 503 \<and> rq_path rq = ''/api/auth/ticket'' \<and> 1000 \<le> length (ap_tickets a'))"
proof -
  have fail: "execute e p n = (Inl err, built, c) \<Longrightarrow>
      \<exists>why. err = ''failed to create replay request: '' @ why \<and> built = None \<and> c = n
        \<and> rv_new_request e (rp_method (normalise_replay p)) (rp_url (normalise_replay p)) = Some why"
    for e p n err built c
    by (auto simp: execute_def Let_def split: option.splits prod.splits)
  have ok: "execute e p n = (Inr resp, built, c) \<Longrightarrow> built \<noteq> None \<and>
      rv_new_request e (rp_method (normalise_replay p)) (rp_url (normalise_replay p)) = None" for e p n resp built c
    by (auto simp: execute_def Let_def split: option.splits prod.splits)
  have replay: "replay_handler env rq a = (a', Refused msg code) \<Longrightarrow>
      a' = a \<and> (code = 405 \<and> rq_method rq \<noteq> ''POST'' \<or> code = 400 \<and> de_replay env = None
        \<or> code = 500 \<and> (\<exists>p err. de_replay env = Some p \<and> msg = ''failed to create replay request: '' @ err
            \<and> rv_new_request (de_replay_env env) (rp_method (normalise_replay p)) (rp_url (normalise_replay p)) = Some err))"
  proof (cases "rq_method rq = ''POST'' \<and> de_replay env \<noteq> None")
    case True
    then obtain p where p: "rq_method rq = ''POST''" "de_replay env = Some p" by auto
    let ?n = "eg_seq (ap_engine a)"
    obtain res built c where ex: "execute (de_replay_env env) p ?n = (res, built, c)" by (metis prod_cases3)
    assume h: "replay_handler env rq a = (a', Refused msg code)"
    show ?thesis
    proof (cases res)
      case (Inl err)
      with fail [of "de_replay_env env" p ?n err built c] ex obtain why
        where why: "err = ''failed to create replay request: '' @ why" "built = None" "c = ?n"
          "rv_new_request (de_replay_env env) (rp_method (normalise_replay p)) (rp_url (normalise_replay p)) = Some why"
        by auto
      have "replay_handler env rq a = (a, Refused err 500)"
        using ex p by (simp add: replay_handler_def Inl why(2,3))
      with h have "a' = a" "code = 500" "msg = err" by auto
      with why(1,4) p(2) show ?thesis by blast
    next
      case (Inr resp)
      with ok [of "de_replay_env env" p ?n resp built c] ex obtain rd where rd: "built = Some rd"
        and new: "rv_new_request (de_replay_env env) (rp_method (normalise_replay p)) (rp_url (normalise_replay p)) = None"
        by auto
      have no_error: "execute ((de_replay_env env)\<lparr>rv_serve := f\<rparr>) p ?n \<noteq> (Inl m, x)" for f m x
        by (simp add: execute_def new Let_def split: prod.split)
      from p ex rd h show ?thesis
        by (auto simp: replay_handler_def Let_def no_error split: prod.splits if_splits sum.splits)
    qed
  qed (auto simp: replay_handler_def split: if_splits)
  consider "rq_path rq = ''/ws''" | "rq_path rq = ''/api/auth/ticket''" "token_accepted a rq"
    | "rq_path rq \<noteq> ''/ws''" "rq_path rq \<noteq> ''/api/auth/ticket'' \<or> \<not> token_accepted a rq" by blast
  then show ?thesis
  proof cases
    case 1
    with assms show ?thesis
      by (auto simp: dashboard_stream stream_handler_def authorize_stream_def redeem_ticket_def token_accepted_def
          Let_def split: if_splits option.splits)
  next
    case 2
    with assms show ?thesis
      by (auto simp: dashboard_issue issue_ticket_def Let_def purge_tickets_def max_tickets_def linorder_not_less
          split: if_splits)
  next
    case 3
    with assms show ?thesis
      by (auto simp: serve_dashboard_def auth_middleware_def token_accepted_def protected_handler_def
          mocks_handler_def toggle_handler_def Let_def dest!: replay split: if_splits option.splits prod.splits)
  qed
qed

text \<open>
  without a token the event stream is open to every site whose name the attacker resolves to this
  machine: the origin check accepts an origin that equals the request's own \<open>Host\<close>, whatever it is.
\<close>

theorem rebound_origin_gets_history:
  assumes "auth_token a = []" "rq_path rq = ''/ws''" "de_upgrade env" "\<not> hub_closed (ap_hub a)"
    and "de_parse env (hdr_get (rq_header rq) ''Origin'') = Inr u" "u_scheme u \<in> {''http'', ''https''}"
    and "u_host u = rq_host rq"
  shows "serve_dashboard env rq a = (a, Streaming (rev (app_events a)))"
  using assms by (auto simp: dashboard_stream stream_handler_def authorize_stream_def check_origin_def Let_def)

section \<open>Witnesses\<close>

definition sample_app :: "string \<Rightarrow> app" where
  "sample_app token = new_app (cv_parse sample_config_env) \<lparr>trace_seq = 0, span_seq = 0\<rparr> 0
     ((default_config False)\<lparr>cf_server := (cf_server (default_config False))\<lparr>sc_auth_token := token\<rparr>\<rparr>)"

definition sample_dash :: dash_env where
  "sample_dash = \<lparr>de_now = 5, de_random = [1], de_parse = cv_parse sample_config_env, de_fold = id, de_upgrade = True,
     de_rule = Some (sample_mock ''/shop'' 201), de_toggle = None, de_replay = None,
     de_replay_env = sample_replay_env id, de_request = (\<lambda>_. sample_request ''/''), de_world = sample_world,
     de_freed = False, de_outer = [], de_inner = (\<lambda>_. [])\<rparr>"

definition dash_request :: "string \<Rightarrow> string \<Rightarrow> header \<Rightarrow> request" where
  "dash_request path query h = (sample_request path)\<lparr>rq_raw_query := query, rq_header := h\<rparr>"

lemma dash_request_fields [simp]:
  "rq_path (dash_request p q h) = p" "rq_raw_query (dash_request p q h) = q" "rq_header (dash_request p q h) = h"
  "rq_method (dash_request p q h) = ''GET''" "rq_host (dash_request p q h) = ''localhost:4000''"
  by (simp_all add: dash_request_def sample_request_def)

lemma sample_app_fields [simp]:
  "auth_token (sample_app t) = t" "ap_tickets (sample_app t) = []" "ap_hub (sample_app t) = new_hub"
  by (simp_all add: sample_app_def new_app_def Let_def)

lemma query_get_empty [simp]: "query_get [] k = []"
  by (simp add: query_get_def query_pair_def List.map_filter_def)

lemma hdr_get_empty [simp]: "hdr_get [] k = []"
  by (simp add: hdr_get_def)

lemma sample_app_ok: "app_ok (sample_app t)"
  unfolding sample_app_def by (rule app_ok_new)

theorem unauthenticated_requests_inert_witness:
  "serve_dashboard sample_dash (dash_request ''/api/mocks'' [] []) (sample_app ''k'')
     = (sample_app ''k'', Refused ''Unauthorized: invalid dashboard token'' 401)"
proof -
  have "\<not> token_accepted (sample_app ''k'') (dash_request ''/api/mocks'' [] [])" by (simp add: token_accepted_def)
  from unauthenticated_requests_inert [OF _ this, of sample_dash] show ?thesis
    by (simp add: redeem_ticket_def protected_patterns_def)
qed

theorem posted_rule_answers_witness:
  "sr_out (serve_http sample_world (sample_request ''/shop/'')
     (ap_engine (fst (serve_dashboard sample_dash ((dash_request ''/api/mocks'' [] [])\<lparr>rq_method := ''POST''\<rparr>)
        (sample_app [])))) sample_client) = []"
proof -
  let ?rq = "(dash_request ''/api/mocks'' [] [])\<lparr>rq_method := ''POST''\<rparr>"
  have "de_rule sample_dash = Some (sample_mock ''/shop'' 201)" "mr_enabled (sample_mock ''/shop'' 201)"
    "mr_mode (sample_mock ''/shop'' 201) = [] \<or> mr_mode (sample_mock ''/shop'' 201) = mode_always"
    "rq_method (sample_request ''/shop/'') \<noteq> ''CONNECT''" "\<not> is_forward_request (sample_request ''/shop/'')"
    "clean_prefix (rq_path (sample_request ''/shop/'')) = clean_prefix (mr_prefix (sample_mock ''/shop'' 201))"
    by (simp_all add: sample_dash_def sample_mock_def clean_prefix_def trim_slashes_def trim_left_def trim_right_def)
  from posted_rule_answers [OF sample_app_ok _ _ _ this, of "[]" ?rq sample_world sample_client] show ?thesis
    by (simp add: token_accepted_def)
qed

theorem refusals_change_nothing_witness:
  "snd (serve_dashboard sample_dash (dash_request ''/api/mocks/toggle'' [] []) (sample_app [])) = Refused ''Method not allowed'' 405
   \<and> fst (serve_dashboard sample_dash (dash_request ''/api/mocks/toggle'' [] []) (sample_app [])) = sample_app []"
proof -
  have d: "serve_dashboard sample_dash (dash_request ''/api/mocks/toggle'' [] []) (sample_app [])
      = (sample_app [], Refused ''Method not allowed'' 405)"
    by (simp add: serve_dashboard_def auth_middleware_def protected_handler_def protected_patterns_def toggle_handler_def)
  from refusals_change_nothing [OF d] d show ?thesis by simp
qed

theorem rebound_origin_gets_history_witness:
  "snd (serve_dashboard sample_dash ((dash_request ''/ws'' [] [(''Origin'', [''http://evil.example:4040''])])
     \<lparr>rq_host := ''evil.example:4040''\<rparr>) (sample_app [])) = Streaming (rev (app_events (sample_app [])))"
proof -
  let ?rq = "(dash_request ''/ws'' [] [(''Origin'', [''http://evil.example:4040''])])\<lparr>rq_host := ''evil.example:4040''\<rparr>"
  let ?u = "\<lparr>u_scheme = ''http'', u_host = ''evil.example:4040'', u_string = ''http://evil.example:4040''\<rparr>"
  have key: "canonical_key ''Origin'' = ''Origin''" by code_simp
  have "de_parse sample_dash (hdr_get (rq_header ?rq) ''Origin'') = Inr ?u"
    by (simp add: sample_dash_def sample_config_env_def hdr_get_def key)
  from rebound_origin_gets_history [OF _ _ _ _ this, of "sample_app []"] show ?thesis
    by (simp add: sample_dash_def new_hub_def)
qed

definition sample_issue :: app_op where
  "sample_issue = DashboardRequest sample_dash
     (dash_request ''/api/auth/ticket'' [] [(''Authorization'', [''Bearer k''])])"

definition sample_open :: app_op where
  "sample_open = DashboardRequest sample_dash (dash_request ''/ws'' ''ticket=01'' [])"

theorem tickets_single_use_witness:
  "opens_stream ''01'' (foldl app_step (sample_app ''k'') [sample_issue]) sample_open
    \<and> \<not> opens_stream ''01'' (foldl app_step (sample_app ''k'') [sample_issue, sample_open]) sample_open"
proof -
  have key: "canonical_key ''Authorization'' = ''Authorization''" by code_simp
  have hex: "hex_encode [1] = ''01''" by code_simp
  have q: "query_get ''ticket=01'' ''ticket'' = ''01''" by code_simp
  have acc: "token_accepted (sample_app ''k'') (dash_request ''/api/auth/ticket'' [] [(''Authorization'', [''Bearer k''])])"
    by (simp add: token_accepted_def hdr_get_def key)
  have a1: "app_step (sample_app ''k'') sample_issue = (sample_app ''k'')\<lparr>ap_tickets := [(''01'', 5 + 60 * go_second)]\<rparr>"
    by (simp add: sample_issue_def dashboard_issue acc issue_ticket_def purge_tickets_def max_tickets_def sample_dash_def hex Let_def)
  have o1: "opens_stream ''01'' (foldl app_step (sample_app ''k'') [sample_issue]) sample_open"
    by (simp add: a1 opens_stream_def sample_open_def q redeem_ticket_def sample_dash_def go_second_def)
  have "map_of (ap_tickets (app_step (foldl app_step (sample_app ''k'') [sample_issue]) sample_open)) ''01'' = None"
    using tickets_single_use [of "''01''" _ _ _ _ "[sample_issue]"] o1 unfolding sample_open_def sample_app_def by blast
  then have "\<not> opens_stream ''01'' (foldl app_step (sample_app ''k'') [sample_issue, sample_open]) sample_open"
    by (simp add: opens_stream_def sample_open_def redeem_ticket_def)
  with o1 show ?thesis by blast
qed

end
