(* ===== verification/Docker_Client.thy ===== *)
theory Docker_Client
  imports Docker_Watcher Url_Query
begin

text \<open>
  The client of the Docker engine, src/pkg/docker/client.go: the transport address it dials on Unix and
  on Windows (dial_unix.go, dial_windows.go), the three API requests, and what their answers become.
  The daemon and the JSON decoder are the fields of \<open>docker_env\<close>.
\<close>

section \<open>Dialing\<close>

datatype dial_target = DialTcp string | DialUnix string | DialPipe string

definition unix_socket :: string where "unix_socket = ''/var/run/docker.sock''"

definition docker_pipe :: string where
  "docker_pipe = [backslash, backslash, CHR ''.'', backslash] @ ''pipe''
     @ [backslash] @ ''docker_engine''"

definition pipe_prefix :: string where
  "pipe_prefix = [backslash, backslash, CHR ''.'', backslash] @ ''pipe'' @ [backslash]"

definition tcp_addr :: "string \<Rightarrow> string option" where
  "tcp_addr path =
     (if has_prefix path ''tcp://'' \<or> has_prefix path ''http://''
      then Some (trim_prefix (trim_prefix path ''tcp://'') ''http://'') else None)"

definition dial_docker_unix :: "string \<Rightarrow> dial_target" where
  "dial_docker_unix path =
     (let path = (if path = [] then unix_socket else path);
          clean = trim_prefix path ''unix://''
      in case tcp_addr path of Some addr \<Rightarrow> DialTcp addr | None \<Rightarrow> DialUnix clean)"

definition dial_docker_windows :: "string \<Rightarrow> dial_target" where
  "dial_docker_windows path =
     (let clean = (if path = [] \<or> path = unix_socket then docker_pipe else path);
          clean = map (\<lambda>c. if c = CHR ''/'' then backslash else c) clean
      in if has_prefix clean pipe_prefix then DialPipe clean
         else (case tcp_addr path of Some addr \<Rightarrow> DialTcp addr | None \<Rightarrow> DialPipe docker_pipe))"

definition dial_docker :: "bool \<Rightarrow> string \<Rightarrow> dial_target" where
  "dial_docker windows path = (if windows then dial_docker_windows path else dial_docker_unix path)"

text \<open>\<open>NewClient\<close>: the socket path it keeps.\<close>

definition docker_socket :: "bool \<Rightarrow> string \<Rightarrow> string" where
  "docker_socket windows path = (if path = [] then (if windows then docker_pipe else unix_socket) else path)"

section \<open>Requests\<close>

record docker_env =
  dk_new_request :: "string \<Rightarrow> string option"
  dk_do :: "dial_target \<Rightarrow> string \<Rightarrow> string + int \<times> string"
  dk_containers :: "string \<Rightarrow> string + container_info list"

text \<open>The client: platform and socket path.\<close>

type_synonym docker_client = "bool \<times> string"

definition new_docker_client :: "bool \<Rightarrow> string \<Rightarrow> docker_client" where
  "new_docker_client windows path = (windows, docker_socket windows path)"

definition docker_get :: "docker_env \<Rightarrow> docker_client \<Rightarrow> string \<Rightarrow> string + int \<times> string" where
  "docker_get env c url = dk_do env (dial_docker (fst c) (snd c)) url"

definition list_containers :: "docker_env \<Rightarrow> docker_client \<Rightarrow> string + container_info list" where
  "list_containers env c =
     (case dk_new_request env ''http://docker/containers/json'' of
        Some err \<Rightarrow> Inl err
      | None \<Rightarrow>
          (case docker_get env c ''http://docker/containers/json'' of
             Inl err \<Rightarrow> Inl (''failed to contact Docker daemon at '' @ snd c @ '': '' @ err)
           | Inr (status, body) \<Rightarrow>
               if status \<noteq> 200 then Inl (''docker API returned status '' @ dec_of_int status @ '': '' @ body)
               else (case dk_containers env body of
                       Inl err \<Rightarrow> Inl (''failed to decode container list: '' @ err)
                     | Inr cs \<Rightarrow> Inr cs)))"

definition events_filter :: string where
  "events_filter = ''{'' @ [CHR 0x22] @ ''type'' @ [CHR 0x22] @ '':['' @ [CHR 0x22] @ ''container'' @ [CHR 0x22] @ '']}''"

definition events_params :: "(string \<times> string) list" where
  "events_params = [(''filters'', events_filter)]"

definition stream_answer :: "string \<Rightarrow> string \<Rightarrow> string + int \<times> string \<Rightarrow> string + string" where
  "stream_answer failed status_text answer =
     (case answer of
        Inl err \<Rightarrow> Inl (failed @ err)
      | Inr (status, body) \<Rightarrow> if status \<noteq> 200 then Inl (status_text @ dec_of_int status) else Inr body)"

definition stream_events :: "docker_env \<Rightarrow> docker_client \<Rightarrow> string + string" where
  "stream_events env c =
     (let url = ''http://docker/events?'' @ encode_values events_params
      in case dk_new_request env url of
           Some err \<Rightarrow> Inl err
         | None \<Rightarrow> stream_answer ''failed to stream Docker events: '' ''docker events API returned status ''
                     (docker_get env c url))"

definition logs_params :: "bool \<Rightarrow> int \<Rightarrow> (string \<times> string) list" where
  "logs_params follow tail_lines =
     [(''stdout'', ''1''), (''stderr'', ''1'')] @ (if follow then [(''follow'', ''1'')] else [])
     @ [(''tail'', if 0 < tail_lines then dec_of_int tail_lines else ''100'')]"

definition logs_url :: "string \<Rightarrow> bool \<Rightarrow> int \<Rightarrow> string" where
  "logs_url cid follow tail_lines =
     ''http://docker/containers/'' @ cid @ ''/logs?'' @ encode_values (logs_params follow tail_lines)"

definition stream_logs :: "docker_env \<Rightarrow> docker_client \<Rightarrow> string \<Rightarrow> bool \<Rightarrow> int \<Rightarrow> string + string" where
  "stream_logs env c cid follow tail_lines =
     (let url = logs_url cid follow tail_lines
      in case dk_new_request env url of
           Some err \<Rightarrow> Inl err
         | None \<Rightarrow> stream_answer (''failed to stream container logs for '' @ cid @ '': '')
                     ''docker logs API returned status '' (docker_get env c url))"

section \<open>Properties\<close>

text \<open>
  the queries of the Docker API requests decode to what was meant: container events only, both
  output streams, following when asked to, and the asked number of lines, or 100 unless positive.
\<close>

theorem docker_queries_decode:
  "query_get (encode_values events_params) ''filters'' = events_filter
   \<and> query_get (encode_values (logs_params follow tail_lines)) ''stdout'' = ''1''
   \<and> query_get (encode_values (logs_params follow tail_lines)) ''stderr'' = ''1''
   \<and> query_get (encode_values (logs_params follow tail_lines)) ''follow'' = (if follow then ''1'' else [])
   \<and> query_get (encode_values (logs_params follow tail_lines)) ''tail''
       = (if 0 < tail_lines then dec_of_int tail_lines else ''100'')"
proof -
  have ev: "query_get (encode_values events_params) k = (case map_of events_params k of Some v \<Rightarrow> v | None \<Rightarrow> [])" for k
    by (rule query_get_encode) (simp_all add: events_params_def)
  have lg: "query_get (encode_values (logs_params follow tail_lines)) k
      = (case map_of (logs_params follow tail_lines) k of Some v \<Rightarrow> v | None \<Rightarrow> [])" for k
    by (rule query_get_encode) (auto simp: logs_params_def)
  show ?thesis unfolding ev lg by (simp add: events_params_def logs_params_def)
qed

text \<open>
  An unreachable daemon, an error status or an undecodable answer is an error of \<open>ListContainers\<close>, and
  the watcher then keeps every route it has.
\<close>

theorem failed_listing_keeps_routes:
  assumes "list_containers env c = Inl err"
  shows "fst (sync_containers parse (list_containers env c) w) = w"
  using assms by (simp add: sync_containers_def)

text \<open>
  The address dialled: the platform's default for an empty path, TCP for \<open>tcp://\<close> and \<open>http://\<close>
  addresses with the scheme removed, the local socket otherwise.
\<close>

theorem dial_docker_address:
  "dial_docker False [] = DialUnix unix_socket \<and> dial_docker True [] = DialPipe docker_pipe
   \<and> dial_docker w (''tcp://'' @ addr) = DialTcp (trim_prefix addr ''http://'')
   \<and> dial_docker False (''unix://'' @ path) = DialUnix path"
proof -
  have "\<not> has_prefix (map (\<lambda>c. if c = CHR ''/'' then backslash else c) (''tcp://'' @ addr)) pipe_prefix"
    by (simp add: has_prefix_def pipe_prefix_def backslash_def)
  moreover have "tcp_addr (''tcp://'' @ addr) = Some (trim_prefix addr ''http://'')"
    by (simp add: tcp_addr_def trim_prefix_def has_prefix_def)
  moreover have "has_prefix (map (\<lambda>c. if c = CHR ''/'' then backslash else c) docker_pipe) pipe_prefix"
    "map (\<lambda>c. if c = CHR ''/'' then backslash else c) docker_pipe = docker_pipe"
    by (simp_all add: has_prefix_def pipe_prefix_def docker_pipe_def)
  ultimately show ?thesis
    by (simp add: dial_docker_def dial_docker_unix_def dial_docker_windows_def Let_def unix_socket_def)
       (simp add: tcp_addr_def trim_prefix_def has_prefix_def)
qed

end
