(* ===== verification/Discovery.thy ===== *)
theory Discovery
  imports Dashboard Docker_Watcher
begin

text \<open>
  Docker discovery inside the running program (src/internal/app/app.go, step 3 of \<open>Start\<close>): the watcher
  of src/pkg/docker works on the router of the engine, and its route callback registers health
  targets. A step of the program is one of the app's operations or one locked operation of the watcher,
  in any order; reconciliation is a sequence of such steps.
\<close>

section \<open>One router, two owners\<close>

record devhub =
  dv_app :: app
  dv_watcher :: "watcher option"

text \<open>The watcher's router is the engine's; between steps its own copy is not looked at.\<close>

definition shared :: "devhub \<Rightarrow> watcher \<Rightarrow> watcher" where
  "shared d w = w\<lparr>wa_router := eg_router (ap_engine (dv_app d))\<rparr>"

text \<open>The callback \<open>Start\<close> hands to \<open>NewWatcher\<close>; a tracked route always has a target.\<close>

definition on_route :: "string \<times> container_route \<Rightarrow> engine \<Rightarrow> engine" where
  "on_route note e =
     (let (action, cr) = note
      in if action = ''mount'' then e\<lparr>eg_health := map_option (register_target (Some (cr_target cr)) ''tcp'') (eg_health e)\<rparr>
         else e)"

definition run_watcher :: "(watcher \<Rightarrow> watcher) \<Rightarrow> devhub \<Rightarrow> devhub" where
  "run_watcher f d =
     (case dv_watcher d of
        None \<Rightarrow> d
      | Some w \<Rightarrow>
          (let w' = f (shared d w);
               e = (ap_engine (dv_app d))\<lparr>eg_router := wa_router w'\<rparr>;
               e = fold on_route (drop (length (wa_notes w)) (wa_notes w')) e
           in d\<lparr>dv_app := (dv_app d)\<lparr>ap_engine := e\<rparr>, dv_watcher := Some w'\<rparr>))"

text \<open>Step 3 of \<open>Start\<close> up to the initial sweep, whose error is dropped.\<close>

definition start_discovery :: "(string \<Rightarrow> gurl option) \<Rightarrow> listing \<Rightarrow> app \<Rightarrow> devhub" where
  "start_discovery parse sweep a =
     (let d = \<lparr>dv_app = a, dv_watcher = None\<rparr>; cfg = cf_docker (ap_config a)
      in if dc_enabled cfg
         then run_watcher (\<lambda>w. fst (sync_containers parse sweep w))
                (d\<lparr>dv_watcher := Some (set_auto_route_all (dc_auto_route_all cfg) (set_mode (dc_mode cfg)
                     (new_watcher True (eg_router (ap_engine a)))))\<rparr>)
         else d)"

text \<open>The frame a log entry becomes for the dashboard; Go prints the keys of a map in order.\<close>

definition log_frame :: "string \<Rightarrow> string \<times> string \<times> string \<Rightarrow> json" where
  "log_frame now entry =
     (let (container, stream, message) = entry
      in JObj [(''container'', JStr container), (''message'', JStr message), (''stream'', JStr stream),
           (''timestamp'', JStr now), (''type'', JStr ''log'')])"

datatype devhub_op =
  AppOp app_op
| Discover container_info
| Vanish string
| LogStreamEnds nat string
| StopDiscovery

fun devhub_step :: "(string \<Rightarrow> gurl option) \<Rightarrow> devhub \<Rightarrow> devhub_op \<Rightarrow> devhub" where
  "devhub_step parse d (AppOp op) = d\<lparr>dv_app := app_step (dv_app d) op\<rparr>"
| "devhub_step parse d (Discover c) = run_watcher (register_container parse c) d"
| "devhub_step parse d (Vanish cid) = run_watcher (unregister_container cid) d"
| "devhub_step parse d (LogStreamEnds n cid) = run_watcher (stream_ends n cid) d"
| "devhub_step parse d StopDiscovery = run_watcher stop_watcher d"

section \<open>Watcher operations on the shared router\<close>

text \<open>Operations that only append to the notes, so that the callback sees each note once.\<close>

definition appends_notes :: "(watcher \<Rightarrow> watcher) \<Rightarrow> bool" where
  "appends_notes f \<longleftrightarrow> (\<forall>w. prefix (wa_notes w) (wa_notes (f w)))"

lemma start_log_stream_notes [simp]: "wa_notes (start_log_stream k w) = wa_notes w"
  by (simp add: start_log_stream_def)

lemma appends_register: "appends_notes (register_container parse c)"
  by (auto simp: appends_notes_def register_container_def mount_route_def Let_def split: option.split)

lemma appends_unregister: "appends_notes (unregister_container k)"
  by (auto simp: appends_notes_def unregister_container_def Let_def split: option.split)

lemma appends_streams: "appends_notes (stream_ends n k)" "appends_notes stop_watcher"
  by (simp_all add: appends_notes_def stream_ends_def stop_watcher_def)

lemma appends_foldl:
  assumes "\<And>x. appends_notes (f x)"
  shows "appends_notes (\<lambda>w. foldl (\<lambda>w x. f x w) w xs)"
  unfolding appends_notes_def
proof
  fix w
  show "prefix (wa_notes w) (wa_notes (foldl (\<lambda>w x. f x w) w xs))"
  proof (induction xs arbitrary: w)
    case (Cons x xs)
    have "prefix (wa_notes w) (wa_notes (f x w))" using assms by (simp add: appends_notes_def)
    also have "prefix (wa_notes (f x w)) (wa_notes (foldl (\<lambda>w x. f x w) (f x w) xs))" by (rule Cons.IH)
    finally show ?case by simp
  qed simp
qed

text \<open>The engine after the callbacks: only health targets are added.\<close>

lemma on_route_fields [simp]:
  "eg_router (on_route n e) = eg_router e" "eg_ring (on_route n e) = eg_ring e" "eg_mocks (on_route n e) = eg_mocks e"
  "eg_policy (on_route n e) = eg_policy e" "eg_forward_policy (on_route n e) = eg_forward_policy e"
  "eg_redact (on_route n e) = eg_redact e" "eg_sent (on_route n e) = eg_sent e"
  by (simp_all add: on_route_def split: prod.split)

lemma fold_keeps: "(\<And>x e. f (g x e) = f e) \<Longrightarrow> f (fold g xs e) = f e"
  by (induction xs arbitrary: e) simp_all

lemmas on_routes_fields [simp] =
  fold_keeps [where g = on_route and f = eg_router, OF on_route_fields(1)]
  fold_keeps [where g = on_route and f = eg_ring, OF on_route_fields(2)]
  fold_keeps [where g = on_route and f = eg_mocks, OF on_route_fields(3)]
  fold_keeps [where g = on_route and f = eg_policy, OF on_route_fields(4)]
  fold_keeps [where g = on_route and f = eg_forward_policy, OF on_route_fields(5)]
  fold_keeps [where g = on_route and f = eg_redact, OF on_route_fields(6)]
  fold_keeps [where g = on_route and f = eg_sent, OF on_route_fields(7)]

lemma engine_ok_on_route: "engine_ok e \<Longrightarrow> engine_ok (on_route n e)"
  by (auto simp: engine_ok_def on_route_def option.pred_map comp_def health_inv_register split: prod.split
      elim: option.pred_mono_strong)

lemma engine_ok_on_routes: "engine_ok e \<Longrightarrow> engine_ok (fold on_route ns e)"
  by (induction ns arbitrary: e) (simp_all add: engine_ok_on_route)

text \<open>The health targets of an engine, by URL.\<close>

definition probed :: "engine \<Rightarrow> string \<Rightarrow> bool" where
  "probed e url \<longleftrightarrow> (\<exists>us. health_urls e = Some us \<and> url \<in> set us)"

lemma probed_health: "eg_health e = Some h \<Longrightarrow> probed e url \<longleftrightarrow> map_of (hm_targets h) url \<noteq> None"
  by (simp add: probed_def health_urls_def monitored_def map_of_eq_None_iff)

lemma probed_some: "probed e url \<Longrightarrow> \<exists>h. eg_health e = Some h"
  by (auto simp: probed_def health_urls_def)

lemma probed_on_route: "probed e url \<Longrightarrow> probed (on_route n e) url"
  using probed_some [of e url]
  by (auto simp: probed_health on_route_def register_target_def split: prod.split)

lemma probed_on_routes: "probed e url \<Longrightarrow> probed (fold on_route ns e) url"
  by (induction ns arbitrary: e) (simp_all add: probed_on_route)

lemma on_routes_health [simp]: "eg_health (fold on_route ns e) = None \<longleftrightarrow> eg_health e = None"
  by (induction ns arbitrary: e) (auto simp: on_route_def split: prod.splits)

section \<open>Steps of the whole program\<close>

lemma shared_frame [simp]:
  "wa_routes (shared d w) = wa_routes w" "wa_mode (shared d w) = wa_mode w" "wa_client (shared d w) = wa_client w"
  "wa_notes (shared d w) = wa_notes w" "wa_router (shared d w) = eg_router (ap_engine (dv_app d))"
  by (simp_all add: shared_def)

lemma run_watcher_None [simp]: "dv_watcher d = None \<Longrightarrow> run_watcher f d = d"
  by (simp add: run_watcher_def)

lemma run_watcher_Some:
  fixes f :: "watcher \<Rightarrow> watcher"
  assumes "dv_watcher d = Some w"
  defines "w' \<equiv> f (shared d w)"
  defines "d' \<equiv> run_watcher f d"
  shows "dv_watcher d' = Some w'" "eg_router (ap_engine (dv_app d')) = wa_router w'" "shared d' w' = w'"
    "ap_engine (dv_app d') = fold on_route (drop (length (wa_notes w)) (wa_notes w')) ((ap_engine (dv_app d))\<lparr>eg_router := wa_router w'\<rparr>)"
    "ap_config (dv_app d') = ap_config (dv_app d)" "ap_queue (dv_app d') = ap_queue (dv_app d)"
    "ap_tickets (dv_app d') = ap_tickets (dv_app d)" "ap_hub (dv_app d') = ap_hub (dv_app d)"
    "d'\<lparr>dv_app := (dv_app d')\<lparr>ap_engine := e\<rparr>, dv_watcher := x\<rparr> = d\<lparr>dv_app := (dv_app d)\<lparr>ap_engine := e\<rparr>, dv_watcher := x\<rparr>"
  using assms(1) by (simp_all add: d'_def w'_def run_watcher_def Let_def shared_def)

lemma run_watcher_comp:
  assumes "appends_notes f" "appends_notes g"
  shows "run_watcher g (run_watcher f d) = run_watcher (\<lambda>w. g (f w)) d"
proof (cases "dv_watcher d")
  case (Some w)
  let ?f = "f (shared d w)" and ?d = "run_watcher f d"
  note f = run_watcher_Some [where f = f, OF Some]
  obtain xs where xs: "wa_notes ?f = wa_notes w @ xs"
    using assms(1) unfolding appends_notes_def by (metis prefixE shared_frame(4))
  obtain ys where ys: "wa_notes (g ?f) = wa_notes ?f @ ys"
    using assms(2) unfolding appends_notes_def by (metis prefixE)
  have comm: "fold on_route ns (e\<lparr>eg_router := r\<rparr>) = (fold on_route ns e)\<lparr>eg_router := r\<rparr>" for ns r e
  proof (induction ns arbitrary: e)
    case (Cons n ns)
    have "on_route n (e\<lparr>eg_router := r\<rparr>) = (on_route n e)\<lparr>eg_router := r\<rparr>"
      by (simp add: on_route_def split: prod.split)
    with Cons show ?case by simp
  qed simp
  show ?thesis
    unfolding run_watcher_def [of g ?d] f(1,3) option.case run_watcher_def [of "\<lambda>w. g (f w)"] Some
    using f(4,9) xs ys by (simp add: Let_def comm)
qed simp

text \<open>Between steps the watcher's view of the router is up to date.\<close>

definition synced :: "devhub \<Rightarrow> bool" where
  "synced d \<longleftrightarrow> (\<forall>w. dv_watcher d = Some w \<longrightarrow> shared d w = w)"

lemma synced_run: "synced d \<Longrightarrow> synced (run_watcher f d)"
  using run_watcher_Some(1,3) [where d = d and f = f] by (cases "dv_watcher d") (simp_all add: synced_def)

lemma run_watcher_id:
  assumes "synced d" "\<And>w. dv_watcher d = Some w \<Longrightarrow> f w = w"
  shows "run_watcher f d = d"
proof (cases "dv_watcher d")
  case (Some w)
  then have w: "shared d w = w" "f w = w" using assms by (simp_all add: synced_def)
  then have "wa_router w = eg_router (ap_engine (dv_app d))" by (metis shared_frame(5))
  with Some w show ?thesis by (simp add: run_watcher_def)
qed simp

text \<open>Reconciliation is a sequence of registrations and removals.\<close>

lemma run_all:
  assumes "synced d" "\<And>x. appends_notes (f x)"
  shows "run_watcher (\<lambda>w. foldl (\<lambda>w x. f x w) w xs) d = foldl (\<lambda>d x. run_watcher (f x) d) d xs"
  using assms(1)
proof (induction xs arbitrary: d)
  case Nil
  then show ?case by (simp add: run_watcher_id)
next
  case (Cons x xs)
  have "run_watcher (\<lambda>w. foldl (\<lambda>w x. f x w) w xs) (run_watcher (f x) d)
      = run_watcher (\<lambda>w. foldl (\<lambda>w x. f x w) (f x w) xs) d"
    by (rule run_watcher_comp [OF assms(2) appends_foldl [OF assms(2)]])
  then show ?case
    by (simp add: Cons.IH [OF synced_run [OF Cons.prems]])
qed

lemma run_sync:
  assumes "synced d"
  shows "\<exists>ops. run_watcher (\<lambda>w. fst (sync_containers parse l w)) d = foldl (devhub_step parse) d ops
    \<and> set ops \<subseteq> (case l of Inl _ \<Rightarrow> {} | Inr cs \<Rightarrow> Discover ` set cs) \<union> range Vanish"
proof (cases "\<exists>w. dv_watcher d = Some w \<and> wa_client w \<and> isl l = False")
  case False
  then have "run_watcher (\<lambda>w. fst (sync_containers parse l w)) d = d"
    by (intro run_watcher_id [OF assms]) (cases l; auto simp: sync_containers_def)
  then show ?thesis by (intro exI [of _ "[]"]) simp
next
  case True
  then obtain w cs where w: "dv_watcher d = Some w" "wa_client w" and l: "l = Inr cs" by (cases l) auto
  let ?reg = "foldl (\<lambda>w c. register_container parse c w) w cs"
  let ?dead = "filter (\<lambda>k. k \<notin> ci_id ` set cs) (map fst (wa_routes ?reg))"
  let ?d = "run_watcher (\<lambda>w. foldl (\<lambda>w c. register_container parse c w) w cs) d"
  have sw: "shared d w = w" using assms w by (simp add: synced_def)
  have "run_watcher (\<lambda>w. fst (sync_containers parse l w)) d
      = run_watcher (\<lambda>w. foldl (\<lambda>w k. unregister_container k w) (foldl (\<lambda>w c. register_container parse c w) w cs) ?dead) d"
    by (simp add: run_watcher_def w l sw sync_containers_def Let_def)
  also have "\<dots> = run_watcher (\<lambda>w. foldl (\<lambda>w k. unregister_container k w) w ?dead) ?d"
    by (rule run_watcher_comp [symmetric, OF appends_foldl [OF appends_register] appends_foldl [OF appends_unregister]])
  also have "\<dots> = foldl (\<lambda>d k. run_watcher (unregister_container k) d) ?d ?dead"
    by (rule run_all [OF synced_run [OF assms] appends_unregister])
  also have "?d = foldl (\<lambda>d c. run_watcher (register_container parse c) d) d cs"
    by (rule run_all [OF assms appends_register])
  also have "foldl (\<lambda>d k. run_watcher (unregister_container k) d) \<dots> ?dead
      = foldl (devhub_step parse) d (map Discover cs @ map Vanish ?dead)"
    by (simp add: foldl_map)
  finally show ?thesis
    by (intro exI [of _ "map Discover cs @ map Vanish ?dead"] conjI) (auto simp: l)
qed

lemma noted_probed:
  assumes "(''mount'', cr) \<in> set ns" "eg_health e \<noteq> None"
  shows "probed (fold on_route ns e) (u_string (cr_target cr))"
proof -
  from assms(1) obtain as bs where ns: "ns = as @ (''mount'', cr) # bs" by (meson split_list)
  let ?e = "fold on_route as e"
  from assms(2) obtain h where h: "eg_health ?e = Some h"
    by (metis not_None_eq on_routes_health)
  then have "probed (on_route (''mount'', cr) ?e) (u_string (cr_target cr))"
    by (simp add: on_route_def probed_health register_target_def)
  then show ?thesis by (simp add: ns probed_on_routes)
qed

section \<open>Invariant\<close>

text \<open>
  A watcher operation is sound when it keeps the watcher's own invariant and tells the callback about
  every route it tracks anew.
\<close>

abbreviation tracked :: "watcher \<Rightarrow> string \<Rightarrow> container_route \<Rightarrow> bool" where
  "tracked w k cr \<equiv> map_of (wa_routes w) k = Some cr"

definition sound_op :: "(watcher \<Rightarrow> watcher) \<Rightarrow> bool" where
  "sound_op f \<longleftrightarrow> appends_notes f \<and> (\<forall>w. watch_base w \<longrightarrow> watch_base (f w))
     \<and> (\<forall>w k cr. tracked (f w) k cr \<longrightarrow> tracked w k cr
          \<or> (''mount'', cr) \<in> set (drop (length (wa_notes w)) (wa_notes (f w))))"

lemma mount_route_notes: "\<not> unchanged_route cr w \<Longrightarrow> wa_notes (mount_route cr w) = wa_notes w @ [(''mount'', cr)]"
  by (auto simp: mount_route_def unchanged_route_def Let_def split: option.split)

lemma mount_tracks:
  assumes "tracked (mount_route cr w) k x" "\<not> tracked w k x"
  shows "(''mount'', x) \<in> set (drop (length (wa_notes w)) (wa_notes (mount_route cr w)))"
proof (cases "unchanged_route cr w")
  case False
  with assms show ?thesis by (auto simp: mount_route_changed(1) mount_route_notes split: if_splits)
qed (use assms in \<open>simp add: mount_route_unchanged\<close>)

lemma sound_register: "sound_op (register_container parse c)"
  unfolding sound_op_def
proof (intro conjI allI impI)
  show "appends_notes (register_container parse c)" by (rule appends_register)
  show "watch_base (register_container parse c w)" if "watch_base w" for w
    using that by (simp add: register_container_def watch_base_mount split: option.split)
  show "tracked w k cr \<or> (''mount'', cr) \<in> set (drop (length (wa_notes w)) (wa_notes (register_container parse c w)))"
    if "tracked (register_container parse c w) k cr" for w k cr
    using that mount_tracks by (auto simp: register_container_def split: if_splits option.splits)
qed

lemma sound_unregister: "sound_op (unregister_container k)"
  by (auto simp: sound_op_def appends_unregister watch_base_unregister split: if_splits)

lemma sound_streams: "sound_op (stream_ends n k)" "sound_op stop_watcher"
  by (auto simp: sound_op_def appends_streams watch_base_def) (auto simp: stream_ends_def stop_watcher_def)

definition devhub_ok :: "devhub \<Rightarrow> bool" where
  "devhub_ok d \<longleftrightarrow> app_ok (dv_app d) \<and> synced d
     \<and> (\<forall>w. dv_watcher d = Some w \<longrightarrow> watch_base w
          \<and> (\<forall>k cr. tracked w k cr \<longrightarrow> probed (ap_engine (dv_app d)) (u_string (cr_target cr))))"

text \<open>What neither the app nor the watcher changes.\<close>

definition devhub_fixed :: "devhub \<Rightarrow> config \<times> egress_policy option \<times> egress_policy option \<times> bool" where
  "devhub_fixed d = (ap_config (dv_app d), eg_policy (ap_engine (dv_app d)),
     eg_forward_policy (ap_engine (dv_app d)), eg_redact (ap_engine (dv_app d)))"

lemma run_watcher_ok:
  assumes "sound_op f" "devhub_ok d"
  shows "devhub_ok (run_watcher f d) \<and> devhub_fixed (run_watcher f d) = devhub_fixed d"
proof (cases "dv_watcher d")
  case None
  with assms show ?thesis by simp
next
  case (Some w)
  note r = run_watcher_Some [where f = f, OF Some]
  have w: "shared d w = w" "watch_base w" "app_ok (dv_app d)"
    using assms(2) Some by (auto simp: devhub_ok_def synced_def)
  have base: "watch_base (f w)" using assms(1) w by (simp add: sound_op_def)
  then have "router_inv (wa_router (f w))" by (simp add: watch_base_def)
  then have "engine_ok ((ap_engine (dv_app d))\<lparr>eg_router := wa_router (f w)\<rparr>)"
    using w(3) by (simp add: app_ok_def engine_ok_def)
  then have app: "app_ok (dv_app (run_watcher f d))"
    using w(1,3) by (simp add: app_ok_def r engine_ok_on_routes)
  have "probed (ap_engine (dv_app (run_watcher f d))) (u_string (cr_target cr))" if "tracked (f w) k cr" for k cr
  proof (cases "tracked w k cr")
    case True
    with assms(2) Some have "probed ((ap_engine (dv_app d))\<lparr>eg_router := x\<rparr>) (u_string (cr_target cr))" for x
      by (auto simp: devhub_ok_def probed_def)
    then show ?thesis unfolding r(4) by (rule probed_on_routes)
  next
    case False
    with that assms(1) have "(''mount'', cr) \<in> set (drop (length (wa_notes w)) (wa_notes (f w)))"
      by (auto simp: sound_op_def)
    moreover have "eg_health (ap_engine (dv_app d)) \<noteq> None" using w(3) by (simp add: app_ok_def engine_ok_def)
    ultimately show ?thesis unfolding r(4) w(1) by (intro noted_probed) simp_all
  qed
  then have "devhub_ok (run_watcher f d)"
    using app base r(1,3) w(1) by (simp add: devhub_ok_def synced_def)
  moreover have "devhub_fixed (run_watcher f d) = devhub_fixed d"
    by (simp add: devhub_fixed_def r)
  ultimately show ?thesis by simp
qed

lemma devhub_step_ok:
  assumes "devhub_ok d"
  shows "devhub_ok (devhub_step parse d op) \<and> devhub_fixed (devhub_step parse d op) = devhub_fixed d"
proof (cases op)
  case (AppOp x)
  from app_step_keeps [of "dv_app d" x] AppOp assms show ?thesis
    by (auto simp: app_keeps_def app_fixed_def devhub_ok_def devhub_fixed_def synced_def shared_def probed_def)
qed (use assms run_watcher_ok [OF _ assms] sound_register sound_unregister sound_streams in simp_all)

interpretation devhub_kept: kept_by_ops "devhub_step parse" "\<lambda>_. True" "\<lambda>d. devhub_ok d \<and> devhub_fixed d = fixed"
  for parse fixed
  by unfold_locales (use devhub_step_ok in fastforce)

lemma devhub_run_ok:
  "devhub_ok d \<Longrightarrow> devhub_ok (foldl (devhub_step parse) d ops)
     \<and> devhub_fixed (foldl (devhub_step parse) d ops) = devhub_fixed d"
  using devhub_kept.run_keeps [where fixed = "devhub_fixed d" and s = d and parse = parse and ops = ops] by simp

section \<open>Routes of running containers and of the configuration\<close>

definition discovery_mode :: "config \<Rightarrow> string" where
  "discovery_mode cfg = (if dc_auto_route_all (cf_docker cfg) then ''automatic'' else dc_mode (cf_docker cfg))"

text \<open>The program between the creation of the watcher and its first sweep.\<close>

definition unswept :: "app \<Rightarrow> devhub" where
  "unswept a = \<lparr>dv_app = a, dv_watcher =
     (if dc_enabled (cf_docker (ap_config a))
      then Some ((new_watcher True (eg_router (ap_engine a)))\<lparr>wa_mode := discovery_mode (ap_config a),
                   wa_auto_route_all := dc_auto_route_all (cf_docker (ap_config a))\<rparr>)
      else None)\<rparr>"

lemma synced_unswept: "synced (unswept a)"
  by (simp add: synced_def unswept_def shared_def new_watcher_def)

lemma start_discovery_run:
  "\<exists>ops. start_discovery parse sweep a = foldl (devhub_step parse) (unswept a) ops
    \<and> set ops \<subseteq> (case sweep of Inl _ \<Rightarrow> {} | Inr cs \<Rightarrow> Discover ` set cs) \<union> range Vanish"
proof (cases "dc_enabled (cf_docker (ap_config a))")
  case True
  then have "start_discovery parse sweep a = run_watcher (\<lambda>w. fst (sync_containers parse sweep w)) (unswept a)"
    by (simp add: start_discovery_def unswept_def Let_def set_auto_route_all_def set_mode_def discovery_mode_def
        new_watcher_def)
  then show ?thesis using run_sync [OF synced_unswept] by simp
next
  case False
  then show ?thesis
    by (intro exI [of _ "[]"]) (simp add: start_discovery_def unswept_def Let_def)
qed

lemma devhub_ok_unswept: "app_ok a \<Longrightarrow> devhub_ok (unswept a)"
  using synced_unswept [of a]
  by (auto simp: devhub_ok_def unswept_def new_watcher_def watch_base_def app_ok_def engine_ok_def)

text \<open>The segments an operation lays claim to, and operations that respect an ownership.\<close>

definition op_claims :: "string \<Rightarrow> string list \<Rightarrow> devhub_op \<Rightarrow> bool" where
  "op_claims mode segs op \<longleftrightarrow>
     (case op of
        Discover c \<Rightarrow> route_prefix_of mode c \<noteq> [] \<and> route_segments (route_prefix_of mode c) = segs
      | _ \<Rightarrow> False)"

definition op_respects :: "(string list \<Rightarrow> string) \<Rightarrow> string \<Rightarrow> devhub_op \<Rightarrow> bool" where
  "op_respects owner mode op \<longleftrightarrow> (case op of Discover c \<Rightarrow> claims_ok owner mode [c] | _ \<Rightarrow> True)"

text \<open>A property of the watcher and the router it sees.\<close>

definition watching :: "(watcher \<Rightarrow> bool) \<Rightarrow> devhub \<Rightarrow> bool" where
  "watching P d \<longleftrightarrow> (\<forall>w. dv_watcher d = Some w \<longrightarrow> P w)"

lemma watching_run:
  assumes "synced d" "watching P d" "\<And>w. P w \<Longrightarrow> P (f w)"
  shows "watching P (run_watcher f d)"
  using assms run_watcher_Some(1) [where d = d and f = f]
  by (cases "dv_watcher d") (auto simp: watching_def synced_def)

lemma watch_inv_streams:
  "watch_inv owner w \<Longrightarrow> watch_inv owner (stream_ends n k w)" "watch_inv owner w \<Longrightarrow> watch_inv owner (stop_watcher w)"
  "wa_mode (stream_ends n k w) = wa_mode w" "wa_mode (stop_watcher w) = wa_mode w"
  by (simp_all add: watch_inv_def watch_base_def owned_by_def all_mounted_def stream_ends_def stop_watcher_def)

lemma owned_step:
  assumes "synced d" "watching (\<lambda>w. watch_inv owner w \<and> wa_mode w = mode) d" "op_respects owner mode op"
  shows "watching (\<lambda>w. watch_inv owner w \<and> wa_mode w = mode) (devhub_step parse d op)"
proof (cases op)
  case (AppOp x)
  with assms(2) show ?thesis by (simp add: watching_def)
next
  case (Discover c)
  with assms(3) have "claims_ok owner mode [c]" by (simp add: op_respects_def)
  then show ?thesis
    unfolding Discover devhub_step.simps by (intro watching_run [OF assms(1,2)]) (auto intro: watch_inv_register)
next
  case (Vanish k)
  show ?thesis
    unfolding Vanish devhub_step.simps by (intro watching_run [OF assms(1,2)]) (auto intro: watch_inv_unregister)
next
  case (LogStreamEnds n k)
  show ?thesis
    unfolding LogStreamEnds devhub_step.simps
    by (intro watching_run [OF assms(1,2)]) (simp add: watch_inv_streams)
next
  case StopDiscovery
  show ?thesis
    unfolding StopDiscovery devhub_step.simps
    by (intro watching_run [OF assms(1,2)]) (simp add: watch_inv_streams)
qed

lemma owned_run:
  assumes "devhub_ok d" "watching (\<lambda>w. watch_inv owner w \<and> wa_mode w = mode) d" "\<forall>op \<in> set ops. op_respects owner mode op"
  shows "watching (\<lambda>w. watch_inv owner w \<and> wa_mode w = mode) (foldl (devhub_step parse) d ops)"
  using assms
proof (induction ops arbitrary: d)
  case (Cons op ops)
  have "synced d" using Cons.prems(1) by (simp add: devhub_ok_def)
  with Cons show ?case
    using devhub_step_ok [OF Cons.prems(1), of parse op] owned_step [of d owner mode op parse] by simp
qed simp

lemma owned_unswept:
  "app_ok a \<Longrightarrow> watching (\<lambda>w. watch_inv owner w \<and> wa_mode w = discovery_mode (ap_config a)) (unswept a)"
  by (auto simp: watching_def unswept_def new_watcher_def watch_inv_def watch_base_def owned_by_def all_mounted_def
      app_ok_def engine_ok_def)

text \<open>Segments no container claims keep their route.\<close>

definition untouched :: "string list \<Rightarrow> route_target option \<Rightarrow> watcher \<Rightarrow> bool" where
  "untouched segs t w \<longleftrightarrow> watch_base w \<and> router_routes (wa_router w) segs = t
     \<and> (\<forall>k cr. tracked w k cr \<longrightarrow> cr_segments cr \<noteq> segs)"

lemma untouched_unregister: "untouched segs t w \<Longrightarrow> untouched segs t (unregister_container k w)"
  by (auto simp: untouched_def watch_base_unregister) (auto simp: watch_base_def unregister_routes split: option.split)

lemma untouched_mount:
  assumes "untouched segs t w" "cr_segments cr \<noteq> segs"
  shows "untouched segs t (mount_route cr w)"
proof (cases "unchanged_route cr w")
  case False
  have "router_inv (wa_router w)" using assms(1) by (simp add: untouched_def watch_base_def)
  with assms False show ?thesis
    by (auto simp: untouched_def watch_base_mount mount_route_changed(1) mount_route_routes split: option.split)
qed (use assms in \<open>simp add: mount_route_unchanged\<close>)

lemma untouched_register:
  assumes "untouched segs t w" "\<not> op_claims (wa_mode w) segs (Discover c)"
  shows "untouched segs t (register_container parse c w)"
  using assms by (auto simp: register_container_def op_claims_def intro!: untouched_mount split: option.split)

lemma untouched_streams: "untouched segs t w \<Longrightarrow> untouched segs t (stream_ends n k w)"
  "untouched segs t w \<Longrightarrow> untouched segs t (stop_watcher w)"
  by (simp_all add: untouched_def watch_base_def stream_ends_def stop_watcher_def)

definition route_kept :: "string \<Rightarrow> string list \<Rightarrow> route_target option \<Rightarrow> devhub \<Rightarrow> bool" where
  "route_kept mode segs t d \<longleftrightarrow> synced d \<and> app_routes (dv_app d) segs = t
     \<and> watching (\<lambda>w. untouched segs t w \<and> wa_mode w = mode) d"

lemma route_kept_run:
  assumes "route_kept mode segs t d"
    and "\<And>w. untouched segs t w \<and> wa_mode w = mode \<Longrightarrow> untouched segs t (f w) \<and> wa_mode (f w) = mode"
  shows "route_kept mode segs t (run_watcher f d)"
proof (cases "dv_watcher d")
  case None
  with assms(1) show ?thesis by simp
next
  case (Some w)
  note r = run_watcher_Some [where f = f, OF Some]
  have "untouched segs t (f w) \<and> wa_mode (f w) = mode"
    using assms Some by (simp add: route_kept_def watching_def)
  moreover have "shared d w = w" using assms(1) Some by (simp add: route_kept_def synced_def)
  ultimately show ?thesis
    using r(1-3) by (simp add: route_kept_def synced_def watching_def untouched_def)
qed

lemma route_kept_step:
  assumes "route_kept mode segs t d" "\<not> op_claims mode segs op"
  shows "route_kept mode segs t (devhub_step parse d op)"
proof (cases op)
  case (AppOp x)
  have "app_fixed (app_step (dv_app d) x) = app_fixed (dv_app d)"
    using app_step_keeps [of "dv_app d" x] by (simp add: app_keeps_def)
  with AppOp assms(1) show ?thesis
    by (auto simp: route_kept_def app_fixed_def synced_def shared_def watching_def)
next
  case (Discover c)
  with assms show ?thesis
    using untouched_register [of segs t _ c parse] by (auto intro!: route_kept_run)
next
  case (Vanish k)
  with assms(1) show ?thesis by (auto intro!: route_kept_run untouched_unregister)
next
  case (LogStreamEnds n k)
  with assms(1) show ?thesis by (auto intro!: route_kept_run untouched_streams simp: watch_inv_streams)
next
  case StopDiscovery
  with assms(1) show ?thesis by (auto intro!: route_kept_run untouched_streams simp: watch_inv_streams)
qed

lemma route_kept_steps:
  "route_kept mode segs t d \<Longrightarrow> \<forall>op \<in> set ops. \<not> op_claims mode segs op \<Longrightarrow>
     route_kept mode segs t (foldl (devhub_step parse) d ops)"
  by (induction ops arbitrary: d) (simp_all add: route_kept_step)

lemma route_kept_unswept:
  "app_ok a \<Longrightarrow> route_kept (discovery_mode (ap_config a)) segs (app_routes a segs) (unswept a)"
  using synced_unswept [of a]
  by (auto simp: route_kept_def watching_def untouched_def unswept_def new_watcher_def watch_base_def
      app_ok_def engine_ok_def)

text \<open>A run of the program from its configuration.\<close>

definition devhub_run ::
  "(string \<Rightarrow> string + gurl) \<Rightarrow> id_counters \<Rightarrow> u64 \<Rightarrow> config \<Rightarrow> (string \<Rightarrow> gurl option) \<Rightarrow> listing \<Rightarrow> devhub_op list \<Rightarrow> devhub" where
  "devhub_run purl ids sq cfg parse sweep ops =
     foldl (devhub_step parse) (start_discovery parse sweep (new_app purl ids sq cfg)) ops"

lemma devhub_run_steps:
  "\<exists>ops0. devhub_run purl ids sq cfg parse sweep ops = foldl (devhub_step parse) (unswept (new_app purl ids sq cfg)) (ops0 @ ops)
    \<and> set ops0 \<subseteq> (case sweep of Inl _ \<Rightarrow> {} | Inr cs \<Rightarrow> Discover ` set cs) \<union> range Vanish"
  using start_discovery_run [of parse sweep "new_app purl ids sq cfg"] by (auto simp: devhub_run_def)

lemma new_app_config [simp]: "ap_config (new_app purl ids sq cfg) = cfg"
  by (simp add: new_app_def Let_def)

lemma devhub_run_sound:
  "devhub_ok (devhub_run purl ids sq cfg parse sweep ops)
    \<and> devhub_fixed (devhub_run purl ids sq cfg parse sweep ops) = devhub_fixed (unswept (new_app purl ids sq cfg))"
  using devhub_run_steps [of purl ids sq cfg parse sweep ops] devhub_run_ok [OF devhub_ok_unswept [OF app_ok_new]] by metis

lemma container_route_target: "cr_target (container_route_of mode u c) = u"
  by (simp add: container_route_of_def)

section \<open>Properties\<close>

text \<open>
  C3: with discovery on, requests, probes and container events may come in any order: the app's
  parts keep their invariants and the configuration, the policies and the redaction setting stay as
  built, the watcher and the engine look at one routing table, and the target of every tracked
  container is probed.
\<close>

theorem discovery_run_invariant:
  fixes purl :: "string \<Rightarrow> string + gurl" and ids :: id_counters and sq :: u64 and cfg :: config
    and parse :: "string \<Rightarrow> gurl option" and sweep :: listing and ops :: "devhub_op list"
  defines "d \<equiv> devhub_run purl ids sq cfg parse sweep ops"
  shows "app_ok (dv_app d) \<and> devhub_fixed d = devhub_fixed \<lparr>dv_app = new_app purl ids sq cfg, dv_watcher = None\<rparr>
    \<and> (\<forall>w. dv_watcher d = Some w \<longrightarrow> wa_router w = eg_router (ap_engine (dv_app d))
         \<and> (\<forall>k cr. map_of (wa_routes w) k = Some cr \<longrightarrow> probed (ap_engine (dv_app d)) (u_string (cr_target cr))))"
proof -
  have "devhub_fixed (unswept a) = devhub_fixed \<lparr>dv_app = a, dv_watcher = None\<rparr>" for a
    by (simp add: devhub_fixed_def unswept_def)
  with devhub_run_sound [of purl ids sq cfg parse sweep ops] show ?thesis
    by (auto simp: d_def devhub_ok_def synced_def) (metis shared_frame(5))
qed

text \<open>
  C8: a tracked container is served: as long as no two containers claim the same segments, a
  request below its prefix that no longer route covers goes to the container's target, with the prefix
  stripped if its label asks for it, and the target is probed.
\<close>

theorem discovered_container_served:
  assumes "d = devhub_run purl ids sq cfg parse sweep ops"
    and "listing_ok owner (discovery_mode cfg) sweep" "\<forall>op \<in> set ops. op_respects owner (discovery_mode cfg) op"
    and "dv_watcher d = Some w" "map_of (wa_routes w) k = Some cr"
    and "path_segments (request_path path) = cr_segments cr @ rest"
    and "\<forall>m. length (cr_segments cr) < m \<and> m \<le> length (cr_segments cr @ rest) \<longrightarrow>
           app_routes (dv_app d) (take m (cr_segments cr @ rest)) = None"
  shows "match_route (eg_router (ap_engine (dv_app d))) path
      = Some (cr_entry cr, outbound_path (cr_entry cr) (length (cr_segments cr)) (request_path path))
    \<and> rt_target (cr_entry cr) = cr_target cr \<and> probed (ap_engine (dv_app d)) (u_string (cr_target cr))"
proof -
  let ?a = "new_app purl ids sq cfg"
  obtain ops0 where d: "d = foldl (devhub_step parse) (unswept ?a) (ops0 @ ops)"
    and ops0: "set ops0 \<subseteq> (case sweep of Inl _ \<Rightarrow> {} | Inr cs \<Rightarrow> Discover ` set cs) \<union> range Vanish"
    using devhub_run_steps assms(1) by blast
  have "\<forall>op \<in> set (ops0 @ ops). op_respects owner (discovery_mode cfg) op"
    using ops0 assms(2,3)
    by (auto simp: op_respects_def listing_ok_def claims_ok_def split: sum.splits devhub_op.split)
  with owned_unswept [OF app_ok_new, of owner purl ids sq cfg]
  have own: "watching (\<lambda>w. watch_inv owner w \<and> wa_mode w = discovery_mode cfg) d"
    unfolding d by (intro owned_run devhub_ok_unswept app_ok_new) simp_all
  have ok: "devhub_ok d" using devhub_run_sound assms(1) by blast
  then have sw: "wa_router w = eg_router (ap_engine (dv_app d))"
    using assms(4) by (metis devhub_ok_def shared_frame(5) synced_def)
  have "app_routes (dv_app d) (cr_segments cr) = Some (cr_entry cr)"
    using own assms(4,5) sw by (auto simp: watching_def watch_inv_def all_mounted_def)
  then have "longest_route (app_routes (dv_app d)) (cr_segments cr @ rest) = Some (length (cr_segments cr), cr_entry cr)"
    using assms(7) unfolding longest_route_Some by simp
  moreover have "router_inv (eg_router (ap_engine (dv_app d)))"
    using ok by (simp add: devhub_ok_def app_ok_def engine_ok_def)
  ultimately show ?thesis
    using ok assms(4-6) by (auto simp: match_route_correct devhub_ok_def) (simp add: cr_entry_def target_of_def)
qed

text \<open>
  C25: configured routes survive discovery: segments that no container claims answer for ever as the
  configuration says.
\<close>

theorem static_routes_survive_discovery:
  assumes "\<forall>c \<in> (case sweep of Inl _ \<Rightarrow> {} | Inr cs \<Rightarrow> set cs). \<not> op_claims (discovery_mode cfg) segs (Discover c)"
    and "\<forall>op \<in> set ops. \<not> op_claims (discovery_mode cfg) segs op"
  shows "app_routes (dv_app (devhub_run purl ids sq cfg parse sweep ops)) segs = configured_routes purl (cf_routes cfg) segs"
proof -
  let ?a = "new_app purl ids sq cfg"
  obtain ops0 where d: "devhub_run purl ids sq cfg parse sweep ops = foldl (devhub_step parse) (unswept ?a) (ops0 @ ops)"
    and ops0: "set ops0 \<subseteq> (case sweep of Inl _ \<Rightarrow> {} | Inr cs \<Rightarrow> Discover ` set cs) \<union> range Vanish"
    using devhub_run_steps by blast
  have "\<forall>op \<in> set (ops0 @ ops). \<not> op_claims (discovery_mode cfg) segs op"
    using ops0 assms by (auto simp: op_claims_def split: sum.splits devhub_op.splits)
  with route_kept_unswept [OF app_ok_new, of purl ids sq cfg segs]
  have "route_kept (discovery_mode cfg) segs (app_routes ?a segs) (devhub_run purl ids sq cfg parse sweep ops)"
    unfolding d by (intro route_kept_steps) simp_all
  then show ?thesis by (simp add: route_kept_def new_app_routes)
qed

text \<open>
  a container that claims the segments of a configured route takes the route with it: after it
  has stopped, the gateway has no route for them although the configuration, which the routes endpoint
  shows, still lists one, and the target of the stopped container is probed for ever.
\<close>

theorem stopped_container_takes_static_route:
  assumes "devhub_ok d" "dv_watcher d = Some w" "map_of (wa_routes w) (ci_id c) = None"
    and "route_prefix_of (wa_mode w) c = pre" "pre \<noteq> []" "parse (target_url_text c) = Some u"
  defines "d' \<equiv> devhub_step parse (devhub_step parse d (Discover c)) (Vanish (ci_id c))"
  shows "app_routes (dv_app d') (route_segments pre) = None
    \<and> cf_routes (ap_config (dv_app d')) = cf_routes (ap_config (dv_app d))
    \<and> probed (ap_engine (dv_app d')) (u_string u)"
proof -
  let ?cr = "container_route_of (wa_mode w) u c" and ?w1 = "register_container parse c w"
  let ?d1 = "devhub_step parse d (Discover c)"
  have sw: "shared d w = w" using assms(1,2) by (simp add: devhub_ok_def synced_def)
  have reg: "?w1 = mount_route ?cr w" using assms(4-6) by (simp add: register_container_def)
  have new: "\<not> unchanged_route ?cr w" using assms(3) by (simp add: unchanged_route_def)
  have ok1: "devhub_ok ?d1" using devhub_step_ok [OF assms(1)] by blast
  have w1: "dv_watcher ?d1 = Some ?w1" using run_watcher_Some(1) [OF assms(2)] sw by simp
  have sw1: "shared ?d1 ?w1 = ?w1" using ok1 w1 by (simp add: devhub_ok_def synced_def)
  have tr: "map_of (wa_routes ?w1) (ci_id c) = Some ?cr" by (simp add: reg mount_route_changed [OF new])
  with ok1 w1 have pr: "probed (ap_engine (dv_app ?d1)) (u_string u)"
    by (force simp: devhub_ok_def container_route_target)
  have "router_inv (wa_router ?w1)" using ok1 w1 by (simp add: devhub_ok_def watch_base_def)
  then have gone: "router_routes (wa_router (unregister_container (ci_id c) ?w1)) (route_segments pre) = None"
    using assms(4) by (simp add: unregister_routes tr)
  note r = run_watcher_Some [where f = "unregister_container (ci_id c)", OF w1]
  have "devhub_fixed d' = devhub_fixed d"
    unfolding d'_def using devhub_step_ok [OF assms(1)] devhub_step_ok [OF ok1] by metis
  moreover have "probed ((ap_engine (dv_app ?d1))\<lparr>eg_router := x\<rparr>) (u_string u)" for x
    using pr by (simp add: probed_def)
  ultimately show ?thesis
    using gone r(2,4) sw1 by (simp add: d'_def devhub_fixed_def probed_on_routes)
qed

section \<open>Witnesses\<close>

abbreviation sample_ids :: id_counters where "sample_ids \<equiv> \<lparr>trace_seq = 0, span_seq = 0\<rparr>"

abbreviation sample_purl :: "string \<Rightarrow> string + gurl" where "sample_purl \<equiv> cv_parse sample_config_env"

abbreviation default_app :: app where
  "default_app \<equiv> new_app sample_purl sample_ids 0 (default_config False)"

abbreviation sample_run :: "devhub_op list \<Rightarrow> devhub" where
  "sample_run \<equiv> devhub_run sample_purl sample_ids 0 (default_config False) sample_parse (Inr [])"

lemma default_discovery [simp]:
  "discovery_mode (default_config w) = ''strict''" "dc_enabled (cf_docker (default_config w))"
  by (simp_all add: discovery_mode_def default_config_def)

lemma sample_prefix [simp]: "route_prefix_of ''strict'' (sample_container k path) = path"
  by (cases "path = []") (simp_all add: route_prefix_of_def sample_container_def str_map_get_def Let_def)

lemma sample_id [simp]: "ci_id (sample_container k path) = k"
  by (simp add: sample_container_def)

lemma unswept_default: "\<exists>w. dv_watcher (unswept default_app) = Some w \<and> wa_routes w = [] \<and> wa_mode w = ''strict''"
  by (simp add: unswept_def new_watcher_def)

lemma sample_run_unswept: "sample_run ops = foldl (devhub_step sample_parse) (unswept default_app) ops"
proof -
  have "start_discovery sample_parse (Inr []) default_app
      = run_watcher (\<lambda>w. fst (sync_containers sample_parse (Inr []) w)) (unswept default_app)"
    by (simp add: start_discovery_def unswept_def Let_def set_auto_route_all_def set_mode_def discovery_mode_def
        new_watcher_def)
  also have "\<dots> = unswept default_app"
    by (rule run_watcher_id [OF synced_unswept]) (auto simp: sync_containers_def unswept_def new_watcher_def)
  finally show ?thesis by (simp add: devhub_run_def)
qed

text \<open>A run in which one container appears.\<close>

abbreviation sample_route :: container_route where
  "sample_route \<equiv> container_route_of ''strict'' (the (sample_parse (target_url_text (sample_container ''c1'' ''/shop''))))
     (sample_container ''c1'' ''/shop'')"

lemma sample_discovered:
  "\<exists>w. dv_watcher (sample_run [Discover (sample_container ''c1'' ''/shop'')]) = Some w
    \<and> map_of (wa_routes w) ''c1'' = Some sample_route"
proof -
  let ?c = "sample_container ''c1'' ''/shop''"
  obtain w0 where w0: "dv_watcher (unswept default_app) = Some w0" "wa_routes w0 = []" "wa_mode w0 = ''strict''"
    using unswept_default by blast
  have reg: "register_container sample_parse ?c (shared (unswept default_app) w0) = mount_route sample_route (shared (unswept default_app) w0)"
    by (simp add: register_container_def w0 sample_parse_def)
  have new: "\<not> unchanged_route sample_route (shared (unswept default_app) w0)" by (simp add: unchanged_route_def w0)
  have d: "sample_run [Discover ?c] = run_watcher (register_container sample_parse ?c) (unswept default_app)"
    by (simp add: sample_run_unswept)
  have "dv_watcher (sample_run [Discover ?c]) = Some (mount_route sample_route (shared (unswept default_app) w0))"
    unfolding d run_watcher_Some(1) [OF w0(1)] reg ..
  moreover have "map_of (wa_routes (mount_route sample_route (shared (unswept default_app) w0))) ''c1'' = Some sample_route"
    by (simp add: mount_route_changed(1) [OF new] w0)
  ultimately show ?thesis by blast
qed

theorem discovery_run_invariant_witness:
  "\<exists>w. dv_watcher (sample_run [Discover (sample_container ''c1'' ''/shop'')]) = Some w
    \<and> wa_router w = eg_router (ap_engine (dv_app (sample_run [Discover (sample_container ''c1'' ''/shop'')])))
    \<and> probed (ap_engine (dv_app (sample_run [Discover (sample_container ''c1'' ''/shop'')]))) (u_string (cr_target sample_route))"
proof -
  obtain w where w: "dv_watcher (sample_run [Discover (sample_container ''c1'' ''/shop'')]) = Some w"
    "map_of (wa_routes w) ''c1'' = Some sample_route"
    using sample_discovered by blast
  with discovery_run_invariant [of sample_purl sample_ids 0 "default_config False" sample_parse "Inr []"
      "[Discover (sample_container ''c1'' ''/shop'')]"] show ?thesis by blast
qed

theorem discovered_container_served_witness:
  "\<exists>t out. match_route (eg_router (ap_engine (dv_app (sample_run [Discover (sample_container ''c1'' ''/shop'')])))) ''/shop''
     = Some (t, out)"
proof -
  let ?c = "sample_container ''c1'' ''/shop''" and ?d = "sample_run [Discover (sample_container ''c1'' ''/shop'')]"
  obtain w where w: "dv_watcher ?d = Some w" and cr: "map_of (wa_routes w) ''c1'' = Some sample_route"
    using sample_discovered by blast
  have "path_segments (request_path ''/shop'') = route_segments ''/shop'' @ []" by code_simp
  then have seg': "path_segments (request_path ''/shop'') = cr_segments sample_route @ []" by simp
  have vac: "\<forall>m. length (cr_segments sample_route) < m \<and> m \<le> length (cr_segments sample_route @ []) \<longrightarrow>
      app_routes (dv_app ?d) (take m (cr_segments sample_route @ [])) = None" by (intro allI impI) auto
  have "listing_ok (\<lambda>_. ''c1'') (discovery_mode (default_config False)) (Inr [])"
    "\<forall>op \<in> set [Discover ?c]. op_respects (\<lambda>_. ''c1'') (discovery_mode (default_config False)) op"
    by (simp_all add: listing_ok_def claims_ok_def op_respects_def)
  from discovered_container_served [OF refl this w cr seg' vac] show ?thesis by blast
qed

theorem static_routes_survive_discovery_witness:
  "app_routes (dv_app (sample_run [Discover (sample_container ''c1'' ''/shop''), Vanish ''c1''])) [''auth'']
     = configured_routes sample_purl default_routes [''auth'']"
proof -
  have seg: "route_segments ''/shop'' \<noteq> [''auth'']" by code_simp
  have routes: "cf_routes (default_config False) = default_routes" by (simp add: default_config_def)
  show ?thesis
    using static_routes_survive_discovery [of "Inr []" "default_config False" "[''auth'']"
        "[Discover (sample_container ''c1'' ''/shop''), Vanish ''c1'']" sample_purl sample_ids 0 sample_parse] seg
    by (simp add: op_claims_def routes)
qed

theorem stopped_container_takes_static_route_witness:
  "app_routes default_app [''auth''] \<noteq> None
   \<and> app_routes (dv_app (sample_run [Discover (sample_container ''c1'' ''/auth''), Vanish ''c1''])) [''auth''] = None"
proof -
  let ?c = "sample_container ''c1'' ''/auth''"
  obtain w0 where w0: "dv_watcher (unswept default_app) = Some w0" "wa_routes w0 = []" "wa_mode w0 = ''strict''"
    using unswept_default by blast
  have seg: "route_segments ''/auth'' = [''auth'']" "route_segments ''/api/v1'' = [''api'', ''v1'']" "route_segments ''/'' = []"
    by code_simp+
  have "map_of (wa_routes w0) (ci_id ?c) = None" "route_prefix_of (wa_mode w0) ?c = ''/auth''" "''/auth'' \<noteq> []"
    "sample_parse (target_url_text ?c) = Some (the (sample_parse (target_url_text ?c)))"
    by (simp_all add: w0 sample_parse_def)
  have ok: "devhub_ok (unswept default_app)" by (intro devhub_ok_unswept app_ok_new)
  from stopped_container_takes_static_route [OF ok w0(1) \<open>map_of (wa_routes w0) (ci_id ?c) = None\<close>
      \<open>route_prefix_of (wa_mode w0) ?c = ''/auth''\<close> \<open>''/auth'' \<noteq> []\<close>, of sample_parse]
  have "app_routes (dv_app (sample_run [Discover ?c, Vanish ''c1''])) [''auth''] = None"
    by (simp add: sample_run_unswept seg sample_parse_def)
  moreover have "app_routes default_app [''auth''] \<noteq> None"
    by (simp add: new_app_routes configured_routes_def default_config_def default_routes_def sample_config_env_def seg)
  ultimately show ?thesis by blast
qed

end
