(* ===== verification/Terminal.thy ===== *)
theory Terminal
  imports Ring_Buffer
begin

text \<open>
  The live log line of src/internal/app/app.go (\<open>printLiveTerminalLog\<close>), which the telemetry worker
  prints for every event. \<open>runes\<close> counts the code points of a string, by which \<open>fmt\<close> pads.
\<close>

definition ansi :: "string \<Rightarrow> string" where
  "ansi code = [char_of (27 :: nat)] @ ''['' @ code @ ''m''"

definition col_reset :: string where "col_reset = ansi ''0''"
definition col_bold :: string where "col_bold = ansi ''1''"
definition col_sky :: string where "col_sky = ansi ''38;5;45''"
definition col_emerald :: string where "col_emerald = ansi ''38;5;48''"
definition col_yellow :: string where "col_yellow = ansi ''38;5;220''"
definition col_amber :: string where "col_amber = ansi ''38;5;214''"
definition col_red :: string where "col_red = ansi ''38;5;197''"
definition col_purple :: string where "col_purple = ansi ''38;5;141''"
definition col_gray :: string where "col_gray = ansi ''38;5;244''"
definition col_dark_gray :: string where "col_dark_gray = ansi ''38;5;238''"

definition bg_get :: string where "bg_get = ansi ''48;5;24'' @ ansi ''38;5;51'' @ ansi ''1''"
definition bg_post :: string where "bg_post = ansi ''48;5;22'' @ ansi ''38;5;82'' @ ansi ''1''"
definition bg_put :: string where "bg_put = ansi ''48;5;58'' @ ansi ''38;5;220'' @ ansi ''1''"
definition bg_del :: string where "bg_del = ansi ''48;5;52'' @ ansi ''38;5;197'' @ ansi ''1''"
definition bg_ws :: string where "bg_ws = ansi ''48;5;54'' @ ansi ''38;5;141'' @ ansi ''1''"

definition method_badge :: "string \<Rightarrow> string" where
  "method_badge m =
     (if m = ''POST'' then bg_post @ '' POST '' @ col_reset
      else if m = ''PUT'' then bg_put @ '' PUT '' @ col_reset
      else if m = ''DELETE'' then bg_del @ '' DEL '' @ col_reset
      else if m = ''PATCH'' then bg_put @ '' PATCH '' @ col_reset
      else if m = ''WS'' then bg_ws @ ''  WS  '' @ col_reset
      else if m = ''CONNECT'' then bg_ws @ '' CONN '' @ col_reset
      else bg_get @ '' GET '' @ col_reset)"

definition status_color :: "int \<Rightarrow> string" where
  "status_color code =
     (if 500 \<le> code then col_red else if 400 \<le> code then col_amber
      else if 300 \<le> code then col_sky else col_emerald)"

definition latency_color :: "int \<Rightarrow> string" where
  "latency_color ms = (if 500 \<le> ms then col_red else if 150 \<le> ms then col_yellow else col_emerald)"

definition trace_short :: "string \<Rightarrow> string" where
  "trace_short t = (if 8 < length t then take 8 t else t)"

definition target_display :: "string \<Rightarrow> string" where
  "target_display t = (if 34 < length t then take 31 t @ ''...'' else t)"

definition pad_right :: "(string \<Rightarrow> nat) \<Rightarrow> nat \<Rightarrow> string \<Rightarrow> string" where
  "pad_right runes n s = s @ replicate (n - runes s) CHR '' ''"

definition pad_left :: "nat \<Rightarrow> string \<Rightarrow> string" where
  "pad_left n s = replicate (n - length s) CHR '' '' @ s"

definition arrow :: string where "arrow = map char_of [226, 158, 148 :: nat]"

definition live_line :: "(string \<Rightarrow> nat) \<Rightarrow> trace_event \<Rightarrow> string" where
  "live_line runes ev =
     col_dark_gray @ ''['' @ ev_timestamp ev @ '']'' @ col_reset @ '' '' @ method_badge (ev_method ev) @ '' ''
     @ pad_right runes 24 (ev_path ev) @ '' ''
     @ status_color (ev_status ev) @ col_bold @ pad_left 3 (dec_of_int (ev_status ev)) @ col_reset @ '' ''
     @ latency_color (ev_duration ev) @ pad_left 4 (dec_of_int (ev_duration ev)) @ ''ms'' @ col_reset
     @ '' '' @ arrow @ '' '' @ col_gray @ pad_right runes 34 (target_display (ev_target ev)) @ col_reset @ '' ''
     @ col_purple @ ''['' @ trace_short (ev_trace_id ev) @ '']'' @ col_reset @ [char_of (10 :: nat)]"

lemma target_display_length: "length (target_display t) \<le> 34"
  by (simp add: target_display_def)

lemma trace_short_length: "length (trace_short t) \<le> 8"
  by (simp add: trace_short_def)

text \<open>
  the log line contains the request path as it is: a path whose decoded bytes include escape
  sequences or line ends writes them to the operator's terminal.
\<close>

theorem terminal_line_embeds_path:
  "\<exists>before after. live_line runes (ev\<lparr>ev_path := path\<rparr>) = before @ path @ after"
proof -
  have "live_line runes (ev\<lparr>ev_path := path\<rparr>) =
      (col_dark_gray @ ''['' @ ev_timestamp ev @ '']'' @ col_reset @ '' '' @ method_badge (ev_method ev) @ '' '')
      @ path @ drop (length path)
        (pad_right runes 24 path @ '' ''
         @ status_color (ev_status ev) @ col_bold @ pad_left 3 (dec_of_int (ev_status ev)) @ col_reset @ '' ''
         @ latency_color (ev_duration ev) @ pad_left 4 (dec_of_int (ev_duration ev)) @ ''ms'' @ col_reset
         @ '' '' @ arrow @ '' '' @ col_gray @ pad_right runes 34 (target_display (ev_target ev)) @ col_reset @ '' ''
         @ col_purple @ ''['' @ trace_short (ev_trace_id ev) @ '']'' @ col_reset @ [char_of (10 :: nat)])"
    by (simp add: live_line_def pad_right_def)
  then show ?thesis by blast
qed

end
