(* ===== verification/Startup.thy ===== *)
theory Startup
  imports Application Terminal
begin

text \<open>
  A whole run of the program: \<open>main\<close> of src/cmd/main.go from the flags to the exit code, the
  addresses and the route table it prints (\<open>printHeaderBanner\<close>), and the loop that probes the targets
  (\<open>HealthMonitor.Start\<close>).
\<close>

section \<open>What is printed\<close>

definition new_line :: string where "new_line = [char_of (10 :: nat)]"

definition col_cyan :: string where "col_cyan = ansi ''38;5;51''"
definition col_green :: string where "col_green = ansi ''38;5;82''"

definition cross_mark :: string where "cross_mark = map char_of [226, 157, 140 :: nat]"
definition stop_sign :: string where "stop_sign = map char_of [240, 159, 155, 145 :: nat]"
definition sparkles :: string where "sparkles = map char_of [226, 156, 168 :: nat]"
definition bullet_mark :: string where "bullet_mark = map char_of [226, 128, 162 :: nat]"
definition bar_mark :: string where "bar_mark = map char_of [226, 148, 130 :: nat]"

text \<open>The lines with the addresses, and one line per configured route.\<close>

definition address_lines :: "config \<Rightarrow> string" where
  "address_lines cfg =
     (let s = cf_server cfg; dash = sc_dashboard_host s @ '':'' @ dec_of_int (sc_dashboard_port s)
      in ''  '' @ col_bold @ bullet_mark @ '' Ingress Gateway'' @ col_reset @ ''   : '' @ col_bold @ col_cyan
           @ ''http://localhost:'' @ dec_of_int (sc_proxy_port s) @ col_reset @ new_line
         @ ''  '' @ col_bold @ bullet_mark @ '' Developer Cockpit'' @ col_reset @ '' : '' @ col_bold @ col_emerald
           @ ''http://'' @ dash @ col_reset @ new_line
         @ ''  '' @ col_bold @ bullet_mark @ '' WebSocket Stream'' @ col_reset @ ''  : '' @ col_bold @ col_purple
           @ ''ws://'' @ dash @ ''/ws'' @ col_reset @ new_line
         @ (if dc_enabled (cf_docker cfg)
            then ''  '' @ col_bold @ bullet_mark @ '' Docker Discovery'' @ col_reset @ ''  : '' @ col_sky
                   @ ''Active (listening on IPC socket)'' @ col_reset @ new_line
            else [])
         @ ''  '' @ col_bold @ bullet_mark @ '' Forward Proxy'' @ col_reset @ ''     : '' @ col_yellow
           @ ''HTTP_PROXY=http://localhost:'' @ dec_of_int (sc_proxy_port s) @ col_reset @ '' '' @ col_gray
           @ ''(Zero-Code Cascades)'' @ col_reset @ new_line)"

definition route_line :: "(string \<Rightarrow> nat) \<Rightarrow> route_config \<Rightarrow> string" where
  "route_line runes rc =
     bar_mark @ ''  '' @ col_cyan @ pad_right runes 20 (rc_prefix rc) @ col_reset @ '' '' @ arrow @ ''  ''
     @ col_sky @ pad_right runes 28 (rc_target rc) @ col_reset @ '' ''
     @ (if rc_strip_prefix rc then col_amber @ ''[strip-prefix]'' @ col_reset
        else col_gray @ ''[pass-through]'' @ col_reset)
     @ '' '' @ bar_mark @ new_line"

definition route_lines :: "(string \<Rightarrow> nat) \<Rightarrow> config \<Rightarrow> string" where
  "route_lines runes cfg = concat (map (route_line runes) (cf_routes cfg))"

section \<open>The run of the program\<close>

datatype run_event =
  Printed string
| Started start_action
| Signalled
| ContextCancelled
| Stopped stop_action

text \<open>
  \<open>listen\<close> answers \<open>net.Listen\<close>; \<open>New\<close> never fails, the docker watcher exists when discovery is on. The
  result is what happens in order and the exit code.
\<close>

definition main_run ::
  "config_env \<Rightarrow> (string \<Rightarrow> string) \<Rightarrow> flags \<Rightarrow> (string \<Rightarrow> string option) \<Rightarrow> string option \<Rightarrow> string option \<Rightarrow> run_event list \<times> int" where
  "main_run env getenv fl listen proxy_err dashboard_err =
     (case main_config env getenv fl of
        Inl err \<Rightarrow> ([Printed (col_red @ cross_mark @ '' Failed to load config: '' @ err @ col_reset @ new_line)], 1)
      | Inr cfg \<Rightarrow>
          (case start_app listen cfg of
             (acts, Some err) \<Rightarrow>
               (map Started acts
                  @ [Printed (col_red @ cross_mark @ '' Application startup error: '' @ err @ col_reset @ new_line)], 1)
           | (acts, None) \<Rightarrow>
               (map Started acts
                  @ [Signalled,
                     Printed (new_line @ col_yellow @ stop_sign @ '' Shutting down DevHub mesh gracefully...'' @ col_reset @ new_line),
                     ContextCancelled]
                  @ map Stopped (fst (shutdown_app True True (dc_enabled (cf_docker cfg)) proxy_err dashboard_err))
                  @ [Printed (col_green @ sparkles @ '' DevHub stopped successfully.'' @ col_reset @ new_line)], 0)))"

section \<open>The probing loop\<close>

text \<open>A round: what the network answers, the clock, and before which target a cancellation is seen.\<close>

record probe_round =
  pb_http :: "string \<Rightarrow> probe_result"
  pb_dial :: "string \<Rightarrow> probe_result"
  pb_clock :: "string \<Rightarrow> int \<times> int"
  pb_until :: nat

definition run_round :: "(int \<Rightarrow> string) \<Rightarrow> probe_round \<Rightarrow> health_monitor \<Rightarrow> health_monitor \<times> target_health list" where
  "run_round stext r h = probe_all stext (pb_http r) (pb_dial r) (pb_clock r) (pb_until r) h"

definition probe_interval :: "int \<Rightarrow> int" where
  "probe_interval ns = (if ns \<le> 0 then 3000000000 else ns)"

datatype probe_signal = Tick probe_round | ProbesCancelled

fun probe_ticks :: "(int \<Rightarrow> string) \<Rightarrow> probe_signal list \<Rightarrow> health_monitor \<Rightarrow> health_monitor \<times> target_health list" where
  "probe_ticks stext [] h = (h, [])"
| "probe_ticks stext (ProbesCancelled # es) h = (h, [])"
| "probe_ticks stext (Tick r # es) h =
     (let (h, out) = run_round stext r h; (h, out') = probe_ticks stext es h in (h, out @ out'))"

definition probe_loop ::
  "(int \<Rightarrow> string) \<Rightarrow> probe_round \<Rightarrow> probe_signal list \<Rightarrow> health_monitor \<Rightarrow> health_monitor \<times> target_health list" where
  "probe_loop stext r es h = probe_ticks stext (Tick r # es) h"

section \<open>Lemmas\<close>

text \<open>A round is a run of probe steps that touches each target once.\<close>

lemma probe_run_targets:
  fixes h :: health_monitor and stext :: "int \<Rightarrow> string" and clock :: "string \<Rightarrow> int \<times> int"
    and res :: "target_health \<Rightarrow> probe_result"
  assumes "distinct (map fst kts)"
  defines "h' \<equiv> fst (health_run stext h (map (\<lambda>(key, target). Probe (fst (clock key)) (snd (clock key)) (res target) key) kts))"
  shows "map fst (hm_targets h') = map fst (hm_targets h)
    \<and> map_of (hm_targets h') k = (case map_of kts k of
         None \<Rightarrow> map_of (hm_targets h) k
       | Some target \<Rightarrow> map_option (probe_update (fst (clock k)) (snd (clock k)) (probe_outcome stext (res target)))
           (map_of (hm_targets h) k))"
  using assms(1) unfolding h'_def
proof (induction kts arbitrary: h)
  case (Cons kt kts)
  obtain key target where kt: "kt = (key, target)" by (cases kt)
  let ?h = "fst (probe_record (fst (clock key)) (snd (clock key)) (probe_outcome stext (res target)) key h)"
  have keys: "map fst (hm_targets ?h) = map fst (hm_targets h)"
  proof (cases "map_of (hm_targets h) key")
    case (Some t)
    then have "key \<in> set (map fst (hm_targets h))" by (force dest: map_of_SomeD)
    with Some show ?thesis by (simp add: probe_record_def Let_def update_keys)
  qed (simp add: probe_record_def)
  have lookup: "map_of (hm_targets ?h) k = (if k = key
      then map_option (probe_update (fst (clock k)) (snd (clock k)) (probe_outcome stext (res target))) (map_of (hm_targets h) k)
      else map_of (hm_targets h) k)"
    by (simp add: probe_record_def Let_def split: option.split)
  have absent: "map_of kts key = None" using Cons.prems kt by (simp add: map_of_eq_None_iff)
  from Cons.IH [of ?h] Cons.prems keys lookup absent show ?case
    by (auto simp: kt health_run_Cons simp del: health_run.simps(2) split: option.split)
qed simp

lemma run_round_targets:
  assumes "health_inv h" "length (hm_targets h) \<le> pb_until r"
  shows "map fst (hm_targets (fst (run_round stext r h))) = map fst (hm_targets h)
    \<and> map_of (hm_targets (fst (run_round stext r h))) k
      = map_option (\<lambda>t. probe_update (fst (pb_clock r k)) (snd (pb_clock r k))
          (probe_outcome stext (probe_target (pb_http r) (pb_dial r) t)) t) (map_of (hm_targets h) k)"
proof -
  have "distinct (map fst (hm_targets h))" using assms(1) by (simp add: health_inv_def)
  from probe_run_targets [OF this, of stext h "pb_clock r" "probe_target (pb_http r) (pb_dial r)" k] assms(2)
  show ?thesis by (simp add: run_round_def probe_all_run split: option.split)
qed

lemma run_round_inv: "health_inv h \<Longrightarrow> health_inv (fst (run_round stext r h))"
  unfolding run_round_def probe_all_run by (rule health_inv_run)

lemma probe_ticks_rounds:
  "fst (probe_ticks stext (map Tick rs) h) = foldl (\<lambda>h r. fst (run_round stext r h)) h rs"
  by (induction rs arbitrary: h) (simp_all add: Let_def case_prod_unfold)

interpretation rounds_kept: kept_by_ops "\<lambda>h r. fst (run_round stext r h)" "\<lambda>_. True" health_inv for stext
  by unfold_locales (rule run_round_inv)

lemma rounds_keep:
  assumes "health_inv h"
  shows "health_inv (foldl (\<lambda>h r. fst (run_round stext r h)) h rs)"
  using assms by (intro rounds_kept.run_keeps) simp_all

lemma rounds_keys:
  assumes "health_inv h" "\<forall>r \<in> set rs. length (hm_targets h) \<le> pb_until r"
  shows "map fst (hm_targets (foldl (\<lambda>h r. fst (run_round stext r h)) h rs)) = map fst (hm_targets h)"
  using assms
proof (induction rs arbitrary: h)
  case (Cons r rs)
  have keys: "map fst (hm_targets (fst (run_round stext r h))) = map fst (hm_targets h)"
    using run_round_targets [OF Cons.prems(1), of r] Cons.prems(2) by simp
  then have "length (hm_targets (fst (run_round stext r h))) = length (hm_targets h)" by (metis length_map)
  with Cons.IH [OF run_round_inv [OF Cons.prems(1)]] Cons.prems(2) keys show ?case by simp
qed simp

text \<open>A round nobody answers, and one everybody answers.\<close>

definition round_down :: "(int \<Rightarrow> string) \<Rightarrow> probe_round \<Rightarrow> bool" where
  "round_down stext r \<longleftrightarrow> (\<forall>x. \<not> fst (probe_outcome stext (pb_http r x)) \<and> \<not> fst (probe_outcome stext (pb_dial r x)))"

definition round_up :: "(int \<Rightarrow> string) \<Rightarrow> probe_round \<Rightarrow> bool" where
  "round_up stext r \<longleftrightarrow> (\<forall>x. fst (probe_outcome stext (pb_http r x)) \<and> fst (probe_outcome stext (pb_dial r x)))"

lemma round_down_target: "round_down stext r \<Longrightarrow> \<not> fst (probe_outcome stext (probe_target (pb_http r) (pb_dial r) t))"
  by (simp add: round_down_def probe_target_def)

lemma round_up_target: "round_up stext r \<Longrightarrow> fst (probe_outcome stext (probe_target (pb_http r) (pb_dial r) t))"
  by (simp add: round_up_def probe_target_def)

lemma probe_update_fails: "\<not> fst outcome \<Longrightarrow> th_fails (probe_update now latency outcome t) = th_fails t + 1"
  by (cases outcome) (simp add: probe_update_def Let_def)

lemma probe_update_healthy: "fst outcome \<Longrightarrow> th_healthy (probe_update now latency outcome t)"
  by (cases outcome) (simp add: probe_update_def)

lemma rounds_down_fails:
  assumes "health_inv h" "\<forall>r \<in> set rs. length (hm_targets h) \<le> pb_until r \<and> round_down stext r" "map_of (hm_targets h) k = Some t"
  shows "\<exists>t'. map_of (hm_targets (foldl (\<lambda>h r. fst (run_round stext r h)) h rs)) k = Some t' \<and> th_fails t' = th_fails t + int (length rs)"
  using assms
proof (induction rs arbitrary: h t)
  case (Cons r rs)
  note round = run_round_targets [OF Cons.prems(1), of r stext k]
  let ?h = "fst (run_round stext r h)"
  obtain t1 where t1: "map_of (hm_targets ?h) k = Some t1" "th_fails t1 = th_fails t + 1"
    using round Cons.prems(2,3) by (simp add: probe_update_fails round_down_target)
  have "length (hm_targets ?h) = length (hm_targets h)" using round Cons.prems(2) by (metis length_map list.set_intros(1))
  with Cons.IH [OF run_round_inv [OF Cons.prems(1)] _ t1(1)] Cons.prems(2) t1(2) show ?case by fastforce
qed simp

section \<open>Properties\<close>

text \<open>
  probing follows the network: after three complete rounds in which nothing answers every
  registered target is unhealthy and, with enforcement on, its circuit is open, whatever its state was;
  after one complete round in which everything answers every target is healthy again.
\<close>

theorem probing_follows_network:
  fixes stext :: "int \<Rightarrow> string"
  assumes "health_inv h" "\<forall>r \<in> set (rs @ [a, b, c]). length (hm_targets h) \<le> pb_until r"
    and "map_of (hm_targets h) (u_string u) = Some t" "rs @ [a, b, c] = r # rest"
  defines "h' \<equiv> fst (probe_loop stext r (map Tick rest) h)"
  shows "((\<forall>p \<in> {a, b, c}. round_down stext p) \<longrightarrow> \<not> is_healthy (Some u) h' \<and> (hm_enforce h' \<longrightarrow> is_circuit_broken (Some u) h'))
    \<and> (round_up stext c \<longrightarrow> is_healthy (Some u) h' \<and> \<not> is_circuit_broken (Some u) h')"
proof -
  let ?run = "foldl (\<lambda>h r. fst (run_round stext r h))"
  have h': "h' = ?run h (rs @ [a, b, c])"
    unfolding h'_def probe_loop_def assms(4) using probe_ticks_rounds [of stext "r # rest" h] by simp
  have keys: "map fst (hm_targets (?run h xs)) = map fst (hm_targets h)" if "set xs \<subseteq> set (rs @ [a, b, c])" for xs
    using rounds_keys [OF assms(1)] assms(2) that by blast
  have found: "\<exists>t. map_of (hm_targets (?run h xs)) (u_string u) = Some t" if "set xs \<subseteq> set (rs @ [a, b, c])" for xs
  proof -
    have "u_string u \<in> set (map fst (hm_targets h))" using assms(3) by (force dest: map_of_SomeD)
    then have "u_string u \<in> fst ` set (hm_targets (?run h xs))" using keys [OF that] by (metis set_map)
    then show ?thesis unfolding not_None_eq [symmetric] map_of_eq_None_iff by simp
  qed
  have len: "length (hm_targets (?run h xs)) = length (hm_targets h)" if "set xs \<subseteq> set (rs @ [a, b, c])" for xs
    using keys [OF that] by (metis length_map)
  have inv: "health_inv (?run h xs)" for xs by (rule rounds_keep [OF assms(1)])
  have down: "th_fails t' \<ge> 3" if "\<forall>p \<in> {a, b, c}. round_down stext p" "map_of (hm_targets h') (u_string u) = Some t'" for t'
  proof -
    obtain t0 where t0: "map_of (hm_targets (?run h rs)) (u_string u) = Some t0" using found [of rs] by auto
    have "0 \<le> th_fails t0" using health_invD [OF inv t0] by (simp add: target_ok_def)
    moreover have "\<exists>t'. map_of (hm_targets (?run (?run h rs) [a, b, c])) (u_string u) = Some t' \<and> th_fails t' = th_fails t0 + int (length [a, b, c])"
    proof (rule rounds_down_fails [OF inv _ t0])
      have "length (hm_targets (?run h rs)) = length (hm_targets h)" by (rule len) auto
      with that(1) assms(2) show "\<forall>r \<in> set [a, b, c]. length (hm_targets (?run h rs)) \<le> pb_until r \<and> round_down stext r" by simp
    qed
    ultimately show ?thesis using that(2) by (auto simp: h')
  qed
  have up: "th_healthy t'" if "round_up stext c" "map_of (hm_targets h') (u_string u) = Some t'" for t'
  proof -
    have "h' = fst (run_round stext c (?run h (rs @ [a, b])))" by (simp add: h')
    moreover have "length (hm_targets (?run h (rs @ [a, b]))) = length (hm_targets h)" by (rule len) auto
    then have "length (hm_targets (?run h (rs @ [a, b]))) \<le> pb_until c" using assms(2) by simp
    ultimately show ?thesis
      using that run_round_targets [OF inv [of "rs @ [a, b]"], of c stext "u_string u"]
      by (auto simp: probe_update_healthy round_up_target dest!: sym [of "Some t'"])
  qed
  obtain t' where t': "map_of (hm_targets h') (u_string u) = Some t'" using found [of "rs @ [a, b, c]"] by (auto simp: h')
  have "th_healthy t' \<longleftrightarrow> th_fails t' < 3" using health_invD [OF inv t' [unfolded h']] by (simp add: target_ok_def)
  with down [OF _ t'] up [OF _ t'] t' show ?thesis
    by (auto simp: is_healthy_def is_circuit_broken_def)
qed

text \<open>
  the exit code is honest about the start, not about the shutdown: it is 0 exactly when the
  configuration was read and both ports could be bound; then everything was started before the signal,
  the context was cancelled before anything was stopped, and each server, the hub and the watcher were
  stopped. Otherwise it is 1, nothing is stopped, and the last thing printed is the error.
\<close>

theorem exit_code_reports_start:
  assumes "main_run env getenv fl listen proxy_err dashboard_err = (events, code)"
  shows "(code = 0 \<longleftrightarrow> (\<exists>cfg. main_config env getenv fl = Inr cfg \<and> listen (proxy_addr cfg) = None \<and> listen (dashboard_addr cfg) = None))
    \<and> (code = 0 \<longrightarrow> (\<exists>cfg acts notice.
         main_config env getenv fl = Inr cfg \<and> start_app listen cfg = (acts, None)
         \<and> events = map Started acts @ [Signalled, Printed notice, ContextCancelled, Stopped StopProxy, Stopped StopDashboard, Stopped CloseHub]
             @ (if RunDocker (dc_socket_path (cf_docker cfg)) (dc_mode (cf_docker cfg)) (dc_auto_route_all (cf_docker cfg)) \<in> set acts
                then [Stopped StopDocker] else []) @ [Stopped AwaitWorkers, last events]))
    \<and> (code \<noteq> 0 \<longrightarrow> code = 1 \<and> (\<forall>stop. Stopped stop \<notin> set events) \<and> (\<exists>line. last events = Printed line))"
proof (cases "main_config env getenv fl")
  case (Inl err)
  with assms show ?thesis by (auto simp: main_run_def)
next
  case (Inr cfg)
  obtain acts res where start: "start_app listen cfg = (acts, res)" by (rule prod.exhaust)
  have res: "res = None \<longleftrightarrow> listen (proxy_addr cfg) = None \<and> listen (dashboard_addr cfg) = None"
    using start by (auto simp: start_app_def Let_def split: option.splits)
  have docker: "RunDocker (dc_socket_path (cf_docker cfg)) (dc_mode (cf_docker cfg)) (dc_auto_route_all (cf_docker cfg)) \<in> set acts
      \<longleftrightarrow> dc_enabled (cf_docker cfg)"
    using start by (auto simp: start_app_def start_workers_def Let_def split: option.splits)
  show ?thesis
  proof (cases res)
    case None
    with assms Inr start have run: "code = 0" "events = map Started acts
        @ [Signalled, Printed (new_line @ col_yellow @ stop_sign @ '' Shutting down DevHub mesh gracefully...'' @ col_reset @ new_line), ContextCancelled]
        @ map Stopped (fst (shutdown_app True True (dc_enabled (cf_docker cfg)) proxy_err dashboard_err))
        @ [Printed (col_green @ sparkles @ '' DevHub stopped successfully.'' @ col_reset @ new_line)]"
      by (simp_all add: main_run_def)
    from res None Inr start docker show ?thesis unfolding run by (auto simp: shutdown_app_def)
  next
    case (Some err)
    with assms Inr start have "code = 1" "events = map Started acts
        @ [Printed (col_red @ cross_mark @ '' Application startup error: '' @ err @ col_reset @ new_line)]"
      by (simp_all add: main_run_def)
    with res Some Inr show ?thesis by auto
  qed
qed

section \<open>Witnesses\<close>

definition down_round :: probe_round where
  "down_round = \<lparr>pb_http = (\<lambda>_. ClientError ''refused''), pb_dial = (\<lambda>_. DialError ''refused''), pb_clock = (\<lambda>_. (5, 1)),
     pb_until = 1\<rparr>"

theorem probing_follows_network_witness:
  "\<not> is_healthy (Some sample_upstream)
     (fst (probe_loop (\<lambda>_. []) down_round (map Tick [down_round, down_round])
        (register_target (Some sample_upstream) [] new_health_monitor)))"
proof -
  let ?h = "register_target (Some sample_upstream) [] new_health_monitor"
  have inv: "health_inv ?h"
    using health_inv_step [OF health_inv_new, of "\<lambda>_. []" "Register (Some sample_upstream) []"] by simp
  obtain t where t: "map_of (hm_targets ?h) (u_string sample_upstream) = Some t"
    by (simp add: register_target_def new_health_monitor_def)
  have "length (hm_targets ?h) = 1" by (simp add: register_target_def new_health_monitor_def)
  then have "\<forall>r \<in> set ([] @ [down_round, down_round, down_round]). length (hm_targets ?h) \<le> pb_until r"
    by (simp add: down_round_def)
  from probing_follows_network [OF inv this t, of down_round "[down_round, down_round]" "\<lambda>_. []"] show ?thesis
    by (simp add: round_down_def down_round_def)
qed

definition plain_flags :: flags where
  "plain_flags = \<lparr>fl_config = [], fl_port = 0, fl_dashboard = 0, fl_dashboard_host = [], fl_dashboard_token = [],
     fl_circuit_breaker = False, fl_no_docker = False, fl_tunnel = False\<rparr>"

theorem exit_code_reports_start_witness:
  "\<exists>events. main_run sample_config_env (\<lambda>_. []) plain_flags (\<lambda>_. None) None None = (events, 0)"
proof -
  obtain events code where run: "main_run sample_config_env (\<lambda>_. []) plain_flags (\<lambda>_. None) None None = (events, code)"
    by (rule prod.exhaust)
  have "config_path (\<lambda>_. []) plain_flags = []" by (simp add: config_path_def plain_flags_def)
  then have "\<exists>cfg. main_config sample_config_env (\<lambda>_. []) plain_flags = Inr cfg"
    by (simp add: main_config_def sample_load)
  with exit_code_reports_start [OF run] run show ?thesis by auto
qed

end
