(* ===== verification/Cockpit_Markup.thy ===== *)
theory Cockpit_Markup
  imports Redactor Complex_Main
begin

text \<open>
  What the dashboard page (the script of src/pkg/ui/embedded.go) writes into its document: HTML text with
  the page's own escaping, values printed by \<open>JSON.stringify\<close>, and the fragments of its lists and
  panels. A JavaScript string is the sequence of its UTF-8 bytes; every character the script looks
  for is one byte.
\<close>

section \<open>Printing JSON values\<close>

text \<open>A number is kept as the text JavaScript prints for it.\<close>

definition line_feed :: char where "line_feed = char_of (10 :: nat)"

definition json_char :: "char \<Rightarrow> string" where
  "json_char c =
     (let n = of_char c :: nat
      in if c = CHR ''\"'' then [backslash, c]
         else if c = backslash then [backslash, backslash]
         else if n = 8 then backslash # ''b''
         else if n = 9 then backslash # ''t''
         else if n = 10 then backslash # ''n''
         else if n = 12 then backslash # ''f''
         else if n = 13 then backslash # ''r''
         else if n < 32 then backslash # ''u00'' @ [hex_digit (n div 16), hex_digit n]
         else [c])"

definition json_string :: "string \<Rightarrow> string" where
  "json_string s = ''\"'' @ concat (map json_char s) @ ''\"''"

text \<open>\<open>JSON.stringify(v)\<close> and \<open>JSON.stringify(v, null, 2)\<close> at nesting depth \<open>n\<close>.\<close>

fun json_text :: "json \<Rightarrow> string" and json_elements :: "json list \<Rightarrow> string list"
  and json_members :: "(string \<times> json) list \<Rightarrow> string list" where
  "json_text JNull = ''null''"
| "json_text (JBool b) = (if b then ''true'' else ''false'')"
| "json_text (JNum n) = n"
| "json_text (JStr s) = json_string s"
| "json_text (JArr vs) = ''['' @ join_with '','' (json_elements vs) @ '']''"
| "json_text (JObj kvs) = ''{'' @ join_with '','' (json_members kvs) @ ''}''"
| "json_elements [] = []"
| "json_elements (v # vs) = json_text v # json_elements vs"
| "json_members [] = []"
| "json_members ((k, v) # kvs) = (json_string k @ '':'' @ json_text v) # json_members kvs"

definition indent :: "nat \<Rightarrow> string" where
  "indent n = line_feed # replicate (2 * n) CHR '' ''"

fun json_pretty :: "nat \<Rightarrow> json \<Rightarrow> string" and pretty_elements :: "nat \<Rightarrow> json list \<Rightarrow> string list"
  and pretty_members :: "nat \<Rightarrow> (string \<times> json) list \<Rightarrow> string list" where
  "json_pretty n JNull = ''null''"
| "json_pretty n (JBool b) = (if b then ''true'' else ''false'')"
| "json_pretty n (JNum t) = t"
| "json_pretty n (JStr s) = json_string s"
| "json_pretty n (JArr vs) =
     (if vs = [] then ''[]''
      else ''['' @ join_with '','' (pretty_elements (Suc n) vs) @ indent n @ '']'')"
| "json_pretty n (JObj kvs) =
     (if kvs = [] then ''{}''
      else ''{'' @ join_with '','' (pretty_members (Suc n) kvs) @ indent n @ ''}'')"
| "pretty_elements n [] = []"
| "pretty_elements n (v # vs) = (indent n @ json_pretty n v) # pretty_elements n vs"
| "pretty_members n [] = []"
| "pretty_members n ((k, v) # kvs) = (indent n @ json_string k @ '': '' @ json_pretty n v) # pretty_members n kvs"

text \<open>A Go map of headers as it arrives: the nil map is \<open>null\<close>.\<close>

type_synonym js_headers = "(string \<times> string) list option"

definition headers_json :: "js_headers \<Rightarrow> json" where
  "headers_json hs = (case hs of None \<Rightarrow> JNull | Some kvs \<Rightarrow> JObj (map (\<lambda>(k, v). (k, JStr v)) kvs))"

section \<open>Escaping\<close>

definition replace_char :: "char \<Rightarrow> string \<Rightarrow> string \<Rightarrow> string" where
  "replace_char c rep s = concat (map (\<lambda>d. if d = c then rep else [d]) s)"

definition escape_html :: "string \<Rightarrow> string" where
  "escape_html s =
     (if s = [] then []
      else replace_char CHR ''\"'' ''&quot;''
             (replace_char CHR ''>'' ''&gt;''
               (replace_char CHR ''<'' ''&lt;'' (replace_char CHR ''&'' ''&amp;'' s))))"

definition alphanumeric :: "char \<Rightarrow> bool" where
  "alphanumeric c \<longleftrightarrow>
     (let n = of_char c :: nat in 48 \<le> n \<and> n \<le> 57 \<or> 65 \<le> n \<and> n \<le> 90 \<or> 97 \<le> n \<and> n \<le> 122)"

definition sanitize_id :: "string \<Rightarrow> string" where
  "sanitize_id s = map (\<lambda>c. if alphanumeric c then c else CHR ''_'') s"

text \<open>\<open>JSON.parse\<close> is the argument \<open>parse\<close>.\<close>

definition format_json :: "(string \<Rightarrow> json option) \<Rightarrow> string \<Rightarrow> string" where
  "format_json parse s =
     (case parse s of Some v \<Rightarrow> escape_html (json_pretty 0 v) | None \<Rightarrow> escape_html s)"

section \<open>What a frame carries\<close>

record trace_view =
  tv_trace_id :: string
  tv_timestamp :: string
  tv_method :: string
  tv_path :: string
  tv_target :: string
  tv_status :: int
  tv_duration :: int
  tv_req_headers :: js_headers
  tv_resp_headers :: js_headers
  tv_request_body :: string
  tv_response_body :: string

record log_view =
  lv_container :: string
  lv_stream :: string
  lv_message :: string
  lv_timestamp :: string

text \<open>The fields of a health target, a mock rule and a replay answer that the page reads.\<close>

record health_view =
  hv_url :: string
  hv_host :: string
  hv_healthy :: bool
  hv_latency :: int

record rule_view =
  uv_prefix :: string
  uv_mode :: string
  uv_status :: int
  uv_enabled :: bool

record reply_view =
  yv_status :: int
  yv_duration :: int
  yv_headers :: js_headers
  yv_body :: string

section \<open>The trace list\<close>

definition badge_class :: "int \<Rightarrow> string" where
  "badge_class code =
     (if 500 \<le> code then ''badge-5xx'' else if 400 \<le> code then ''badge-4xx''
      else if 300 \<le> code then ''badge-3xx'' else ''badge-2xx'')"

definition latency_class :: "int \<Rightarrow> string" where
  "latency_class ms =
     (if ms < 100 then ''text-emerald-400'' else if ms < 500 then ''text-yellow-400'' else ''text-rose-400'')"

definition trace_item :: "trace_view \<Rightarrow> string" where
  "trace_item ev =
     ''<div class=\"flex items-center justify-between mb-1\">'' @
       ''<div class=\"flex items-center space-x-2\">'' @
         ''<span class=\"px-1.5 py-0.5 rounded text-[10px] font-bold font-mono '' @ badge_class (tv_status ev) @ ''\">''
           @ dec_of_int (tv_status ev) @ ''</span>'' @
         ''<span class=\"font-bold text-slate-200 text-xs font-mono\">'' @ tv_method ev @ ''</span>'' @
       ''</div>'' @
       ''<span class=\"text-[10px] font-mono '' @ latency_class (tv_duration ev) @ ''\">'' @ dec_of_int (tv_duration ev) @ ''ms</span>'' @
     ''</div>'' @
     ''<div class=\"text-xs text-cyan-400 truncate font-mono mb-1\">'' @ escape_html (tv_path ev) @ ''</div>'' @
     ''<div class=\"flex items-center justify-between text-[10px] text-slate-500\">'' @
       ''<span class=\"truncate max-w-[130px] font-mono\">'' @ escape_html (tv_target ev) @ ''</span>'' @
       ''<span class=\"font-mono\">'' @ tv_timestamp ev @ ''</span>'' @
     ''</div>''"

section \<open>The inspection panel\<close>

text \<open>The script behind a copy button: its text argument in single quotes.\<close>

definition copy_script :: "string \<Rightarrow> string" where
  "copy_script t = ''copyToClip('' @ [CHR 0x27] @ t @ [CHR 0x27] @ '')''"

definition copy_button :: "string \<Rightarrow> string" where
  "copy_button t =
     ''<button onclick=\"'' @ copy_script (escape_html t) @
     ''\" class=\"text-[10px] text-slate-400 hover:text-cyan-400\"><i class=\"fa-solid fa-copy mr-1\"></i>Copy</button>''"

definition panel_title :: "string \<Rightarrow> string" where
  "panel_title t = ''<h3 class=\"font-bold text-slate-400 text-[10px] uppercase tracking-wider\">'' @ t @ ''</h3>''"

definition headers_panel :: "string \<Rightarrow> js_headers \<Rightarrow> string" where
  "headers_panel title hs =
     ''<div>'' @
       ''<div class=\"flex justify-between items-center mb-1\">'' @ panel_title title
         @ copy_button (json_text (headers_json hs)) @
       ''</div>'' @
       ''<pre class=\"bg-slate-950/90 p-2.5 rounded-lg border border-slate-800 text-[11px] overflow-x-auto text-slate-300 font-mono shadow-inner\">''
         @ json_pretty 0 (headers_json hs) @ ''</pre>'' @
     ''</div>''"

definition body_panel :: "(string \<Rightarrow> json option) \<Rightarrow> string \<Rightarrow> string \<Rightarrow> string \<Rightarrow> string" where
  "body_panel parse title pre_class body =
     (if body = [] then []
      else ''<div>'' @
       ''<div class=\"flex justify-between items-center mb-1\">'' @ panel_title title @ copy_button body @
       ''</div>'' @
       ''<pre class=\"bg-slate-950/90 p-2.5 rounded-lg border border-slate-800 text-[11px] '' @ pre_class @ ''\">''
         @ format_json parse body @ ''</pre>'' @
     ''</div>'')"

definition detail_html :: "(string \<Rightarrow> json option) \<Rightarrow> trace_view \<Rightarrow> string" where
  "detail_html parse ev =
     ''<div class=\"grid grid-cols-2 md:grid-cols-4 gap-2 bg-slate-950/90 p-3 rounded-lg border border-slate-800 shadow-inner\">'' @
       ''<div><span class=\"text-slate-500 text-[10px] block uppercase\">Trace ID</span><span class=\"text-purple-400 font-bold\">''
         @ tv_trace_id ev @ ''</span></div>'' @
       ''<div><span class=\"text-slate-500 text-[10px] block uppercase\">Duration</span><span class=\"text-emerald-400 font-bold\">''
         @ dec_of_int (tv_duration ev) @ '' ms</span></div>'' @
       ''<div><span class=\"text-slate-500 text-[10px] block uppercase\">Status</span><span class=\"font-bold\">''
         @ dec_of_int (tv_status ev) @ ''</span></div>'' @
       ''<div><span class=\"text-slate-500 text-[10px] block uppercase\">Time</span><span>'' @ tv_timestamp ev @ ''</span></div>'' @
     ''</div>'' @
     ''<div class=\"bg-slate-950/90 p-2.5 rounded-lg border border-slate-800 text-[11px] shadow-inner\">'' @
       ''<span class=\"text-slate-500 text-[10px] block uppercase mb-1\">Upstream Target</span>'' @
       ''<span class=\"text-cyan-400 font-mono\">'' @ escape_html (tv_target ev) @ ''</span>'' @
     ''</div>'' @
     headers_panel ''Request Headers'' (tv_req_headers ev) @
     body_panel parse ''Request Body'' ''text-emerald-400 overflow-x-auto max-h-48 font-mono shadow-inner'' (tv_request_body ev) @
     headers_panel ''Response Headers'' (tv_resp_headers ev) @
     body_panel parse ''Response Body'' ''text-sky-400 overflow-x-auto max-h-56 font-mono shadow-inner'' (tv_response_body ev)"

section \<open>Health pills, mock rules, log lines\<close>

definition pill_class :: "health_view \<Rightarrow> string" where
  "pill_class t =
     ''px-2 py-0.5 rounded border flex items-center space-x-1.5 text-[10px] flex-shrink-0 shadow-sm cursor-pointer '' @
     (if hv_healthy t then ''bg-emerald-950/80 text-emerald-300 border-emerald-700/60''
      else ''bg-rose-950/80 text-rose-300 border-rose-700/60'')"

definition pill_html :: "health_view \<Rightarrow> string" where
  "pill_html t =
     ''<span class=\"h-1.5 w-1.5 rounded-full '' @ (if hv_healthy t then ''bg-emerald-400'' else ''bg-rose-500'') @ ''\"></span>'' @
     ''<span class=\"font-bold font-mono\">'' @ escape_html (hv_host t) @ ''</span>'' @
     ''<span class=\"text-[9px] opacity-75\">'' @ dec_of_int (hv_latency t) @ ''ms</span>''"

definition pill_id :: "string \<Rightarrow> string" where
  "pill_id host = ''health-pill-'' @ sanitize_id host"

definition bullet :: string where "bullet = map char_of [226, 128, 162 :: nat]"

definition pill_title :: "health_view \<Rightarrow> string" where
  "pill_title t = hv_url t @ '' '' @ bullet @ '' Last latency: '' @ dec_of_int (hv_latency t) @ ''ms''"

definition rule_item :: "rule_view \<Rightarrow> string" where
  "rule_item m =
     ''<div>'' @
       ''<span class=\"font-bold text-emerald-400 font-mono\">'' @ escape_html (uv_prefix m) @ ''</span>'' @
       ''<span class=\"text-[10px] text-slate-500 block\">Mode: '' @ uv_mode m @ '' ('' @ dec_of_int (uv_status m) @ '')</span>'' @
     ''</div>'' @
     ''<button onclick=\"toggleMock('' @ [CHR 0x27] @ escape_html (uv_prefix m) @ [CHR 0x27] @ '', ''
       @ (if uv_enabled m then ''false'' else ''true'') @ '')\" class=\"px-2 py-0.5 rounded text-[10px] font-bold ''
       @ (if uv_enabled m then ''bg-emerald-900 text-emerald-300 border border-emerald-700'' else ''bg-slate-800 text-slate-500'') @ ''\">'' @
       (if uv_enabled m then ''MOCK ON'' else ''OFF'') @
     ''</button>''"

definition no_rules :: string where
  "no_rules = ''<span class=\"text-slate-600 text-xs\">No active mock rules configured.</span>''"

definition log_line :: "log_view \<Rightarrow> string" where
  "log_line entry =
     ''<span class=\"text-slate-600 text-[10px]\">'' @ lv_timestamp entry @ ''</span>'' @
     ''<span class=\"text-sky-400 text-[10px] font-bold\">['' @ escape_html (lv_container entry) @ '']</span>'' @
     ''<span class=\"'' @ (if lv_stream entry = ''stderr'' then ''text-rose-400'' else ''text-slate-300'') @ ''\">''
       @ escape_html (lv_message entry) @ ''</span>''"

section \<open>The replay answer\<close>

definition reply_badge :: "reply_view \<Rightarrow> string" where
  "reply_badge res =
     ''<span class=\"px-2 py-0.5 rounded text-xs font-bold font-mono '' @
     (if 500 \<le> yv_status res then ''badge-5xx'' else if 400 \<le> yv_status res then ''badge-4xx'' else ''badge-2xx'') @ ''\">'' @
     dec_of_int (yv_status res) @ '' ('' @ dec_of_int (yv_duration res) @ ''ms)</span>''"

definition reply_html :: "(string \<Rightarrow> json option) \<Rightarrow> reply_view \<Rightarrow> string" where
  "reply_html parse res =
     ''<div><h4 class=\"text-slate-400 text-[10px] uppercase font-bold mb-1\">Response Headers</h4>'' @
     ''<pre class=\"bg-slate-950 p-2 rounded border border-slate-800\">'' @ json_pretty 0 (headers_json (yv_headers res)) @ ''</pre></div>'' @
     ''<div><h4 class=\"text-slate-400 text-[10px] uppercase font-bold mb-1\">Response Body</h4>'' @
     ''<pre class=\"bg-slate-950 p-2 rounded border border-slate-800 text-sky-400 max-h-72 overflow-x-auto\">''
       @ format_json parse (yv_body res) @ ''</pre></div>''"

section \<open>The waterfall\<close>

text \<open>
  Widths are exact rationals here; the page computes them in doubles, and \<open>show_number\<close> is how
  JavaScript prints a number. A longest duration of 0 counts as 1; no span, no longest duration.
\<close>

definition max_duration :: "trace_view list \<Rightarrow> int" where
  "max_duration related =
     (case map tv_duration related of
        [] \<Rightarrow> 1
      | d # ds \<Rightarrow> (let m = foldl max d ds in if m = 0 then 1 else m))"

definition bar_width :: "int \<Rightarrow> int \<Rightarrow> rat" where
  "bar_width duration longest = max 10 (of_int duration / of_int longest * 100)"

definition hop_html :: "(rat \<Rightarrow> string) \<Rightarrow> int \<Rightarrow> trace_view \<Rightarrow> string" where
  "hop_html show_number longest t =
     ''<div class=\"bg-slate-950/80 p-2.5 rounded-lg border border-slate-800 font-mono text-xs shadow-sm\">'' @
       ''<div class=\"flex justify-between items-center mb-1.5\">'' @
         ''<span class=\"font-bold text-cyan-400\">'' @ tv_method t @ '' '' @ escape_html (tv_path t) @ ''</span>'' @
         ''<span class=\"text-slate-400 font-bold\">'' @ dec_of_int (tv_duration t) @ '' ms</span>'' @
       ''</div>'' @
       ''<div class=\"w-full bg-slate-900 h-2 rounded-full overflow-hidden mb-1\">'' @
         ''<div class=\"bg-gradient-to-r from-cyan-500 via-sky-400 to-indigo-500 h-full rounded-full\" style=\"width: ''
           @ show_number (bar_width (tv_duration t) longest) @ ''%\"></div>'' @
       ''</div>'' @
       ''<div class=\"text-[10px] text-slate-500 flex justify-between\">'' @
         ''<span>Target: '' @ escape_html (tv_target t) @ ''</span>'' @
         ''<span>Status: '' @ dec_of_int (tv_status t) @ ''</span>'' @
       ''</div>'' @
     ''</div>''"

definition waterfall_html :: "(rat \<Rightarrow> string) \<Rightarrow> trace_view list \<Rightarrow> string \<Rightarrow> string" where
  "waterfall_html show_number traces trace_id =
     (let related = filter (\<lambda>t. tv_trace_id t = trace_id) traces
      in if related = []
         then ''<div class=\"text-slate-500 text-xs text-center mt-12 font-mono\">No related sub-spans found for Trace ID: '' @ trace_id @ ''</div>''
         else ''<div class=\"bg-slate-950/90 p-3 rounded-lg border border-slate-800 mb-3 shadow-inner\">'' @
              ''<span class=\"text-purple-400 font-bold text-xs font-mono\">Trace ID: '' @ trace_id @ ''</span> (''
              @ dec_of_nat (length related) @ '' hops recorded)'' @
              ''</div><div class=\"space-y-2.5\">'' @
              concat (map (hop_html show_number (max_duration related)) related) @
              ''</div>'')"

section \<open>The curl command\<close>

text \<open>The body's quotes are escaped with a backslash, header values and path with nothing.\<close>

definition curl_command :: "trace_view \<Rightarrow> string" where
  "curl_command t =
     ''curl -X '' @ tv_method t @ '' \"http://localhost:4000'' @ tv_path t @ ''\"'' @
     (case tv_req_headers t of None \<Rightarrow> []
      | Some hs \<Rightarrow> concat (map (\<lambda>(k, v). '' -H \"'' @ k @ '': '' @ v @ ''\"'') hs)) @
     (if tv_request_body t = [] then []
      else '' -d '' @ [CHR 0x27] @ replace_char CHR 0x27 [backslash, CHR 0x27] (tv_request_body t) @ [CHR 0x27])"

end
