(* ===== verification/Cockpit_Escaping.thy ===== *)
theory Cockpit_Escaping
  imports Cockpit_Markup
begin

text \<open>
  What the page's escaping achieves and where it is missing: escaped fields add no markup, header
  values and trace ids do; what the scripts of the copy buttons and the copied curl command read back.
\<close>

section \<open>Escaped text\<close>



definition escape_html_char :: "char \<Rightarrow> string" where
  "escape_html_char c =
     (if c = CHR ''&'' then ''&amp;'' else if c = CHR ''<'' then ''&lt;''
      else if c = CHR ''>'' then ''&gt;'' else if c = CHR ''\"'' then ''&quot;'' else [c])"

text \<open>The four replacements one after the other are one pass over the text.\<close>

lemma escape_html_pass: "escape_html s = concat (map escape_html_char s)"
proof (induction s)
  case (Cons c s)
  then show ?case
    by (cases "s = []") (auto simp: escape_html_def replace_char_def escape_html_char_def)
qed (simp add: escape_html_def)

lemma escape_html_Nil [simp]: "escape_html [] = []"
  by (simp add: escape_html_pass)

lemma escape_html_Cons [simp]: "escape_html (c # s) = escape_html_char c @ escape_html s"
  by (simp add: escape_html_pass)



text \<open>How a browser decodes the entities the page writes.\<close>

definition entities :: "(string \<times> char) list" where
  "entities = [(''&amp;'', CHR ''&''), (''&lt;'', CHR ''<''), (''&gt;'', CHR ''>''), (''&quot;'', CHR ''\"'')]"

function html_decode :: "string \<Rightarrow> string" where
  "html_decode s =
     (case s of
        [] \<Rightarrow> []
      | c # s' \<Rightarrow>
          (case find (\<lambda>(e, d). has_prefix s e) entities of
             Some (e, d) \<Rightarrow> d # html_decode (drop (length e) s)
           | None \<Rightarrow> c # html_decode s'))"
  by pat_completeness auto
termination
proof (relation "measure length", goal_cases)
  case (3 s c s' x e d)
  then have "(e, d) \<in> set entities" by (metis find_Some_iff nth_mem)
  then have "e \<noteq> []" by (auto simp: entities_def)
  with 3 show ?case by (cases e) auto
qed auto

declare html_decode.simps [simp del]

lemma html_decode_Nil [simp]: "html_decode [] = []"
  by (simp add: html_decode.simps)

lemma html_decode_plain: "c \<noteq> CHR ''&'' \<Longrightarrow> html_decode (c # s) = c # html_decode s"
  by (subst html_decode.simps) (simp add: entities_def)

lemma html_decode_char: "html_decode (escape_html_char c @ s) = c # html_decode s"
proof (cases "c \<in> {CHR ''&'', CHR ''<'', CHR ''>'', CHR ''\"''}")
  case True
  then show ?thesis by (subst html_decode.simps) (auto simp: escape_html_char_def entities_def)
next
  case False
  then show ?thesis by (simp add: escape_html_char_def html_decode_plain)
qed

lemma html_decode_escape: "html_decode (escape_html s @ t) = s @ html_decode t"
  by (induction s) (simp_all add: html_decode_char)

lemma html_decode_text: "CHR ''&'' \<notin> set s \<Longrightarrow> html_decode (s @ t) = s @ html_decode t"
  by (induction s) (auto simp: html_decode_plain)

section \<open>Printed values\<close>

text \<open>A text that \<open>JSON.stringify\<close> prints as it is.\<close>

definition json_plain :: "string \<Rightarrow> bool" where
  "json_plain s \<longleftrightarrow> list_all (\<lambda>c. c \<noteq> CHR ''\"'' \<and> c \<noteq> backslash \<and> 32 \<le> (of_char c :: nat)) s"

lemma json_plain_string: "json_plain s \<Longrightarrow> json_string s = ''\"'' @ s @ ''\"''"
proof -
  have "json_char c = [c]" if "c \<noteq> CHR ''\"''" "c \<noteq> backslash" "32 \<le> (of_char c :: nat)" for c
    using that by (simp add: json_char_def Let_def)
  then have "json_plain s \<Longrightarrow> concat (map json_char s) = s"
    by (induction s) (simp_all add: json_plain_def)
  then show "json_plain s \<Longrightarrow> ?thesis" by (simp add: json_string_def)
qed

lemma join_with_member: "x \<in> set xs \<Longrightarrow> \<exists>a b. join_with sep xs = a @ x @ b"
proof (induction sep xs rule: join_with.induct)
  case (2 sep y)
  then show ?case by (intro exI [of _ "[]"]) simp
next
  case (3 sep y z ys)
  show ?case
  proof (cases "x = y")
    case True
    then have "join_with sep (y # z # ys) = [] @ x @ (sep @ join_with sep (z # ys))" by simp
    then show ?thesis by blast
  next
    case False
    with 3 obtain a b where "join_with sep (z # ys) = a @ x @ b" by auto
    then have "join_with sep (y # z # ys) = (y @ sep @ a) @ x @ b" by simp
    then show ?thesis by blast
  qed
qed simp

lemma pretty_members_member:
  "(k, v) \<in> set kvs \<Longrightarrow> indent n @ json_string k @ '': '' @ json_pretty n v \<in> set (pretty_members n kvs)"
  by (induction kvs) auto

lemma header_printed:
  assumes "(k, v) \<in> set hs" "json_plain v"
  shows "\<exists>a b. json_pretty n (headers_json (Some hs)) = a @ v @ b"
proof -
  let ?kvs = "map (\<lambda>(k, v). (k, JStr v)) hs"
  have "(k, JStr v) \<in> set ?kvs" using assms(1) by force
  from join_with_member [OF pretty_members_member [OF this, of "Suc n"], of "'',''"] obtain a b where
    "join_with '','' (pretty_members (Suc n) ?kvs)
       = a @ (indent (Suc n) @ json_string k @ '': '' @ json_pretty (Suc n) (JStr v)) @ b" by blast
  moreover have "?kvs \<noteq> []" using assms(1) by auto
  ultimately have "json_pretty n (headers_json (Some hs))
      = (''{'' @ a @ indent (Suc n) @ json_string k @ '': '' @ ''\"'') @ v @ (''\"'' @ b @ indent n @ ''}'')"
    by (simp add: headers_json_def json_plain_string [OF assms(2)])
  then show ?thesis by blast
qed

section \<open>Reading scripts and commands back\<close>

text \<open>
  The rest of a JavaScript literal in single quotes, with the text behind it; \<open>None\<close> if it has an escape
  sequence or a line end, or does not end.
\<close>

fun js_literal :: "string \<Rightarrow> (string \<times> string) option" where
  "js_literal [] = None"
| "js_literal (c # s) =
     (if c = CHR 0x27 then Some ([], s)
      else if c = backslash \<or> c = line_feed \<or> c = char_of (13 :: nat) then None
      else map_option (\<lambda>(t, rest). (c # t, rest)) (js_literal s))"

definition script_plain :: "string \<Rightarrow> bool" where
  "script_plain t \<longleftrightarrow> list_all (\<lambda>c. c \<notin> {CHR 0x27, backslash, line_feed, char_of (13 :: nat)}) t"

lemma js_literal_plain: "script_plain t \<Longrightarrow> js_literal (t @ CHR 0x27 # rest) = Some (t, rest)"
  by (induction t) (simp_all add: script_plain_def)

text \<open>A word in single quotes as a shell reads it: up to the next quote, whatever stands before it.\<close>

definition shell_single :: "string \<Rightarrow> string \<times> string" where
  "shell_single s = (takeWhile (\<lambda>c. c \<noteq> CHR 0x27) s, drop 1 (dropWhile (\<lambda>c. c \<noteq> CHR 0x27) s))"

lemma replace_char_absent: "c \<notin> set s \<Longrightarrow> replace_char c rep s = s"
  by (induction s) (auto simp: replace_char_def)

lemma replace_char_append: "replace_char c rep (s @ t) = replace_char c rep s @ replace_char c rep t"
  by (simp add: replace_char_def)

lemma replace_char_Cons: "replace_char c rep (d # s) = (if d = c then rep else [d]) @ replace_char c rep s"
  by (simp add: replace_char_def)

lemma backslash_no_quote [simp]: "backslash \<noteq> CHR 0x27"
  by code_simp

lemma contains_first: "str_contains s v \<Longrightarrow> str_contains (s @ t) v"
  and contains_later: "str_contains t v \<Longrightarrow> str_contains (s @ t) v"
proof -
  show "str_contains s v \<Longrightarrow> str_contains (s @ t) v" unfolding str_contains_iff by (metis append.assoc)
  show "str_contains t v \<Longrightarrow> str_contains (s @ t) v" unfolding str_contains_iff by (metis append.assoc)
qed



section \<open>Properties\<close>


text \<open>
  C36: headers inject markup: the value of every recorded request header without quotes,
  backslashes and control characters is part of the inspection panel's HTML exactly as the client sent
  it, tags included; so is the value of a response header in the replay answer, and the trace id.
\<close>

theorem header_values_reach_markup:
  assumes "(k, v) \<in> set hs" "json_plain v"
  shows "str_contains (detail_html parse (ev\<lparr>tv_req_headers := Some hs\<rparr>)) v
    \<and> str_contains (reply_html parse (res\<lparr>yv_headers := Some hs\<rparr>)) v
    \<and> str_contains (detail_html parse (ev\<lparr>tv_trace_id := v\<rparr>)) v"
proof (intro conjI)
  have printed: "str_contains (json_pretty 0 (headers_json (Some hs))) v"
    using header_printed [OF assms] by (auto simp: str_contains_iff)
  have panel: "str_contains (headers_panel title (Some hs)) v" for title
    unfolding headers_panel_def by (rule contains_first, rule printed | rule contains_later)+
  show "str_contains (detail_html parse (ev\<lparr>tv_req_headers := Some hs\<rparr>)) v"
    by (cases ev, simp only: detail_html_def trace_view.simps) (rule contains_first, rule panel | rule contains_later)+
  show "str_contains (reply_html parse (res\<lparr>yv_headers := Some hs\<rparr>)) v"
    by (cases res, simp only: reply_html_def reply_view.simps) (rule contains_first, rule printed | rule contains_later)+
  have self: "str_contains v v" by (auto simp: str_contains_iff intro: exI [of _ "[]"])
  show "str_contains (detail_html parse (ev\<lparr>tv_trace_id := v\<rparr>)) v"
    by (cases ev, simp only: detail_html_def trace_view.simps) (rule contains_first, rule self | rule contains_later)+
qed

theorem header_values_reach_markup_witness:
  "str_contains (detail_html (\<lambda>_. None) \<lparr>tv_trace_id = ''t'', tv_timestamp = [], tv_method = ''GET'', tv_path = ''/'',
     tv_target = [], tv_status = 200, tv_duration = 1, tv_req_headers = Some [(''X'', ''<img src=x onerror=alert(1)>'')],
     tv_resp_headers = None, tv_request_body = [], tv_response_body = []\<rparr>) ''<img src=x onerror=alert(1)>''"
proof -
  let ?ev = "\<lparr>tv_trace_id = ''t'', tv_timestamp = [], tv_method = ''GET'', tv_path = ''/'',
     tv_target = [], tv_status = 200, tv_duration = 1, tv_req_headers = None,
     tv_resp_headers = None, tv_request_body = [], tv_response_body = []\<rparr>"
  have "json_plain ''<img src=x onerror=alert(1)>''" by code_simp
  from header_values_reach_markup [OF _ this, of "''X''" "[(''X'', ''<img src=x onerror=alert(1)>'')]" "\<lambda>_. None" ?ev]
  show ?thesis by (simp only: list.set_intros trace_view.simps simp_thms)
qed

text \<open>
  the copy button of a text hands exactly that text to the clipboard unless it has a single
  quote, a backslash or a line end; what follows the first single quote is run as script.
\<close>

theorem copy_button_reads_back:
  "html_decode (copy_script (escape_html t)) = copy_script t
   \<and> (script_plain t \<longrightarrow> js_literal (drop 12 (copy_script t)) = Some (t, '')''))
   \<and> (script_plain t \<longrightarrow> js_literal (drop 12 (copy_script (t @ CHR 0x27 # code))) = Some (t, code @ CHR 0x27 # '')''))"
proof (intro conjI impI)
  show "html_decode (copy_script (escape_html t)) = copy_script t"
    by (simp add: copy_script_def html_decode_plain html_decode_escape)
qed (simp_all add: copy_script_def js_literal_plain)

theorem copy_button_reads_back_witness:
  "js_literal (drop 12 (copy_script (''x'' @ CHR 0x27 # '');alert(1)//''))) = Some (''x'', '');alert(1)//'' @ CHR 0x27 # '')'')"
proof -
  have "script_plain ''x''" by code_simp
  with copy_button_reads_back [of "''x''" "'');alert(1)//''"] show ?thesis by simp
qed

text \<open>
  the copied curl command carries the body as recorded exactly when the body has no single
  quote: a shell knows no escape inside single quotes, so it takes the argument to end at the first
  one, with a backslash appended, and reads the rest of the body as further words of the command.
\<close>

theorem curl_body_quoting:
  assumes "tv_request_body t \<noteq> []"
  shows "\<exists>cmd arg. curl_command t = cmd @ '' -d '' @ CHR 0x27 # arg
    \<and> (shell_single arg = (tv_request_body t, []) \<longleftrightarrow> CHR 0x27 \<notin> set (tv_request_body t))
    \<and> (\<forall>a b. tv_request_body t = a @ CHR 0x27 # b \<and> CHR 0x27 \<notin> set a \<longrightarrow> fst (shell_single arg) = a @ [backslash])"
proof -
  let ?arg = "replace_char CHR 0x27 [backslash, CHR 0x27] (tv_request_body t) @ [CHR 0x27]"
  have cmd: "\<exists>cmd. curl_command t = cmd @ '' -d '' @ CHR 0x27 # ?arg"
    using assms by (simp add: curl_command_def)
  have first: "fst (shell_single ?arg) = a @ [backslash]" if "tv_request_body t = a @ CHR 0x27 # b" "CHR 0x27 \<notin> set a" for a b
    using that by (simp add: shell_single_def replace_char_append replace_char_absent replace_char_Cons takeWhile_append)
  have "shell_single ?arg = (tv_request_body t, []) \<longleftrightarrow> CHR 0x27 \<notin> set (tv_request_body t)"
  proof
    assume "CHR 0x27 \<notin> set (tv_request_body t)"
    then show "shell_single ?arg = (tv_request_body t, [])"
      by (simp add: shell_single_def replace_char_absent takeWhile_append dropWhile_append)
  next
    assume eq: "shell_single ?arg = (tv_request_body t, [])"
    have "CHR 0x27 \<notin> set (fst (shell_single ?arg))" by (auto simp: shell_single_def dest: set_takeWhileD)
    with eq show "CHR 0x27 \<notin> set (tv_request_body t)" by simp
  qed
  with cmd first show ?thesis by blast
qed

theorem curl_body_quoting_witness:
  "\<exists>cmd arg. curl_command \<lparr>tv_trace_id = [], tv_timestamp = [], tv_method = ''POST'', tv_path = ''/'', tv_target = [],
     tv_status = 200, tv_duration = 1, tv_req_headers = None, tv_resp_headers = None,
     tv_request_body = ''a'' @ CHR 0x27 # '';id'', tv_response_body = []\<rparr> = cmd @ '' -d '' @ CHR 0x27 # arg
     \<and> fst (shell_single arg) = [CHR ''a'', backslash]"
proof -
  let ?t = "\<lparr>tv_trace_id = [], tv_timestamp = [], tv_method = ''POST'', tv_path = ''/'', tv_target = [],
     tv_status = 200, tv_duration = 1, tv_req_headers = None, tv_resp_headers = None,
     tv_request_body = ''a'' @ CHR 0x27 # '';id'', tv_response_body = []\<rparr>"
  obtain cmd arg where "curl_command ?t = cmd @ '' -d '' @ CHR 0x27 # arg"
    "\<forall>a b. tv_request_body ?t = a @ CHR 0x27 # b \<and> CHR 0x27 \<notin> set a \<longrightarrow> fst (shell_single arg) = a @ [backslash]"
    using curl_body_quoting [of ?t] by auto
  moreover from this(2) have "fst (shell_single arg) = ''a'' @ [backslash]"
    by (rule allE [of _ "''a''"]) simp
  ultimately show ?thesis by (metis append_Cons append_Nil)
qed

end
