(* ===== verification/Cockpit.thy ===== *)
theory Cockpit
  imports Cockpit_Markup Url_Query "HOL-Library.AList"
begin

text \<open>
  The dashboard page as a program: the state the script of src/pkg/ui/embedded.go keeps in its variables
  and in the document, one definition per function of the script, and the events a browser delivers to
  it. Requests, timers and the clipboard are the calls a step makes; their answers are events of
  their own. \<open>JSON.parse\<close>, Unicode case mapping and the printing of numbers are in \<open>page_env\<close>.
\<close>

section \<open>State\<close>

record replay_form =
  rf_method :: string
  rf_url :: string
  rf_headers :: string
  rf_body :: string
  rf_provider :: string
  rf_secret :: string
  rf_bypass :: bool

record mock_form =
  mf_prefix :: string
  mf_mode :: string
  mf_status :: string
  mf_enabled :: bool
  mf_body :: string

text \<open>\<open>pl_click\<close> is the text the pill's click handler puts into the mock form.\<close>

record pill =
  pl_id :: string
  pl_class :: string
  pl_title :: string
  pl_html :: string
  pl_click :: string

text \<open>
  The script's variables first, then what the document shows. An entry of the trace list goes with the
  trace its click handler selects; \<open>pg_probing\<close> is the placeholder in the health bar.
\<close>

record page =
  pg_traces :: "trace_view list"
  pg_filtered :: "trace_view list"
  pg_selected :: "trace_view option"
  pg_paused :: bool
  pg_status_filter :: string
  pg_logs :: "log_view list"
  pg_health :: "(string \<times> health_view) list"
  pg_mocks :: "rule_view list"
  pg_filter_text :: string
  pg_filter_buttons :: "(string \<times> string) list"
  pg_trace_list :: "(string \<times> trace_view) list"
  pg_event_count :: string
  pg_detail :: string
  pg_detail_class :: string
  pg_actions_hidden :: bool
  pg_ws_status :: string
  pg_console :: "string list"
  pg_probing :: bool
  pg_pills :: "pill list"
  pg_mock_list :: "string list"
  pg_waterfall :: string
  pg_tab :: string
  pg_pause_icon :: string
  pg_replay :: replay_form
  pg_replay_badge :: string
  pg_replay_answer :: string
  pg_mock_form :: mock_form

datatype page_call =
  Fetch string string "(string \<times> string) list" string
| OpenSocket string
| RetryIn int
| ToClipboard string
| AlertBox string

text \<open>
  What \<open>JSON.parse\<close> makes of a frame: its \<open>type\<close>, empty if it has none, and what each of the three
  branches reads of it. Everything that is neither a log line nor a health change is a trace.
\<close>

record payload =
  py_type :: string
  py_log :: log_view
  py_target :: health_view
  py_trace :: trace_view

datatype message = LogMessage log_view | HealthMessage health_view | TraceMessage trace_view

definition message_of :: "payload \<Rightarrow> message" where
  "message_of p =
     (if py_type p = ''log'' then LogMessage (py_log p)
      else if py_type p = ''health'' then HealthMessage (py_target p) else TraceMessage (py_trace p))"

record page_env =
  pe_token :: string
  pe_secure :: bool
  pe_host :: string
  pe_lower :: "string \<Rightarrow> string"
  pe_payload :: "string \<Rightarrow> payload option"
  pe_json :: "string \<Rightarrow> json option"
  pe_number :: "rat \<Rightarrow> string"

section \<open>Form controls\<close>

text \<open>
  What a control holds after an assignment to its \<open>value\<close>: a \<open>select\<close> only one of its options, a text
  area with normalised line ends, a text field without any.
\<close>

definition select_value :: "string list \<Rightarrow> string \<Rightarrow> string" where
  "select_value options v = (if v \<in> set options then v else [])"

definition carriage_return :: char where "carriage_return = char_of (13 :: nat)"

fun textarea_value :: "string \<Rightarrow> string" where
  "textarea_value [] = []"
| "textarea_value (c # s) =
     (if c = carriage_return
      then (case s of
              [] \<Rightarrow> [line_feed]
            | d # s' \<Rightarrow> if d = line_feed then textarea_value s else line_feed # textarea_value s)
      else c # textarea_value s)"

definition field_value :: "string \<Rightarrow> string" where
  "field_value s = filter (\<lambda>c. c \<noteq> line_feed \<and> c \<noteq> carriage_return) s"

definition replay_methods :: "string list" where
  "replay_methods = [''GET'', ''POST'', ''PUT'', ''DELETE'', ''PATCH'']"

definition replay_providers :: "string list" where
  "replay_providers = [[], ''stripe'', ''github'', ''razorpay'', ''shopify'', ''slack'']"

text \<open>The forms as the document states them; the line breaks are written as a backslash and an \<open>n\<close>.\<close>

definition raw_break :: string where "raw_break = [backslash, CHR ''n'']"

definition initial_replay :: replay_form where
  "initial_replay = \<lparr>rf_method = ''GET'', rf_url = [],
     rf_headers = ''{'' @ raw_break @ ''  \"Content-Type\": \"application/json\"'' @ raw_break @ ''}'',
     rf_body = ''{'' @ raw_break @ ''  \"item\": \"book\",'' @ raw_break @ ''  \"quantity\": 1'' @ raw_break @ ''}'',
     rf_provider = [], rf_secret = [], rf_bypass = False\<rparr>"

definition initial_mock :: mock_form where
  "initial_mock = \<lparr>mf_prefix = [], mf_mode = ''always'', mf_status = ''200'', mf_enabled = True,
     mf_body = ''{'' @ raw_break @ ''  \"status\": \"mocked_success\",'' @ raw_break
       @ ''  \"message\": \"Unblocked frontend payload\"'' @ raw_break @ ''}''\<rparr>"

definition initial_page :: page where
  "initial_page = \<lparr>pg_traces = [], pg_filtered = [], pg_selected = None, pg_paused = False, pg_status_filter = ''all'',
     pg_logs = [], pg_health = [], pg_mocks = [], pg_filter_text = [],
     pg_filter_buttons = [(''all'', ''px-2 py-0.5 rounded bg-slate-800 text-slate-200 font-bold''),
       (''2xx'', ''px-2 py-0.5 rounded hover:bg-slate-800''), (''4xx'', ''px-2 py-0.5 rounded hover:bg-slate-800''),
       (''5xx'', ''px-2 py-0.5 rounded hover:bg-slate-800'')],
     pg_trace_list = [], pg_event_count = ''0'',
     pg_detail = ''Select any incoming request from the live switchboard to inspect headers, JSON payloads, and timings'',
     pg_detail_class = ''flex-1 overflow-y-auto text-xs text-slate-400 flex items-center justify-center border border-dashed border-slate-800/80 rounded-lg p-4'',
     pg_actions_hidden = True,
     pg_ws_status = ''<span class=\"h-2 w-2 rounded-full bg-yellow-400 animate-pulse\"></span><span class=\"font-medium\">Connecting...</span>'',
     pg_console = [''<div class=\"text-slate-600\">Waiting for Docker container logs...</div>''],
     pg_probing = True, pg_pills = [],
     pg_mock_list = [''<span class=\"text-slate-500 text-xs\">Loading active mock rules...</span>''],
     pg_waterfall = ''<div class=\"text-slate-500 text-xs text-center mt-12\">Select a trace with sub-requests to render the waterfall timeline</div>'',
     pg_tab = ''traces'', pg_pause_icon = ''<i class=\"fa-solid fa-pause\"></i>'',
     pg_replay = initial_replay, pg_replay_badge = [],
     pg_replay_answer = ''Execute a replay to view instant upstream status and response payload'',
     pg_mock_form = initial_mock\<rparr>"

section \<open>Requests\<close>

text \<open>The replacement of \<open>window.fetch\<close> when the page was opened with a token.\<close>

definition authorized_headers :: "page_env \<Rightarrow> (string \<times> string) list \<Rightarrow> (string \<times> string) list" where
  "authorized_headers env hs =
     (if pe_token env = [] then hs else AList.update ''Authorization'' (''Bearer '' @ pe_token env) hs)"

text \<open>
  What \<open>fetch\<close> makes of the text of a header: a byte string with one byte per character, an exception
  for a character beyond U+00FF, no white space at the ends and no NUL or line end. The page's texts are
  in UTF-8 here, so a character up to U+007F is one byte and one up to U+00FF two.
\<close>

fun byte_string :: "string \<Rightarrow> string option" where
  "byte_string [] = Some []"
| "byte_string (c # s) =
     (if of_char c < (128 :: nat) then map_option ((#) c) (byte_string s)
      else (case s of
              [] \<Rightarrow> None
            | d # s' \<Rightarrow>
                if of_char c \<in> {194, 195 :: nat} \<and> 128 \<le> (of_char d :: nat) \<and> of_char d < (192 :: nat)
                then map_option ((#) (char_of (64 * (of_char c - 192) + (of_char d - 128) :: nat))) (byte_string s')
                else None))"

definition http_blank :: "char \<Rightarrow> bool" where
  "http_blank c \<longleftrightarrow> of_char c \<in> {9, 10, 13, 32 :: nat}"

definition trim_blanks :: "string \<Rightarrow> string" where
  "trim_blanks s = rev (dropWhile http_blank (rev (dropWhile http_blank s)))"

definition fetch_value :: "string \<Rightarrow> string option" where
  "fetch_value v =
     (case byte_string v of
        None \<Rightarrow> None
      | Some b \<Rightarrow> if list_ex (\<lambda>c. of_char c \<in> {0, 10, 13 :: nat}) (trim_blanks b) then None
                 else Some (trim_blanks b))"

definition fetch_url :: "page_env \<Rightarrow> string \<Rightarrow> page_call" where
  "fetch_url env url = Fetch ''GET'' url (authorized_headers env []) []"

definition post_json :: "page_env \<Rightarrow> string \<Rightarrow> json \<Rightarrow> page_call" where
  "post_json env url body =
     Fetch ''POST'' url (authorized_headers env [(''Content-Type'', ''application/json'')]) (json_text body)"

text \<open>\<open>encodeURIComponent\<close>.\<close>

definition component_char :: "char \<Rightarrow> string" where
  "component_char c =
     (if alphanumeric c \<or> c \<in> {CHR ''-'', CHR ''_'', CHR ''.'', CHR ''!'', CHR ''~'', CHR ''*'', CHR 0x27, CHR ''('', CHR '')''}
      then [c]
      else [CHR ''%'', upper_hex (of_char c div 16), upper_hex (of_char c mod 16)])"

definition encode_component :: "string \<Rightarrow> string" where
  "encode_component s = concat (map component_char s)"

definition socket_query :: "page_env \<Rightarrow> string" where
  "socket_query env = (if pe_token env = [] then [] else ''token='' @ encode_component (pe_token env))"

definition connect_ws :: "page_env \<Rightarrow> page_call" where
  "connect_ws env =
     OpenSocket ((if pe_secure env then ''wss:'' else ''ws:'') @ ''//'' @ pe_host env @ ''/ws''
       @ (if pe_token env = [] then [] else ''?'' @ socket_query env))"

definition fetch_health :: "page_env \<Rightarrow> page_call" where "fetch_health env = fetch_url env ''/api/health''"
definition fetch_mocks :: "page_env \<Rightarrow> page_call" where "fetch_mocks env = fetch_url env ''/api/mocks''"

definition socket_opened :: "page_env \<Rightarrow> page \<Rightarrow> page \<times> page_call list" where
  "socket_opened env pg =
     (pg\<lparr>pg_ws_status := ''<span class=\"h-2 w-2 rounded-full bg-emerald-500 animate-pulse\"></span><span class=\"text-emerald-400 font-bold\">Mesh Active</span>''\<rparr>,
      [fetch_health env, fetch_mocks env])"

definition socket_closed :: "page \<Rightarrow> page \<times> page_call list" where
  "socket_closed pg =
     (pg\<lparr>pg_ws_status := ''<span class=\"h-2 w-2 rounded-full bg-rose-500\"></span><span class=\"text-rose-400\">Disconnected</span>''\<rparr>,
      [RetryIn 2000])"

section \<open>Traces\<close>

definition matches_status :: "string \<Rightarrow> int \<Rightarrow> bool" where
  "matches_status status code \<longleftrightarrow>
     \<not> (status = ''2xx'' \<and> (code < 200 \<or> 300 \<le> code)) \<and> \<not> (status = ''4xx'' \<and> (code < 400 \<or> 500 \<le> code))
     \<and> \<not> (status = ''5xx'' \<and> code < 500)"

definition matches_filter :: "page_env \<Rightarrow> string \<Rightarrow> string \<Rightarrow> trace_view \<Rightarrow> bool" where
  "matches_filter env status text ev \<longleftrightarrow>
     (let lower = to_lower (pe_lower env); query = lower text
      in matches_status status (tv_status ev)
         \<and> (query = [] \<or> str_contains (lower (tv_path ev)) query \<or> str_contains (lower (tv_method ev)) query
            \<or> str_contains (dec_of_int (tv_status ev)) query
            \<or> (tv_request_body ev \<noteq> [] \<and> str_contains (lower (tv_request_body ev)) query)
            \<or> (tv_response_body ev \<noteq> [] \<and> str_contains (lower (tv_response_body ev)) query)))"

definition render_trace_list :: "page \<Rightarrow> page" where
  "render_trace_list pg = pg\<lparr>pg_trace_list := map (\<lambda>ev. (trace_item ev, ev)) (pg_filtered pg)\<rparr>"

definition apply_filters :: "page_env \<Rightarrow> page \<Rightarrow> page" where
  "apply_filters env pg =
     render_trace_list (pg\<lparr>pg_filtered :=
       filter (matches_filter env (pg_status_filter pg) (pg_filter_text pg)) (pg_traces pg)\<rparr>)"

definition set_status_filter :: "page_env \<Rightarrow> string \<Rightarrow> page \<Rightarrow> page" where
  "set_status_filter env status pg =
     apply_filters env (pg\<lparr>pg_status_filter := status,
       pg_filter_buttons := map (\<lambda>s. (s, if s = status
           then ''px-2 py-0.5 rounded bg-slate-800 text-cyan-400 font-bold border border-slate-700''
           else ''px-2 py-0.5 rounded hover:bg-slate-800 text-slate-400'')) [''all'', ''2xx'', ''4xx'', ''5xx'']\<rparr>)"

definition handle_incoming_trace :: "page_env \<Rightarrow> trace_view \<Rightarrow> page \<Rightarrow> page" where
  "handle_incoming_trace env ev pg =
     (let traces = ev # pg_traces pg;
          traces = (if 500 < length traces then butlast traces else traces)
      in apply_filters env (pg\<lparr>pg_traces := traces, pg_event_count := dec_of_nat (length traces)\<rparr>))"

definition render_waterfall :: "page_env \<Rightarrow> string \<Rightarrow> page \<Rightarrow> page" where
  "render_waterfall env trace_id pg = pg\<lparr>pg_waterfall := waterfall_html (pe_number env) (pg_traces pg) trace_id\<rparr>"

definition select_trace :: "page_env \<Rightarrow> trace_view \<Rightarrow> page \<Rightarrow> page" where
  "select_trace env ev pg =
     render_waterfall env (tv_trace_id ev)
       (pg\<lparr>pg_selected := Some ev, pg_actions_hidden := False,
           pg_detail_class := ''flex-1 overflow-y-auto text-xs text-slate-300 space-y-4 font-mono pr-1'',
           pg_detail := detail_html (pe_json env) ev\<rparr>)"

definition clear_traces :: "page \<Rightarrow> page" where
  "clear_traces pg =
     (render_trace_list (pg\<lparr>pg_traces := [], pg_filtered := []\<rparr>))
       \<lparr>pg_event_count := ''0'', pg_actions_hidden := True,
        pg_detail_class := ''flex-1 overflow-y-auto text-xs text-slate-400 flex items-center justify-center border border-dashed border-slate-800/80 rounded-lg p-4'',
        pg_detail := ''Select any incoming request from the live switchboard to inspect headers, JSON payloads, and timings''\<rparr>"

definition toggle_pause :: "page \<Rightarrow> page" where
  "toggle_pause pg =
     pg\<lparr>pg_paused := \<not> pg_paused pg,
        pg_pause_icon := (if \<not> pg_paused pg then ''<i class=\"fa-solid fa-play text-yellow-400\"></i>''
                          else ''<i class=\"fa-solid fa-pause\"></i>'')\<rparr>"

section \<open>Health pills\<close>

definition pill_of :: "health_view \<Rightarrow> pill" where
  "pill_of t = \<lparr>pl_id = pill_id (hv_host t), pl_class = pill_class t, pl_title = pill_title t, pl_html = pill_html t,
     pl_click = ''/'' @ hd (split_on CHR '':'' (hv_host t))\<rparr>"

definition render_health_pill :: "health_view \<Rightarrow> page \<Rightarrow> page" where
  "render_health_pill t pg = pg\<lparr>pg_pills := pg_pills pg @ [pill_of t]\<rparr>"

definition note_health :: "health_view \<Rightarrow> page \<Rightarrow> page" where
  "note_health t pg = pg\<lparr>pg_health := AList.update (hv_url t) t (pg_health pg)\<rparr>"

text \<open>The answer to \<open>fetchHealth\<close>.\<close>

definition show_health :: "health_view list \<Rightarrow> page \<Rightarrow> page" where
  "show_health targets pg =
     foldl (\<lambda>pg t. render_health_pill t (note_health t pg)) (pg\<lparr>pg_pills := [], pg_probing := False\<rparr>) targets"

text \<open>\<open>getElementById\<close> finds the first pill with the id; its title and click handler stay.\<close>

fun repaint_pill :: "health_view \<Rightarrow> pill list \<Rightarrow> pill list" where
  "repaint_pill t [] = []"
| "repaint_pill t (p # ps) =
     (if pl_id p = pill_id (hv_host t) then p\<lparr>pl_class := pill_class t, pl_html := pill_html t\<rparr> # ps
      else p # repaint_pill t ps)"

definition update_health_pill :: "health_view \<Rightarrow> page \<Rightarrow> page" where
  "update_health_pill t pg =
     (let pg = note_health t pg
      in if pill_id (hv_host t) \<in> pl_id ` set (pg_pills pg)
         then pg\<lparr>pg_pills := repaint_pill t (pg_pills pg)\<rparr> else render_health_pill t pg)"

section \<open>Container logs\<close>

definition append_docker_log :: "log_view \<Rightarrow> page \<Rightarrow> page" where
  "append_docker_log entry pg =
     pg\<lparr>pg_logs := pg_logs pg @ [entry],
        pg_console := (if pg_logs pg = [] then [] else pg_console pg) @ [log_line entry]\<rparr>"

definition clear_docker_logs :: "page \<Rightarrow> page" where
  "clear_docker_logs pg =
     pg\<lparr>pg_logs := [], pg_console := [''<div class=\"text-slate-600\">Docker logs cleared</div>'']\<rparr>"

section \<open>Frames\<close>

definition frame_message :: "page_env \<Rightarrow> string \<Rightarrow> message option" where
  "frame_message env data = map_option message_of (pe_payload env data)"

definition on_message :: "page_env \<Rightarrow> string \<Rightarrow> page \<Rightarrow> page" where
  "on_message env data pg =
     (if pg_paused pg then pg
      else (case frame_message env data of
              None \<Rightarrow> pg
            | Some (LogMessage l) \<Rightarrow> append_docker_log l pg
            | Some (HealthMessage t) \<Rightarrow> update_health_pill t pg
            | Some (TraceMessage ev) \<Rightarrow> handle_incoming_trace env ev pg))"

section \<open>Tabs and mock rules\<close>

definition show_mocks :: "rule_view list \<Rightarrow> page \<Rightarrow> page" where
  "show_mocks rules pg =
     pg\<lparr>pg_mocks := rules, pg_mock_list := (if rules = [] then [no_rules] else map rule_item rules)\<rparr>"

definition switch_tab :: "page_env \<Rightarrow> string \<Rightarrow> page \<Rightarrow> page \<times> page_call list" where
  "switch_tab env tab pg =
     (let pg = pg\<lparr>pg_tab := tab\<rparr>;
          pg = (if tab = ''waterfall''
                then (case pg_selected pg of
                        Some t \<Rightarrow> render_waterfall env (tv_trace_id t) pg
                      | None \<Rightarrow> (case pg_traces pg of t # _ \<Rightarrow> render_waterfall env (tv_trace_id t) pg | [] \<Rightarrow> pg))
                else pg)
      in (pg, if tab = ''mocks'' then [fetch_mocks env] else []))"

definition pill_clicked :: "page_env \<Rightarrow> pill \<Rightarrow> page \<Rightarrow> page \<times> page_call list" where
  "pill_clicked env p pg =
     switch_tab env ''mocks'' (pg\<lparr>pg_mock_form := (pg_mock_form pg)\<lparr>mf_prefix := field_value (pl_click p)\<rparr>\<rparr>)"

text \<open>\<open>parseInt\<close> on the text of a number field, and the default for \<open>NaN\<close> and 0.\<close>

definition parse_int :: "string \<Rightarrow> int option" where
  "parse_int s =
     (let s = dropWhile (\<lambda>c. of_char c \<in> {9, 10, 11, 12, 13, 32 :: nat}) s;
          neg = (s \<noteq> [] \<and> hd s = CHR ''-''); pos = (s \<noteq> [] \<and> hd s = CHR ''+'');
          ds = takeWhile dec_digit (if neg \<or> pos then tl s else s)
      in if ds = [] then None else Some (if neg then - dec_value ds else dec_value ds))"

definition form_status :: "string \<Rightarrow> int" where
  "form_status s = (case parse_int s of Some n \<Rightarrow> if n = 0 then 200 else n | None \<Rightarrow> 200)"

definition save_mock_rule :: "page_env \<Rightarrow> page \<Rightarrow> page_call list" where
  "save_mock_rule env pg =
     (let f = pg_mock_form pg
      in [post_json env ''/api/mocks'' (JObj [(''prefix'', JStr (mf_prefix f)), (''mode'', JStr (mf_mode f)),
            (''status_code'', JNum (dec_of_int (form_status (mf_status f)))), (''enabled'', JBool (mf_enabled f)),
            (''body'', JStr (mf_body f))])])"

definition toggle_mock :: "page_env \<Rightarrow> string \<Rightarrow> bool \<Rightarrow> page_call list" where
  "toggle_mock env pre state =
     [post_json env ''/api/mocks/toggle'' (JObj [(''prefix'', JStr pre), (''enabled'', JBool state)])]"

section \<open>Replays\<close>

definition form_provider :: "page_env \<Rightarrow> js_headers \<Rightarrow> string" where
  "form_provider env hs =
     (case hs of None \<Rightarrow> []
      | Some kvs \<Rightarrow> foldl (\<lambda>p (k, v). let lk = to_lower (pe_lower env) k
          in if lk = ''stripe-signature'' then ''stripe''
             else if lk = ''x-hub-signature-256'' then ''github''
             else if lk = ''x-razorpay-signature'' then ''razorpay''
             else if lk = ''x-shopify-hmac-sha256'' then ''shopify''
             else if lk = ''x-slack-signature'' then ''slack'' else p) [] kvs)"

definition open_in_replay :: "page_env \<Rightarrow> page \<Rightarrow> page \<times> page_call list" where
  "open_in_replay env pg =
     (case pg_selected pg of
        None \<Rightarrow> (pg, [])
      | Some t \<Rightarrow>
          (let f = pg_replay pg;
               f = f\<lparr>rf_method := select_value replay_methods (tv_method t), rf_url := field_value (tv_path t),
                     rf_headers := textarea_value (json_pretty 0
                       (case tv_req_headers t of None \<Rightarrow> JObj [] | hs \<Rightarrow> headers_json hs)),
                     rf_body := textarea_value (tv_request_body t),
                     rf_provider := select_value replay_providers (form_provider env (tv_req_headers t))\<rparr>
           in switch_tab env ''replay'' (pg\<lparr>pg_replay := f\<rparr>)))"

text \<open>The presets; a type that is none of the four changes nothing.\<close>

definition preset_headers :: "string \<Rightarrow> string" where
  "preset_headers extra = ''{'' @ [line_feed] @ ''  \"Content-Type\": \"application/json\"'' @ extra @ [line_feed] @ ''}''"

definition load_preset :: "string \<Rightarrow> page \<Rightarrow> page" where
  "load_preset kind pg =
     (let f = pg_replay pg; nl = [line_feed]
      in pg\<lparr>pg_replay :=
        (if kind = ''stripe''
         then f\<lparr>rf_method := ''POST'', rf_url := ''/webhook/stripe'', rf_provider := ''stripe'',
                rf_secret := ''whsec_testsecret123'', rf_headers := preset_headers [],
                rf_body := ''{'' @ nl @ ''  \"id\": \"evt_101\",'' @ nl @ ''  \"type\": \"payment_intent.succeeded\",'' @ nl
                  @ ''  \"amount\": 4900,'' @ nl @ ''  \"currency\": \"usd\"'' @ nl @ ''}''\<rparr>
         else if kind = ''github''
         then f\<lparr>rf_method := ''POST'', rf_url := ''/webhook/github'', rf_provider := ''github'',
                rf_secret := ''gh_sec_999'', rf_headers := preset_headers ('','' @ nl @ ''  \"X-GitHub-Event\": \"push\"''),
                rf_body := ''{'' @ nl @ ''  \"ref\": \"refs/heads/main\",'' @ nl
                  @ ''  \"commits\": [{\"id\": \"a1b2c3d\", \"message\": \"feat: mesh upgrade\"}]'' @ nl @ ''}''\<rparr>
         else if kind = ''razorpay''
         then f\<lparr>rf_method := ''POST'', rf_url := ''/api/payment/webhook'', rf_provider := ''razorpay'',
                rf_secret := ''rzp_sec_mock'', rf_headers := preset_headers [],
                rf_body := ''{'' @ nl @ ''  \"event\": \"payment.authorized\",'' @ nl
                  @ ''  \"payload\": {\"payment\": {\"entity\": {\"id\": \"pay_999\", \"amount\": 50000}}}'' @ nl @ ''}''\<rparr>
         else if kind = ''auth_login''
         then f\<lparr>rf_method := ''POST'', rf_url := ''/auth/login'', rf_provider := [],
                rf_headers := preset_headers [],
                rf_body := ''{'' @ nl @ ''  \"email\": \"user@example.com\",'' @ nl @ ''  \"password\": \"Password123!\"'' @ nl @ ''}''\<rparr>
         else f)\<rparr>)"

definition replay_payload :: "page_env \<Rightarrow> replay_form \<Rightarrow> json" where
  "replay_payload env f =
     JObj [(''method'', JStr (rf_method f)), (''url'', JStr (rf_url f)),
       (''headers'', case pe_json env (rf_headers f) of Some v \<Rightarrow> v | None \<Rightarrow> JObj []),
       (''body'', JStr (rf_body f)), (''resign_provider'', JStr (rf_provider f)),
       (''webhook_secret'', JStr (rf_secret f)), (''bypass_signatures'', JBool (rf_bypass f))]"

definition send_replay_request :: "page_env \<Rightarrow> page \<Rightarrow> page \<times> page_call list" where
  "send_replay_request env pg =
     (pg\<lparr>pg_replay_badge := ''<span class=\"text-yellow-400 font-mono\">Executing...</span>''\<rparr>,
      [post_json env ''/api/replay'' (replay_payload env (pg_replay pg))])"

definition replay_answered :: "page_env \<Rightarrow> reply_view \<Rightarrow> page \<Rightarrow> page" where
  "replay_answered env res pg =
     pg\<lparr>pg_replay_badge := reply_badge res, pg_replay_answer := reply_html (pe_json env) res\<rparr>"

definition replay_failed :: "string \<Rightarrow> page \<Rightarrow> page" where
  "replay_failed msg pg =
     pg\<lparr>pg_replay_badge := ''<span class=\"text-rose-400 font-bold font-mono\">Failed</span>'',
        pg_replay_answer := ''<span class=\"text-rose-400 font-mono\">'' @ escape_html msg @ ''</span>''\<rparr>"

definition copy_as_curl :: "page \<Rightarrow> page_call list" where
  "copy_as_curl pg =
     (case pg_selected pg of
        None \<Rightarrow> []
      | Some t \<Rightarrow> [ToClipboard (curl_command t), AlertBox ''cURL command copied to clipboard!''])"

section \<open>The page's events\<close>

text \<open>
  \<open>SocketOpened\<close> to \<open>RetryDue\<close> come from the network and the timer, \<open>HealthAnswer\<close> to \<open>ReplayError\<close> are the
  answers to requests, the others are the user's.
\<close>

datatype page_op =
  PageLoaded
| SocketOpened
| FrameArrived string
| SocketClosed
| RetryDue
| HealthAnswer "health_view list"
| MocksAnswer "rule_view list"
| MockStored
| ReplayAnswer reply_view
| ReplayError string
| TypeFilter string
| PickStatus string
| ClickTrace nat
| ClickPill nat
| TogglePause
| ClearTraces
| ClearLogs
| SwitchTab string
| EditMock mock_form
| SaveMock
| ToggleRule string bool
| EditReplay replay_form
| LoadPreset string
| OpenInReplay
| SendReplay
| CopyCurl
| CopyText string

fun page_step :: "page_env \<Rightarrow> page \<Rightarrow> page_op \<Rightarrow> page \<times> page_call list" where
  "page_step env pg PageLoaded = (pg, [connect_ws env])"
| "page_step env pg SocketOpened = socket_opened env pg"
| "page_step env pg (FrameArrived data) = (on_message env data pg, [])"
| "page_step env pg SocketClosed = socket_closed pg"
| "page_step env pg RetryDue = (pg, [connect_ws env])"
| "page_step env pg (HealthAnswer targets) = (show_health targets pg, [])"
| "page_step env pg (MocksAnswer rules) = (show_mocks rules pg, [])"
| "page_step env pg MockStored = (pg, [fetch_mocks env])"
| "page_step env pg (ReplayAnswer res) = (replay_answered env res pg, [])"
| "page_step env pg (ReplayError msg) = (replay_failed msg pg, [])"
| "page_step env pg (TypeFilter text) = (apply_filters env (pg\<lparr>pg_filter_text := text\<rparr>), [])"
| "page_step env pg (PickStatus status) = (set_status_filter env status pg, [])"
| "page_step env pg (ClickTrace i) =
     (if i < length (pg_trace_list pg) then select_trace env (snd (pg_trace_list pg ! i)) pg else pg, [])"
| "page_step env pg (ClickPill i) =
     (if i < length (pg_pills pg) then pill_clicked env (pg_pills pg ! i) pg else (pg, []))"
| "page_step env pg TogglePause = (toggle_pause pg, [])"
| "page_step env pg ClearTraces = (clear_traces pg, [])"
| "page_step env pg ClearLogs = (clear_docker_logs pg, [])"
| "page_step env pg (SwitchTab tab) = switch_tab env tab pg"
| "page_step env pg (EditMock f) = (pg\<lparr>pg_mock_form := f\<rparr>, [])"
| "page_step env pg SaveMock = (pg, save_mock_rule env pg)"
| "page_step env pg (ToggleRule pre state) = (pg, toggle_mock env pre state)"
| "page_step env pg (EditReplay f) = (pg\<lparr>pg_replay := f\<rparr>, [])"
| "page_step env pg (LoadPreset kind) = (load_preset kind pg, [])"
| "page_step env pg OpenInReplay = open_in_replay env pg"
| "page_step env pg SendReplay = send_replay_request env pg"
| "page_step env pg CopyCurl = (pg, copy_as_curl pg)"
| "page_step env pg (CopyText text) = (pg, [ToClipboard text])"

definition page_run :: "page_env \<Rightarrow> page \<Rightarrow> page_op list \<Rightarrow> page" where
  "page_run env pg ops = foldl (\<lambda>pg op. fst (page_step env pg op)) pg ops"

end
