(* ===== verification/Cockpit_Properties.thy ===== *)
theory Cockpit_Properties
  imports Cockpit Cockpit_Escaping Dashboard
begin

text \<open>
  What the dashboard page shows, and how it fits the server it talks to: the trace list and the log
  console as functions of what arrived, reconnections, the credentials of its requests, health pills,
  and what a recorded request becomes on its way through the replay form.
\<close>

section \<open>The displayed lists\<close>

definition page_ok :: "page_env \<Rightarrow> page \<Rightarrow> bool" where
  "page_ok env pg \<longleftrightarrow> length (pg_traces pg) \<le> 500 \<and> pg_event_count pg = dec_of_nat (length (pg_traces pg))
     \<and> pg_filtered pg = filter (matches_filter env (pg_status_filter pg) (pg_filter_text pg)) (pg_traces pg)
     \<and> pg_trace_list pg = map (\<lambda>ev. (trace_item ev, ev)) (pg_filtered pg)
     \<and> (pg_logs pg = [] \<longrightarrow> length (pg_console pg) = 1) \<and> (pg_logs pg \<noteq> [] \<longrightarrow> pg_console pg = map log_line (pg_logs pg))"

text \<open>The fields the invariant looks at.\<close>

definition shown :: "page \<Rightarrow> trace_view list \<times> string \<times> trace_view list \<times> string \<times> string \<times> (string \<times> trace_view) list
    \<times> log_view list \<times> string list" where
  "shown pg = (pg_traces pg, pg_event_count pg, pg_filtered pg, pg_status_filter pg, pg_filter_text pg, pg_trace_list pg,
     pg_logs pg, pg_console pg)"

lemma page_ok_shown: "shown pg = shown pg' \<Longrightarrow> page_ok env pg = page_ok env pg'"
  by (simp add: shown_def page_ok_def)

lemma dec_of_nat_0 [simp]: "dec_of_nat 0 = ''0''"
  by (subst dec_of_nat.simps) code_simp

lemma page_ok_initial: "page_ok env initial_page"
  by (simp add: page_ok_def initial_page_def)

lemma page_ok_filters:
  assumes "length (pg_traces pg) \<le> 500" "pg_event_count pg = dec_of_nat (length (pg_traces pg))"
    "pg_logs pg = [] \<longrightarrow> length (pg_console pg) = 1" "pg_logs pg \<noteq> [] \<longrightarrow> pg_console pg = map log_line (pg_logs pg)"
  shows "page_ok env (apply_filters env pg)"
  using assms by (simp add: page_ok_def apply_filters_def render_trace_list_def)

lemma incoming_traces [simp]:
  "length (pg_traces pg) \<le> 500 \<Longrightarrow> pg_traces (handle_incoming_trace env ev pg) = take 500 (ev # pg_traces pg)"
  by (cases "length (pg_traces pg) = 500")
     (simp_all add: handle_incoming_trace_def Let_def apply_filters_def render_trace_list_def butlast_conv_take)

lemma page_ok_incoming:
  assumes "page_ok env pg"
  shows "page_ok env (handle_incoming_trace env ev pg)"
  unfolding handle_incoming_trace_def Let_def
  by (rule page_ok_filters) (use assms in \<open>auto simp: page_ok_def\<close>)

lemma page_ok_log: "page_ok env pg \<Longrightarrow> page_ok env (append_docker_log l pg)"
  by (auto simp: page_ok_def append_docker_log_def)

lemma shown_pills [simp]:
  "shown (render_health_pill t pg) = shown pg" "shown (note_health t pg) = shown pg"
  "shown (update_health_pill t pg) = shown pg"
  by (simp_all add: shown_def render_health_pill_def note_health_def update_health_pill_def Let_def)

lemma shown_health [simp]: "shown (show_health ts pg) = shown pg"
proof -
  have "shown (foldl (\<lambda>pg t. render_health_pill t (note_health t pg)) pg' ts) = shown pg'" for pg'
    by (induction ts arbitrary: pg') simp_all
  then show ?thesis by (simp add: show_health_def) (simp add: shown_def)
qed

lemma shown_waterfall [simp]: "shown (render_waterfall env tid pg) = shown pg"
  by (simp add: shown_def render_waterfall_def)

lemma shown_tab [simp]: "shown (fst (switch_tab env tab pg)) = shown pg"
  by (simp add: switch_tab_def Let_def split: option.split list.split) (simp add: shown_def)

lemma page_ok_message: "page_ok env pg \<Longrightarrow> page_ok env (on_message env data pg)"
  using page_ok_shown [OF shown_pills(3)]
  by (auto simp: on_message_def page_ok_incoming page_ok_log split: option.split message.split)

lemma shown_frame [simp]:
  "shown (pg\<lparr>pg_tab := a\<rparr>) = shown pg" "shown (pg\<lparr>pg_mock_form := b\<rparr>) = shown pg" "shown (pg\<lparr>pg_replay := c\<rparr>) = shown pg"
  "shown (pg\<lparr>pg_ws_status := d\<rparr>) = shown pg" "shown (show_mocks rules pg) = shown pg" "shown (replay_answered env res pg) = shown pg"
  "shown (replay_failed msg pg) = shown pg" "shown (toggle_pause pg) = shown pg" "shown (load_preset kind pg) = shown pg"
  "shown (pg\<lparr>pg_replay_badge := e\<rparr>) = shown pg"
  by (simp_all add: shown_def show_mocks_def replay_answered_def replay_failed_def toggle_pause_def load_preset_def Let_def)

lemma shown_select [simp]: "shown (select_trace env ev pg) = shown pg"
  by (simp add: select_trace_def) (simp add: shown_def)

text \<open>The steps that change no list.\<close>

fun lists_step :: "page_op \<Rightarrow> bool" where
  "lists_step (FrameArrived data) = True"
| "lists_step (TypeFilter text) = True"
| "lists_step (PickStatus status) = True"
| "lists_step ClearTraces = True"
| "lists_step ClearLogs = True"
| "lists_step _ = False"

lemma shown_step: "\<not> lists_step op \<Longrightarrow> shown (fst (page_step env pg op)) = shown pg"
  by (cases op) (simp_all add: socket_opened_def socket_closed_def send_replay_request_def pill_clicked_def open_in_replay_def
      Let_def split: option.split)

lemma page_step_ok:
  assumes "page_ok env pg"
  shows "page_ok env (fst (page_step env pg op))"
proof (cases "lists_step op")
  case True
  have "page_ok env (apply_filters env (pg\<lparr>pg_filter_text := t\<rparr>))" for t
    by (rule page_ok_filters) (use assms in \<open>simp_all add: page_ok_def\<close>)
  moreover have "page_ok env (set_status_filter env status pg)" for status
    unfolding set_status_filter_def by (rule page_ok_filters) (use assms in \<open>simp_all add: page_ok_def\<close>)
  moreover have "page_ok env (clear_traces pg)" "page_ok env (clear_docker_logs pg)"
    using assms by (simp_all add: page_ok_def clear_traces_def render_trace_list_def clear_docker_logs_def)
  ultimately show ?thesis
    using True assms by (cases op) (simp_all add: page_ok_message)
next
  case False
  from page_ok_shown [OF shown_step [OF False]] assms show ?thesis by blast
qed

interpretation page_kept: kept_by_ops "\<lambda>pg op. fst (page_step env pg op)" "\<lambda>_. True" "page_ok env" for env
  by unfold_locales (rule page_step_ok)

lemma page_run_ok: "page_ok env pg \<Longrightarrow> page_ok env (page_run env pg ops)"
  unfolding page_run_def by (rule page_kept.run_keeps) simp

lemma page_run_append: "page_run env pg (as @ bs) = page_run env (page_run env pg as) bs"
  by (simp add: page_run_def)

lemma page_run_Cons: "page_run env pg (op # ops) = page_run env (fst (page_step env pg op)) ops"
  by (simp add: page_run_def)

text \<open>
  What the page should show, as functions of its past, the latest event first: whether it is paused, the
  traces and log lines that arrived since the last clearing while it was not, and the filters in force.
\<close>

fun paused_after :: "page_op list \<Rightarrow> bool" where
  "paused_after [] = False"
| "paused_after (op # past) = (if op = TogglePause then \<not> paused_after past else paused_after past)"

fun traces_since :: "page_env \<Rightarrow> page_op list \<Rightarrow> trace_view list" where
  "traces_since env [] = []"
| "traces_since env (op # past) =
     (case op of
        ClearTraces \<Rightarrow> []
      | FrameArrived data \<Rightarrow>
          (if paused_after past then traces_since env past
           else (case frame_message env data of
                   Some (TraceMessage ev) \<Rightarrow> ev # traces_since env past
                 | _ \<Rightarrow> traces_since env past))
      | _ \<Rightarrow> traces_since env past)"

fun logs_since :: "page_env \<Rightarrow> page_op list \<Rightarrow> log_view list" where
  "logs_since env [] = []"
| "logs_since env (op # past) =
     (case op of
        ClearLogs \<Rightarrow> []
      | FrameArrived data \<Rightarrow>
          (if paused_after past then logs_since env past
           else (case frame_message env data of
                   Some (LogMessage l) \<Rightarrow> logs_since env past @ [l]
                 | _ \<Rightarrow> logs_since env past))
      | _ \<Rightarrow> logs_since env past)"

fun filters_after :: "page_op list \<Rightarrow> string \<times> string" where
  "filters_after [] = (''all'', [])"
| "filters_after (op # past) =
     (case op of
        PickStatus status \<Rightarrow> (status, snd (filters_after past))
      | TypeFilter text \<Rightarrow> (fst (filters_after past), text)
      | _ \<Rightarrow> filters_after past)"

definition past_shown :: "page_env \<Rightarrow> page_op list \<Rightarrow> page \<Rightarrow> bool" where
  "past_shown env past pg \<longleftrightarrow> pg_paused pg = paused_after past \<and> pg_traces pg = take 500 (traces_since env past)
     \<and> pg_logs pg = logs_since env past \<and> (pg_status_filter pg, pg_filter_text pg) = filters_after past"

text \<open>The step of a page that shows its past, one group of events at a time.\<close>

lemma paused_frame [simp]:
  "pg_paused (apply_filters env pg) = pg_paused pg" "pg_paused (set_status_filter env st pg) = pg_paused pg"
  "pg_paused (clear_traces pg) = pg_paused pg" "pg_paused (clear_docker_logs pg) = pg_paused pg"
  "pg_paused (append_docker_log l pg) = pg_paused pg" "pg_paused (handle_incoming_trace env ev pg) = pg_paused pg"
  "pg_paused (render_health_pill t pg) = pg_paused pg" "pg_paused (note_health t pg) = pg_paused pg"
  "pg_paused (update_health_pill t pg) = pg_paused pg" "pg_paused (render_waterfall env tid pg) = pg_paused pg"
  by (simp_all add: apply_filters_def set_status_filter_def clear_traces_def clear_docker_logs_def append_docker_log_def
      handle_incoming_trace_def render_trace_list_def render_health_pill_def note_health_def update_health_pill_def
      render_waterfall_def Let_def)

lemma paused_show_health [simp]: "pg_paused (show_health ts pg) = pg_paused pg"
proof -
  have "pg_paused (foldl (\<lambda>pg t. render_health_pill t (note_health t pg)) pg' ts) = pg_paused pg'" for pg'
    by (induction ts arbitrary: pg') simp_all
  then show ?thesis by (simp add: show_health_def)
qed

lemma paused_rest [simp]:
  "pg_paused (fst (switch_tab env tab pg)) = pg_paused pg" "pg_paused (select_trace env ev pg) = pg_paused pg"
  "pg_paused (show_mocks rules pg) = pg_paused pg" "pg_paused (replay_answered env res pg) = pg_paused pg"
  "pg_paused (replay_failed msg pg) = pg_paused pg" "pg_paused (load_preset kind pg) = pg_paused pg"
  by (simp_all add: switch_tab_def select_trace_def show_mocks_def replay_answered_def replay_failed_def load_preset_def
      Let_def split: option.split list.split)

lemma paused_step: "pg_paused (fst (page_step env pg op)) = (if op = TogglePause then \<not> pg_paused pg else pg_paused pg)"
  by (cases op) (simp_all add: socket_opened_def socket_closed_def send_replay_request_def pill_clicked_def
      open_in_replay_def on_message_def toggle_pause_def Let_def split: option.split message.split)

lemma past_shown_quiet:
  assumes "\<not> lists_step op" "past_shown env past pg"
  shows "past_shown env (op # past) (fst (page_step env pg op))"
proof -
  have "traces_since env (op # past) = traces_since env past" "logs_since env (op # past) = logs_since env past"
    "filters_after (op # past) = filters_after past"
    using assms(1) by (cases op; simp)+
  with assms shown_step [OF assms(1), of env pg] paused_step [of env pg op] show ?thesis
    by (auto simp: past_shown_def shown_def)
qed

lemma past_shown_frame:
  assumes "past_shown env past pg"
  shows "past_shown env (FrameArrived data # past) (on_message env data pg)"
proof (cases "pg_paused pg")
  case True
  with assms show ?thesis by (simp add: past_shown_def on_message_def)
next
  case False
  note past = assms [unfolded past_shown_def]
  show ?thesis
  proof (cases "frame_message env data")
    case None
    with False assms show ?thesis by (simp add: past_shown_def on_message_def)
  next
    case (Some m)
    show ?thesis
    proof (cases m)
      case (LogMessage l)
      have "shown (append_docker_log l pg) = (pg_traces pg, pg_event_count pg, pg_filtered pg, pg_status_filter pg,
          pg_filter_text pg, pg_trace_list pg, pg_logs pg @ [l], pg_console (append_docker_log l pg))"
        by (simp add: shown_def append_docker_log_def)
      with Some LogMessage False past show ?thesis
        by (simp add: past_shown_def on_message_def shown_def)
    next
      case (HealthMessage t)
      with Some False past shown_pills(3) [of t pg] show ?thesis
        by (simp add: past_shown_def on_message_def shown_def)
    next
      case (TraceMessage ev)
      have "take 500 (ev # take 500 (traces_since env past)) = take 500 (ev # traces_since env past)"
        by (simp add: take_Cons' min_def)
      moreover have "pg_traces (handle_incoming_trace env ev pg) = take 500 (ev # pg_traces pg)"
        using past by (intro incoming_traces) simp
      moreover have "pg_logs (handle_incoming_trace env ev pg) = pg_logs pg"
        "pg_status_filter (handle_incoming_trace env ev pg) = pg_status_filter pg"
        "pg_filter_text (handle_incoming_trace env ev pg) = pg_filter_text pg"
        by (simp_all add: handle_incoming_trace_def apply_filters_def render_trace_list_def Let_def)
      ultimately show ?thesis
        using Some TraceMessage False past by (simp add: past_shown_def on_message_def)
    qed
  qed
qed

lemma past_shown_step:
  assumes "past_shown env past pg"
  shows "past_shown env (op # past) (fst (page_step env pg op))"
proof (cases "lists_step op")
  case True
  then consider data where "op = FrameArrived data" | typed where "op = TypeFilter typed"
    | status where "op = PickStatus status" | "op = ClearTraces" | "op = ClearLogs"
    by (cases op) auto
  then show ?thesis
  proof cases
    case 1
    with past_shown_frame [OF assms] show ?thesis by simp
  qed (use assms in \<open>simp_all add: past_shown_def apply_filters_def set_status_filter_def render_trace_list_def
      clear_traces_def clear_docker_logs_def prod_eq_iff\<close>)
qed (use past_shown_quiet assms in blast)

lemma past_shown_run: "past_shown env (rev ops) (page_run env initial_page ops)"
proof (induction ops rule: rev_induct)
  case Nil
  show ?case by (simp add: past_shown_def page_run_def initial_page_def)
next
  case (snoc op ops)
  from past_shown_step [OF this, of op] show ?case by (simp add: page_run_def)
qed

text \<open>A run of trace frames on a page that is not paused.\<close>

lemma take_add_oldest: "take k (xs @ take k ys) = take k (xs @ ys)"
  by (simp add: min_def)

lemma trace_frames:
  assumes "\<not> pg_paused pg" "length (pg_traces pg) \<le> 500" "\<forall>ev. frame_message env (enc ev) = Some (TraceMessage (view ev))"
  shows "pg_traces (page_run env pg (map (\<lambda>ev. FrameArrived (enc ev)) evs)) = take 500 (rev (map view evs) @ pg_traces pg)
    \<and> \<not> pg_paused (page_run env pg (map (\<lambda>ev. FrameArrived (enc ev)) evs))"
  using assms(1,2)
proof (induction evs arbitrary: pg)
  case (Cons ev evs)
  have step: "fst (page_step env pg (FrameArrived (enc ev))) = handle_incoming_trace env (view ev) pg"
    using Cons.prems(1) assms(3) by (simp add: on_message_def)
  have taken: "take 500 (rev (map view evs) @ take 500 (view ev # pg_traces pg))
      = take 500 (rev (map view (ev # evs)) @ pg_traces pg)"
    by (simp only: take_add_oldest) simp
  have "\<not> pg_paused (handle_incoming_trace env (view ev) pg)"
    "length (pg_traces (handle_incoming_trace env (view ev) pg)) \<le> 500"
    using Cons.prems by simp_all
  from Cons.IH [OF this] this(1) Cons.prems(2) taken show ?case
    unfolding list.map page_run_Cons step by (simp only: incoming_traces list.map) simp
qed (simp add: page_run_def)

section \<open>Credentials\<close>



















section \<open>Properties\<close>

text \<open>
  C11: whatever frames, answers and clicks follow the loading of the page: its traces are the 500 newest of
  those that arrived since the last clearing while the page was not paused, newest first; the list shows
  exactly those of them that pass the status and text filters last set, in their order; the counter is
  the number of traces; and the log console shows every log line that arrived since it was last cleared
  while the page was not paused, in order.
\<close>

theorem cockpit_view_consistent:
  fixes env :: page_env and ops :: "page_op list"
  defines "pg \<equiv> page_run env initial_page ops" and "past \<equiv> rev ops"
  shows "pg_traces pg = take 500 (traces_since env past)
    \<and> map snd (pg_trace_list pg)
        = filter (matches_filter env (fst (filters_after past)) (snd (filters_after past))) (take 500 (traces_since env past))
    \<and> map fst (pg_trace_list pg) = map trace_item (map snd (pg_trace_list pg))
    \<and> pg_event_count pg = dec_of_nat (length (take 500 (traces_since env past)))
    \<and> (if logs_since env past = [] then length (pg_console pg) = 1
       else pg_console pg = map log_line (logs_since env past))"
proof -
  have "page_ok env pg" unfolding pg_def by (rule page_run_ok) (rule page_ok_initial)
  moreover have "past_shown env past pg" unfolding pg_def past_def by (rule past_shown_run)
  ultimately show ?thesis
    by (auto simp: page_ok_def past_shown_def prod_eq_iff comp_def)
qed


text \<open>
  a reconnection shows every recorded event twice: the server sends the ring's history on each
  connection, and the page, which keeps what it has, puts all of it on the list again.
\<close>

theorem reconnection_repeats_history:
  fixes marshal :: "trace_event \<Rightarrow> string" and ring :: ring_buffer
  assumes "\<forall>ev. frame_message env (marshal ev) = Some (TraceMessage (view ev))"
  defines "connect \<equiv> map FrameArrived (history_frames marshal ring)"
  shows "pg_traces (page_run env initial_page (SocketOpened # connect)) = take 500 (map view (ring_get_all ring))
    \<and> pg_traces (page_run env initial_page (SocketOpened # connect @ [SocketClosed, RetryDue, SocketOpened] @ connect))
      = take 500 (map view (ring_get_all ring) @ map view (ring_get_all ring))"
proof -
  let ?hs = "map view (ring_get_all ring)"
  have connect: "connect = map (\<lambda>ev. FrameArrived (marshal ev)) (rev (ring_get_all ring))"
    by (simp add: connect_def history_frames_def)
  have frames: "pg_traces (page_run env pg connect) = take 500 (?hs @ pg_traces pg) \<and> \<not> pg_paused (page_run env pg connect)"
    if "\<not> pg_paused pg" "length (pg_traces pg) \<le> 500" for pg
    using trace_frames [where enc = marshal and view = view, OF that assms(1), of "rev (ring_get_all ring)"]
    by (simp add: connect rev_map)
  have opened: "pg_traces (fst (socket_opened env pg)) = pg_traces pg" "pg_paused (fst (socket_opened env pg)) = pg_paused pg"
    "pg_traces (fst (socket_closed pg)) = pg_traces pg" "pg_paused (fst (socket_closed pg)) = pg_paused pg" for pg
    by (simp_all add: socket_opened_def socket_closed_def)
  have start: "pg_traces initial_page = []" "\<not> pg_paused initial_page" by (simp_all add: initial_page_def)
  let ?p1 = "page_run env initial_page (SocketOpened # connect)"
  have p1: "pg_traces ?p1 = take 500 ?hs" "\<not> pg_paused ?p1"
    using frames [of "fst (socket_opened env initial_page)"] start by (simp_all add: page_run_Cons opened)
  let ?p2 = "page_run env ?p1 [SocketClosed, RetryDue, SocketOpened]"
  have p2: "pg_traces ?p2 = take 500 ?hs" "\<not> pg_paused ?p2" using p1 by (simp_all add: page_run_def opened)
  have "page_run env initial_page (SocketOpened # connect @ [SocketClosed, RetryDue, SocketOpened] @ connect)
      = page_run env ?p2 connect"
    by (metis append_Cons page_run_append)
  then have "pg_traces (page_run env initial_page (SocketOpened # connect @ [SocketClosed, RetryDue, SocketOpened] @ connect))
      = take 500 (?hs @ take 500 ?hs)"
    using frames [of ?p2] p2 by simp
  also have "\<dots> = take 500 (?hs @ ?hs)" by (rule take_add_oldest)
  finally show ?thesis using p1 by simp
qed

section \<open>Witnesses\<close>

definition sample_health :: "string \<Rightarrow> string \<Rightarrow> bool \<Rightarrow> health_view" where
  "sample_health url host healthy = \<lparr>hv_url = url, hv_host = host, hv_healthy = healthy, hv_latency = 3\<rparr>"

definition sample_payload :: "string \<Rightarrow> health_view \<Rightarrow> trace_view \<Rightarrow> payload" where
  "sample_payload kind t ev = \<lparr>py_type = kind,
     py_log = \<lparr>lv_container = [], lv_stream = [], lv_message = [], lv_timestamp = []\<rparr>, py_target = t, py_trace = ev\<rparr>"

definition sample_browser :: "string \<Rightarrow> trace_view \<Rightarrow> page_env" where
  "sample_browser token ev = \<lparr>pe_token = token, pe_secure = False, pe_host = ''localhost:4000'', pe_lower = id,
     pe_payload = (\<lambda>_. Some (sample_payload [] (sample_health [] [] True) ev)), pe_json = (\<lambda>_. None), pe_number = (\<lambda>_. [])\<rparr>"

definition sample_view :: trace_view where
  "sample_view = \<lparr>tv_trace_id = ''t1'', tv_timestamp = ''12:00'', tv_method = ''GET'', tv_path = ''/shop'', tv_target = [],
     tv_status = 200, tv_duration = 12, tv_req_headers = None, tv_resp_headers = None, tv_request_body = [],
     tv_response_body = []\<rparr>"

lemma sample_frame [simp]: "frame_message (sample_browser token ev) data = Some (TraceMessage ev)"
  by (simp add: frame_message_def sample_browser_def sample_payload_def message_of_def)


theorem reconnection_repeats_history_witness:
  "pg_traces (page_run (sample_browser [] sample_view) initial_page
     ([SocketOpened, FrameArrived [], SocketClosed, RetryDue, SocketOpened, FrameArrived []])) = [sample_view, sample_view]"
proof -
  let ?ring = "ring_push (new_ring_buffer 2) zero_event"
  have "ring_get_all ?ring = [zero_event]" by code_simp
  with reconnection_repeats_history [of "sample_browser [] sample_view" "\<lambda>_. []" "\<lambda>_. sample_view" ?ring]
  show ?thesis by (simp add: history_frames_def)
qed

end
