(* ===== verification/Cockpit_Forms.thy ===== *)
theory Cockpit_Forms
  imports Cockpit_Properties
begin

text \<open>
  The page's forms and what the server makes of them: a recorded request on its way through the replay
  form to the engine, what the form's controls change on the way, and the forms as the page opens with.
\<close>

section \<open>The posted request\<close>

text \<open>The object \<open>/api/replay\<close> decodes, by the field tags of \<open>ReplayRequest\<close>.\<close>

definition request_json :: "replay_request \<Rightarrow> json" where
  "request_json p =
     JObj [(''method'', JStr (rp_method p)), (''url'', JStr (rp_url p)),
       (''headers'', headers_json (Some (rp_headers p))), (''body'', JStr (rp_body p)),
       (''resign_provider'', JStr (rp_resign_provider p)), (''webhook_secret'', JStr (rp_webhook_secret p)),
       (''bypass_signatures'', JBool (rp_bypass_signatures p))]"

text \<open>The request of a form whose header text stands for \<open>hs\<close>.\<close>

definition form_request :: "replay_form \<Rightarrow> str_headers \<Rightarrow> replay_request" where
  "form_request f hs = \<lparr>rp_method = rf_method f, rp_url = rf_url f, rp_headers = hs, rp_body = rf_body f,
     rp_resign_provider = rf_provider f, rp_webhook_secret = rf_secret f, rp_bypass_signatures = rf_bypass f\<rparr>"


section \<open>Texts in controls\<close>


lemma line_ends_distinct [simp]: "line_feed \<noteq> carriage_return" "carriage_return \<noteq> line_feed"
  by (simp_all add: line_feed_def carriage_return_def)

lemma textarea_clean: "carriage_return \<notin> set s \<Longrightarrow> textarea_value s = s"
  by (induction s) auto

lemma textarea_no_return: "carriage_return \<notin> set (textarea_value s)"
  by (induction s rule: textarea_value.induct) (auto split: list.split)

lemma textarea_keeps_iff: "textarea_value s = s \<longleftrightarrow> carriage_return \<notin> set s"
  using textarea_clean textarea_no_return by metis

lemma json_char_no_return: "carriage_return \<notin> set (json_char c)"
proof -
  have "carriage_return \<notin> set ''0123456789abcdef''" by code_simp
  then have digit: "hex_digit n \<noteq> carriage_return" for n using hex_digit_char by metis
  have escapes: "carriage_return \<notin> set (backslash # ''btnfru0'')" "CHR 0x22 \<noteq> carriage_return" by code_simp+
  have "c \<noteq> carriage_return" if "\<not> (of_char c :: nat) < 32" using that by (auto simp: carriage_return_def)
  with digit [symmetric] escapes show ?thesis by (auto simp: json_char_def Let_def)
qed

lemma json_string_no_return: "carriage_return \<notin> set (json_string s)"
proof -
  have "CHR 0x22 \<noteq> carriage_return" by code_simp
  with json_char_no_return show ?thesis by (auto simp: json_string_def)
qed

lemma join_with_set: "set (join_with sep xs) \<subseteq> set sep \<union> \<Union> (set ` set xs)"
  by (induction sep xs rule: join_with.induct) auto

lemma indent_no_return: "carriage_return \<notin> set (indent n)"
proof -
  have "CHR '' '' \<noteq> carriage_return" by code_simp
  then show ?thesis by (auto simp: indent_def)
qed

lemma headers_text_no_return: "carriage_return \<notin> set (json_pretty 0 (headers_json (Some hs)))"
proof -
  let ?kvs = "map (\<lambda>(k, v). (k, JStr v)) hs"
  have marks: "carriage_return \<notin> set ''{},: ''" by code_simp
  have member: "carriage_return \<notin> set x" if "x \<in> set (pretty_members n ?kvs)" for x n
    using that marks indent_no_return [of n] json_string_no_return by (induction hs) auto
  have "carriage_return \<notin> set (join_with '','' (pretty_members (Suc 0) ?kvs))"
    using join_with_set [of "'',''" "pretty_members (Suc 0) ?kvs"] member marks by fastforce
  with marks indent_no_return [of 0] show ?thesis by (simp add: headers_json_def)
qed

section \<open>Opening the selected trace\<close>

lemma opened_form:
  fixes env :: page_env
  assumes "pg_selected pg = Some t"
  defines "f \<equiv> pg_replay (fst (page_step env pg OpenInReplay))"
  shows "rf_method f = select_value replay_methods (tv_method t)" "rf_url f = field_value (tv_path t)"
    "rf_body f = textarea_value (tv_request_body t)" "rf_secret f = rf_secret (pg_replay pg)"
    "rf_bypass f = rf_bypass (pg_replay pg)"
    "tv_req_headers t = Some hs \<Longrightarrow> rf_headers f = json_pretty 0 (headers_json (Some hs))"
  using textarea_clean [OF headers_text_no_return]
  by (simp_all add: f_def assms(1) open_in_replay_def switch_tab_def Let_def)

lemma execute_fields:
  assumes "execute renv p counter = (Inr resp, Some rd, counter')"
  shows "rd_method rd = rp_method (normalise_replay p)" "rd_url rd = rp_url (normalise_replay p)" "rd_body rd = rp_body p"
  using assms by (auto simp: execute_def Let_def split: option.splits prod.splits)

lemma normalise_method: "rp_method (normalise_replay p) = (if rp_method p = [] then ''GET'' else rp_method p)"
  by (simp add: normalise_replay_def Let_def)


section \<open>Properties\<close>


text \<open>
  what the form cannot hold is lost in silence: a recorded method that is not among its
  options is replayed as \<open>GET\<close>, and a body with a carriage return is replayed as a different body.
\<close>

theorem replay_form_alters_trace:
  assumes "pg_selected pg = Some t"
    and "execute renv (form_request (pg_replay (fst (page_step env pg OpenInReplay))) hs) counter = (Inr resp, Some rd, counter')"
  shows "(tv_method t \<notin> set replay_methods \<longrightarrow> rd_method rd = ''GET'')
    \<and> (carriage_return \<in> set (tv_request_body t) \<longrightarrow> rd_body rd \<noteq> tv_request_body t)"
proof -
  let ?f = "pg_replay (fst (page_step env pg OpenInReplay))"
  have "rd_method rd = (if rf_method ?f = [] then ''GET'' else rf_method ?f)" "rd_body rd = rf_body ?f"
    using execute_fields(1,3) [OF assms(2)] by (simp_all add: normalise_method form_request_def del: page_step.simps)
  then show ?thesis
    using textarea_keeps_iff [of "tv_request_body t"]
    by (simp add: opened_form(1,3) [OF assms(1), where env = env] select_value_def del: page_step.simps)
qed

text \<open>
  the forms as the page opens with them are not JSON, their line breaks being written as a
  backslash and an \<open>n\<close>: an untouched replay form is sent without the content type it shows, and the
  body of an untouched mock form is text no client can decode. After any preset the headers are sent.
\<close>

theorem untouched_forms_are_not_json:
  assumes "\<forall>s. pe_json env (CHR ''{'' # backslash # s) = None"
  shows "snd (page_step env initial_page SendReplay)
      = [post_json env ''/api/replay'' (request_json (form_request initial_replay []))]
    \<and> pe_json env (rf_body initial_replay) = None \<and> pe_json env (mf_body initial_mock) = None"
proof -
  have texts: "\<exists>s. rf_headers initial_replay = CHR ''{'' # backslash # s" "\<exists>s. rf_body initial_replay = CHR ''{'' # backslash # s"
    "\<exists>s. mf_body initial_mock = CHR ''{'' # backslash # s"
    by (simp_all add: initial_replay_def initial_mock_def raw_break_def)
  with assms have "pe_json env (rf_headers initial_replay) = None" "pe_json env (rf_body initial_replay) = None"
    "pe_json env (mf_body initial_mock) = None" by auto
  then show ?thesis
    by (simp add: send_replay_request_def replay_payload_def request_json_def form_request_def headers_json_def
        initial_page_def)
qed

section \<open>Witnesses\<close>

text \<open>A browser whose \<open>JSON.parse\<close> knows the printed text of one header.\<close>

definition sample_headers :: str_headers where
  "sample_headers = [(''Accept'', ''text/plain'')]"

definition sample_page_env :: "string \<Rightarrow> page_env" where
  "sample_page_env token = \<lparr>pe_token = token, pe_secure = False, pe_host = ''localhost:4000'', pe_lower = id,
     pe_payload = (\<lambda>_. None),
     pe_json = (\<lambda>s. if s = json_pretty 0 (headers_json (Some sample_headers)) then Some (headers_json (Some sample_headers)) else None),
     pe_number = (\<lambda>_. [])\<rparr>"

definition sample_trace :: "string \<Rightarrow> string \<Rightarrow> trace_view" where
  "sample_trace meth body = \<lparr>tv_trace_id = ''t1'', tv_timestamp = ''12:00'', tv_method = meth, tv_path = ''/shop/cart'',
     tv_target = ''http://127.0.0.1:3000'', tv_status = 200, tv_duration = 12, tv_req_headers = Some sample_headers,
     tv_resp_headers = None, tv_request_body = body, tv_response_body = []\<rparr>"


theorem replay_form_alters_trace_witness:
  "\<exists>resp rd c. execute (sample_replay_env id)
      (form_request (pg_replay (fst (page_step (sample_page_env [])
         (initial_page\<lparr>pg_selected := Some (sample_trace ''OPTIONS'' [carriage_return])\<rparr>) OpenInReplay))) sample_headers) 0
      = (Inr resp, Some rd, c)
    \<and> rd_method rd = ''GET'' \<and> rd_body rd \<noteq> [carriage_return]"
proof -
  let ?pg = "initial_page\<lparr>pg_selected := Some (sample_trace ''OPTIONS'' [carriage_return])\<rparr>"
  obtain resp rd c where ex: "execute (sample_replay_env id) (form_request (pg_replay (fst (page_step (sample_page_env []) ?pg
      OpenInReplay))) sample_headers) 0 = (Inr resp, Some rd, c)" using sample_execute by blast
  have "rd_method rd = ''GET'' \<and> rd_body rd \<noteq> [carriage_return]"
    using replay_form_alters_trace [of ?pg "sample_trace ''OPTIONS'' [carriage_return]", OF _ ex]
    by (simp add: sample_trace_def replay_methods_def)
  with ex show ?thesis by blast
qed

theorem untouched_forms_are_not_json_witness:
  "snd (page_step (sample_page_env []) initial_page SendReplay)
      = [post_json (sample_page_env []) ''/api/replay'' (request_json (form_request initial_replay []))]"
proof -
  have "\<exists>s. json_pretty 0 (headers_json (Some sample_headers)) = CHR ''{'' # line_feed # s"
    by (simp add: sample_headers_def headers_json_def indent_def)
  moreover have "line_feed \<noteq> backslash" by code_simp
  ultimately have "\<forall>s. pe_json (sample_page_env []) (CHR ''{'' # backslash # s) = None"
    by (auto simp: sample_page_env_def)
  from untouched_forms_are_not_json [OF this] show ?thesis by simp
qed

end
