(* ===== verification/Cockpit_Pills.thy ===== *)
theory Cockpit_Pills
  imports Cockpit_Properties
begin

text \<open>
  The health bar and the waterfall of the page: which pill shows which target, after answers of
  \<open>/api/health\<close> and health frames in any order, and how wide the bars are drawn.
\<close>

section \<open>Pills and targets\<close>


definition pill_face :: "pill \<Rightarrow> string \<times> string \<times> string" where
  "pill_face p = (pl_id p, pl_class p, pl_html p)"

definition target_face :: "health_view \<Rightarrow> string \<times> string \<times> string" where
  "target_face t = (pill_id (hv_host t), pill_class t, pill_html t)"



lemma pill_of_id [simp]: "pl_id (pill_of t) = pill_id (hv_host t)"
  by (simp add: pill_of_def)

lemma pill_of_face [simp]: "pill_face (pill_of t) = target_face t"
  by (simp add: pill_face_def target_face_def pill_of_def)










text \<open>The steps that leave the bar alone, and what the others bring.\<close>

definition pills_part :: "page \<Rightarrow> pill list \<times> (string \<times> health_view) list" where
  "pills_part pg = (pg_pills pg, pg_health pg)"

lemma pills_frame [simp]:
  "pills_part (apply_filters env pg) = pills_part pg" "pills_part (render_trace_list pg) = pills_part pg"
  "pills_part (append_docker_log l pg) = pills_part pg" "pills_part (clear_docker_logs pg) = pills_part pg"
  "pills_part (render_waterfall env tid pg) = pills_part pg" "pills_part (show_mocks rules pg) = pills_part pg"
  "pills_part (replay_answered env res pg) = pills_part pg" "pills_part (replay_failed msg pg) = pills_part pg"
  "pills_part (toggle_pause pg) = pills_part pg" "pills_part (load_preset kind pg) = pills_part pg"
  "pills_part (pg\<lparr>pg_tab := a\<rparr>) = pills_part pg" "pills_part (pg\<lparr>pg_mock_form := b\<rparr>) = pills_part pg"
  "pills_part (pg\<lparr>pg_replay := c\<rparr>) = pills_part pg" "pills_part (pg\<lparr>pg_ws_status := d\<rparr>) = pills_part pg"
  "pills_part (pg\<lparr>pg_replay_badge := e\<rparr>) = pills_part pg" "pills_part (pg\<lparr>pg_filter_text := f\<rparr>) = pills_part pg"
  by (simp_all add: pills_part_def apply_filters_def render_trace_list_def append_docker_log_def clear_docker_logs_def
      render_waterfall_def show_mocks_def replay_answered_def replay_failed_def toggle_pause_def load_preset_def Let_def)

lemma pills_frame_lists [simp]:
  "pills_part (handle_incoming_trace env ev pg) = pills_part pg" "pills_part (set_status_filter env status pg) = pills_part pg"
  "pills_part (clear_traces pg) = pills_part pg" "pills_part (select_trace env ev pg) = pills_part pg"
  by (simp_all add: handle_incoming_trace_def set_status_filter_def clear_traces_def select_trace_def Let_def)
     (simp_all add: pills_part_def render_trace_list_def)

lemma pills_frame_tab [simp]: "pills_part (fst (switch_tab env tab pg)) = pills_part pg"
  by (simp add: switch_tab_def Let_def split: option.split list.split)





section \<open>Bar widths\<close>

lemma foldl_max: "foldl max d ds = Max (set (d # ds))" for d :: int
proof -
  have "foldl max d ds = fold max ds d"
    unfolding foldl_conv_fold by (simp only: max.commute)
  then show ?thesis by (simp only: Max.set_eq_fold)
qed

lemma max_duration_Max:
  assumes "related \<noteq> []"
  shows "max_duration related
    = (if Max (set (map tv_duration related)) = 0 then 1 else Max (set (map tv_duration related)))"
proof (cases related)
  case (Cons t ts)
  show ?thesis unfolding Cons max_duration_def list.map list.case foldl_max Let_def ..
qed (use assms in simp)

lemma bar_width_least: "10 \<le> bar_width d m"
  by (simp add: bar_width_def)

lemma bar_width_full: "0 < m \<Longrightarrow> bar_width m m = 100"
  by (simp add: bar_width_def)

lemma bar_width_mono:
  assumes "d \<le> d'" "0 < m"
  shows "bar_width d m \<le> bar_width d' m"
proof -
  have "(of_int d :: rat) / of_int m \<le> of_int d' / of_int m"
    using assms by (intro divide_right_mono) simp_all
  then show ?thesis unfolding bar_width_def by (intro max.mono mult_right_mono) simp_all
qed

section \<open>Properties\<close>


text \<open>
  two targets on one host share an id: after an answer with both, a change of the second one
  repaints the pill of the first, whose title keeps naming the first, and leaves its own pill as it was.
\<close>

theorem colliding_targets_share_pill:
  assumes "hv_url a \<noteq> hv_url b" "hv_host a = hv_host b" "hv_host b' = hv_host b" "hv_url b' = hv_url b"
    and "frame_message env data = Some (HealthMessage b')" "\<not> pg_paused pg"
  shows "pg_pills (page_run env pg [HealthAnswer [a, b], FrameArrived data])
      = [(pill_of a)\<lparr>pl_class := pill_class b', pl_html := pill_html b'\<rparr>, pill_of b]"
proof -
  have "pg_pills (show_health [a, b] pg) = [pill_of a, pill_of b]" "\<not> pg_paused (show_health [a, b] pg)"
    using assms(6) by (simp_all add: show_health_def render_health_pill_def note_health_def)
  then show ?thesis
    using assms(2,3,5) by (simp add: page_run_def on_message_def update_health_pill_def note_health_def Let_def)
qed

text \<open>
  the bars of a waterfall fit their track: for durations that are not negative each is between
  10 and 100 percent wide, a longer hop never has the shorter bar, and the longest fills the track
  unless all took 0 ms.
\<close>

theorem waterfall_bars_fit:
  assumes "related = filter (\<lambda>t. tv_trace_id t = tid) traces" "\<forall>t \<in> set related. 0 \<le> tv_duration t" "t \<in> set related"
  shows "10 \<le> bar_width (tv_duration t) (max_duration related) \<and> bar_width (tv_duration t) (max_duration related) \<le> 100
    \<and> (\<forall>t' \<in> set related. tv_duration t \<le> tv_duration t'
         \<longrightarrow> bar_width (tv_duration t) (max_duration related) \<le> bar_width (tv_duration t') (max_duration related))
    \<and> ((\<forall>t' \<in> set related. tv_duration t' \<le> tv_duration t) \<and> 0 < tv_duration t
         \<longrightarrow> bar_width (tv_duration t) (max_duration related) = 100)"
proof -
  let ?ds = "map tv_duration related"
  have max: "max_duration related = (if Max (set ?ds) = 0 then 1 else Max (set ?ds))"
    by (rule max_duration_Max) (use assms(3) in auto)
  have le: "tv_duration t' \<le> Max (set ?ds)" if "t' \<in> set related" for t' using that by simp
  have "0 \<le> tv_duration t" using assms(2,3) by blast
  with le [OF assms(3)] have pos: "0 < max_duration related" unfolding max by simp
  have top: "tv_duration t' \<le> max_duration related" if "t' \<in> set related" for t'
    using le [OF that] by (auto simp: max)
  have "bar_width (tv_duration t) (max_duration related) = 100"
    if "\<forall>t' \<in> set related. tv_duration t' \<le> tv_duration t" "0 < tv_duration t"
  proof -
    have "Max (set ?ds) = tv_duration t" using that(1) assms(3) by (intro Max_eqI) auto
    with that(2) bar_width_full [OF that(2)] max show ?thesis by simp
  qed
  moreover have "bar_width (tv_duration t) (max_duration related) \<le> 100"
    using bar_width_mono [OF top [OF assms(3)] pos] bar_width_full [OF pos] by simp
  ultimately show ?thesis using bar_width_least bar_width_mono [OF _ pos] by blast
qed

section \<open>Witnesses\<close>

definition health_page_env :: "health_view \<Rightarrow> page_env" where
  "health_page_env t = \<lparr>pe_token = [], pe_secure = False, pe_host = ''localhost:4000'', pe_lower = id,
     pe_payload = (\<lambda>_. Some (sample_payload ''health'' t sample_view)), pe_json = (\<lambda>_. None), pe_number = (\<lambda>_. [])\<rparr>"

lemma health_frame [simp]: "frame_message (health_page_env t) data = Some (HealthMessage t)"
  by (simp add: frame_message_def health_page_env_def sample_payload_def message_of_def)


theorem colliding_targets_share_pill_witness:
  "pg_pills (page_run (health_page_env (sample_health ''http://a/2'' ''a'' False)) initial_page
       [HealthAnswer [sample_health ''http://a/1'' ''a'' True, sample_health ''http://a/2'' ''a'' True], FrameArrived ''x''])
   = [(pill_of (sample_health ''http://a/1'' ''a'' True))
        \<lparr>pl_class := pill_class (sample_health ''http://a/2'' ''a'' False), pl_html := pill_html (sample_health ''http://a/2'' ''a'' False)\<rparr>,
      pill_of (sample_health ''http://a/2'' ''a'' True)]"
  by (rule colliding_targets_share_pill) (simp_all add: sample_health_def initial_page_def)

definition sample_hop :: "int \<Rightarrow> trace_view" where
  "sample_hop ms = \<lparr>tv_trace_id = ''t1'', tv_timestamp = [], tv_method = ''GET'', tv_path = ''/'', tv_target = [],
     tv_status = 200, tv_duration = ms, tv_req_headers = None, tv_resp_headers = None, tv_request_body = [],
     tv_response_body = []\<rparr>"

theorem waterfall_bars_fit_witness:
  "bar_width 40 (max_duration [sample_hop 40, sample_hop 1]) = 100 \<and> 10 \<le> bar_width 1 (max_duration [sample_hop 40, sample_hop 1])"
  using waterfall_bars_fit [of "[sample_hop 40, sample_hop 1]" "''t1''" "[sample_hop 40, sample_hop 1]" "sample_hop 40"]
    waterfall_bars_fit [of "[sample_hop 40, sample_hop 1]" "''t1''" "[sample_hop 40, sample_hop 1]" "sample_hop 1"]
  by (simp add: sample_hop_def)

end
