(* ===== verification/Live_Stream.thy ===== *)
theory Live_Stream
  imports Cockpit_Properties Discovery "HOL-Library.Sublist" "HOL-Library.Multiset"
begin

text \<open>
  One dashboard connection from the hub of src/internal/app/app.go to the page: what a client that
  receives the recorded history while events are broadcast gets, in which order, and when it loses some; and the output of a container on its
  way from the demultiplexer to the log console.
\<close>

section \<open>Choosing from two sequences\<close>

text \<open>A tagged sequence: the frames of the history are tagged \<open>True\<close>, the live ones \<open>False\<close>.\<close>

definition tagged :: "bool \<Rightarrow> (bool \<times> 'a) list \<Rightarrow> 'a list" where
  "tagged b ts = map snd (filter (\<lambda>(t, _). t = b) ts)"

lemma tagged_simps [simp]:
  "tagged b [] = []" "tagged b (ts @ us) = tagged b ts @ tagged b us" "tagged b [(b', x)] = (if b' = b then [x] else [])"
  by (simp_all add: tagged_def)

lemma tagged_subseq: "subseq ts us \<Longrightarrow> subseq (tagged b ts) (tagged b us)"
  unfolding tagged_def by (intro subseq_map subseq_filter)

lemma tagged_shuffles: "map snd ts \<in> shuffles (tagged True ts) (tagged False ts)"
  by (induction ts) (auto simp: tagged_def intro: Cons_in_shuffles_leftI Cons_in_shuffles_rightI)

lemma tagged_length: "length (tagged True ts) + length (tagged False ts) = length ts"
  by (induction ts) (auto simp: tagged_def)

section \<open>A followed connection\<close>

definition client_frames :: "ws_client \<Rightarrow> string list" where
  "client_frames cl = ws_written cl @ ws_buf cl"

text \<open>
  A run of the hub from the moment client \<open>c\<close> is taken in with history \<open>hist\<close>; \<open>live\<close> are the frames
  broadcast to it so far.
\<close>

inductive followed :: "nat \<Rightarrow> string list \<Rightarrow> string list \<Rightarrow> hub \<Rightarrow> bool" for c hist where
  joined: "hub_reachable h \<Longrightarrow> hub_loop h = Selecting \<Longrightarrow> hub_heap h c = Some cl \<Longrightarrow> ws_handler cl = Joining \<Longrightarrow>
    followed c hist [] (set_client c (cl\<lparr>ws_handler := Replaying hist, ws_writer := Writing\<rparr>)
      (h\<lparr>hub_loop := (if hub_closed h then Selecting else Inserting c)\<rparr>))"
| broadcast: "followed c hist live h \<Longrightarrow> hub_loop h = Delivering m \<Longrightarrow>
    followed c hist (if c \<in> set (hub_clients h) then live @ [m] else live) (deliver m (h\<lparr>hub_loop := Selecting\<rparr>))"
| meanwhile: "followed c hist live h \<Longrightarrow> hub_step h h' \<Longrightarrow> hub_loop h' = hub_loop h \<or> (\<forall>m. hub_loop h \<noteq> Delivering m) \<Longrightarrow>
    followed c hist live h'"

lemma followed_reachable: "followed c hist live h \<Longrightarrow> hub_reachable h"
proof (induction rule: followed.induct)
  case (joined h cl)
  then show ?case by (blast intro: hub_next by_loop loop_register)
next
  case (broadcast live h m)
  then show ?case by (blast intro: hub_next by_loop loop_deliver)
next
  case (meanwhile live h h')
  then show ?case by (blast intro: hub_next)
qed

text \<open>
  What holds of the client: its frames are a choice \<open>ts\<close> from what was sent, in the order it was sent,
  and everything while the writer works and the buffer cannot have been full.
\<close>

definition stream_ok :: "string list \<Rightarrow> string list \<Rightarrow> ws_client \<Rightarrow> bool" where
  "stream_ok hist live cl \<longleftrightarrow> (\<exists>sent ts. map snd ts = client_frames cl \<and> subseq (tagged True ts) sent \<and> subseq (tagged False ts) live
     \<and> (case ws_handler cl of Replaying p \<Rightarrow> hist = sent @ p | Reading \<Rightarrow> hist = sent | Crashed \<Rightarrow> prefix sent hist | Joining \<Rightarrow> False)
     \<and> (ws_writer cl = Writing \<and> length sent + length live \<le> send_capacity \<longrightarrow> tagged True ts = sent \<and> tagged False ts = live))"

lemma stream_ok_start:
  assumes "ws_ok cl" "ws_handler cl = Joining" "ws_written cl = []"
  shows "stream_ok hist [] (cl\<lparr>ws_handler := Replaying hist, ws_writer := Writing\<rparr>)"
  using assms by (auto simp: stream_ok_def client_frames_def ws_ok_def intro!: exI [of _ "[]"])

lemma stream_ok_same:
  assumes "stream_ok hist live cl" "client_frames cl' = client_frames cl" "ws_handler cl' = ws_handler cl"
    "ws_writer cl' = Writing \<longrightarrow> ws_writer cl = Writing"
  shows "stream_ok hist live cl'"
  using assms by (simp add: stream_ok_def) metis

text \<open>A frame that is offered: appended, or dropped by a full buffer.\<close>

lemma offer_cases:
  assumes "offer_frame m cl = Some cl'"
  shows "client_frames cl' = client_frames cl @ [m] \<or> client_frames cl' = client_frames cl \<and> send_capacity \<le> length (ws_buf cl)"
    "ws_handler cl' = ws_handler cl" "ws_writer cl' = ws_writer cl" "ws_written cl' = ws_written cl"
  using assms by (auto simp: offer_frame_def client_frames_def split: if_splits)

lemma buffered:
  assumes "map snd ts = client_frames cl" "subseq (tagged True ts) sent" "subseq (tagged False ts) live"
  shows "length (ws_buf cl) \<le> length sent + length live"
proof -
  have "length (ws_buf cl) \<le> length ts" using assms(1) by (metis client_frames_def length_append length_map le_add2)
  also have "\<dots> \<le> length sent + length live"
    using tagged_length [of ts] list_emb_length [OF assms(2)] list_emb_length [OF assms(3)] by linarith
  finally show ?thesis .
qed

lemma stream_ok_live:
  assumes "stream_ok hist live cl" "offer_frame m cl = Some cl'"
  shows "stream_ok hist (live @ [m]) cl'"
proof -
  from assms(1) obtain sent ts where ts: "map snd ts = client_frames cl" "subseq (tagged True ts) sent" "subseq (tagged False ts) live"
    "case ws_handler cl of Replaying p \<Rightarrow> hist = sent @ p | Reading \<Rightarrow> hist = sent | Crashed \<Rightarrow> prefix sent hist | Joining \<Rightarrow> False"
    "ws_writer cl = Writing \<and> length sent + length live \<le> send_capacity \<longrightarrow> tagged True ts = sent \<and> tagged False ts = live"
    by (auto simp: stream_ok_def)
  note offer = offer_cases [OF assms(2)]
  from offer(1) show ?thesis
  proof
    assume app: "client_frames cl' = client_frames cl @ [m]"
    show ?thesis unfolding stream_ok_def
      by (rule exI [of _ sent], rule exI [of _ "ts @ [(False, m)]"]) (use ts app offer(2,3) in \<open>auto simp: list_emb_append_mono\<close>)
  next
    assume full: "client_frames cl' = client_frames cl \<and> send_capacity \<le> length (ws_buf cl)"
    with buffered [OF ts(1-3)] have "send_capacity \<le> length sent + length live" by simp
    moreover have "subseq (tagged False ts) (live @ [m])" using ts(3) by (rule list_emb_prefix)
    ultimately show ?thesis unfolding stream_ok_def
      by (intro exI [of _ sent] exI [of _ ts]) (use ts full offer(2,3) in auto)
  qed
qed

lemma stream_ok_replay:
  assumes "stream_ok hist live cl" "ws_handler cl = Replaying (m # ms)" "offer_frame m cl = Some cl'"
  shows "stream_ok hist live (cl'\<lparr>ws_handler := Replaying ms\<rparr>)"
proof -
  from assms(1,2) obtain sent ts where ts: "map snd ts = client_frames cl" "subseq (tagged True ts) sent" "subseq (tagged False ts) live"
    "hist = sent @ m # ms"
    "ws_writer cl = Writing \<and> length sent + length live \<le> send_capacity \<longrightarrow> tagged True ts = sent \<and> tagged False ts = live"
    by (auto simp: stream_ok_def)
  note offer = offer_cases [OF assms(3)]
  have frames: "client_frames (cl'\<lparr>ws_handler := Replaying ms\<rparr>) = client_frames cl'" by (simp add: client_frames_def)
  from offer(1) show ?thesis
  proof
    assume app: "client_frames cl' = client_frames cl @ [m]"
    show ?thesis unfolding stream_ok_def frames
      by (rule exI [of _ "sent @ [m]"], rule exI [of _ "ts @ [(True, m)]"]) (use ts app offer(3) in \<open>auto simp: list_emb_append_mono\<close>)
  next
    assume full: "client_frames cl' = client_frames cl \<and> send_capacity \<le> length (ws_buf cl)"
    with buffered [OF ts(1-3)] have "send_capacity \<le> length sent + length live" by simp
    moreover have "subseq (tagged True ts) (sent @ [m])" using ts(2) by (rule list_emb_prefix)
    ultimately show ?thesis unfolding stream_ok_def frames
      by (intro exI [of _ "sent @ [m]"] exI [of _ ts]) (use ts full offer(3) in auto)
  qed
qed

lemma stream_ok_crash:
  assumes "stream_ok hist live cl" "ws_handler cl = Replaying p"
  shows "stream_ok hist live (cl\<lparr>ws_handler := Crashed\<rparr>)"
proof -
  have "client_frames (cl\<lparr>ws_handler := Crashed\<rparr>) = client_frames cl" by (simp add: client_frames_def)
  with assms show ?thesis by (simp add: stream_ok_def) (metis prefixI)
qed

lemma stream_ok_read:
  assumes "stream_ok hist live cl" "ws_handler cl = Replaying []"
  shows "stream_ok hist live (cl\<lparr>ws_handler := Reading\<rparr>)"
  using assms by (auto simp: stream_ok_def client_frames_def)

lemma stream_ok_fail:
  assumes "stream_ok hist live cl" "ws_buf cl = m # ms" "w \<noteq> Writing"
  shows "stream_ok hist live (cl\<lparr>ws_buf := ms, ws_writer := w\<rparr>)"
proof -
  from assms(1) obtain sent ts where ts: "map snd ts = client_frames cl" "subseq (tagged True ts) sent" "subseq (tagged False ts) live"
    "case ws_handler cl of Replaying p \<Rightarrow> hist = sent @ p | Reading \<Rightarrow> hist = sent | Crashed \<Rightarrow> prefix sent hist | Joining \<Rightarrow> False"
    by (auto simp: stream_ok_def)
  let ?n = "length (ws_written cl)"
  have "map snd (take ?n ts @ drop (Suc ?n) ts) = ws_written cl @ ms"
    using ts(1) assms(2) by (simp add: client_frames_def flip: take_map drop_map)
  moreover have "subseq (take ?n ts @ drop (Suc ?n) ts) ts"
  proof -
    have "suffix (drop (Suc ?n) ts) (drop ?n ts)" by (metis drop_Suc drop_drop suffix_drop add.commute plus_1_eq_Suc)
    then have "subseq (take ?n ts @ drop (Suc ?n) ts) (take ?n ts @ drop ?n ts)"
      by (intro list_emb_append_mono) (auto intro: suffix_imp_subseq)
    then show ?thesis by simp
  qed
  then have "subseq (tagged True (take ?n ts @ drop (Suc ?n) ts)) sent" "subseq (tagged False (take ?n ts @ drop (Suc ?n) ts)) live"
    using ts(2,3) by (blast intro: subseq_order.trans tagged_subseq)+
  ultimately show ?thesis unfolding stream_ok_def
    by (intro exI [of _ sent] exI [of _ "take ?n ts @ drop (Suc ?n) ts"])
       (use ts(4) assms(3) in \<open>simp add: client_frames_def del: tagged_simps map_append\<close>)
qed

section \<open>The client in the hub\<close>

lemma on_client_fields [simp]:
  "hub_loop (on_client f c h) = hub_loop h" "hub_clients (on_client f c h) = hub_clients h"
  by (auto simp: on_client_def set_client_def split: option.split)

lemma deliver_loop [simp]: "hub_loop (deliver m h) = hub_loop h"
proof -
  have "hub_loop (fold (on_client f) cs h') = hub_loop h'" for f cs h'
    by (induction cs arbitrary: h') simp_all
  then show ?thesis by (simp add: deliver_def)
qed

lemma remove_client_heap:
  assumes "hub_heap h c = Some cl"
  shows "hub_heap (remove_client d h) c = Some cl \<or> hub_heap (remove_client d h) c = Some (cl\<lparr>ws_closed := True\<rparr>)"
  using assms by (auto simp: remove_client_def on_client_def set_client_def close_frames_def split: option.split Option.bind_split if_splits)

lemma clear_clients_heap:
  assumes "hub_ok h" "hub_heap h c = Some cl"
  shows "hub_heap (clear_clients h) c = Some cl \<or> hub_heap (clear_clients h) c = Some (cl\<lparr>ws_closed := True\<rparr>)"
proof -
  have "\<not> ws_closed cl" if "c \<in> set (hub_clients h)"
    using open_clientD [OF hub_okD(3) [OF assms(1) that] assms(2)] by blast
  with assms(2) show ?thesis by (simp add: clear_ok_simp [OF assms(1)] close_frames_def)
qed

lemma stream_ok_closed: "stream_ok hist live cl \<Longrightarrow> stream_ok hist live (cl\<lparr>ws_closed := True\<rparr>)"
  by (erule stream_ok_same) (simp_all add: client_frames_def)

lemma hub_ok_selecting: "hub_ok h \<Longrightarrow> hub_ok (h\<lparr>hub_loop := Selecting\<rparr>)"
  by (simp add: hub_ok_def client_open_def)

lemma hub_ok_returned: "hub_ok h \<Longrightarrow> hub_ok (h\<lparr>hub_loop := Returned\<rparr>)"
  by (simp add: hub_ok_def client_open_def)

lemma hub_ok_closer: "hub_ok h \<Longrightarrow> hub_ok (h\<lparr>hub_closer := Closed\<rparr>)"
  by (simp add: hub_ok_def client_open_def)

lemma client_loop: "client_step h h' \<Longrightarrow> hub_loop h' = hub_loop h"
  by (auto elim!: client_stepE simp: set_client_def writer_leaves_def)

lemma loop_keeps_stream:
  assumes "loop_step h h'" "hub_ok h" "hub_loop h' = hub_loop h \<or> (\<forall>m. hub_loop h \<noteq> Delivering m)"
    and "hub_heap h c = Some cl" "stream_ok hist live cl"
  shows "\<exists>cl'. hub_heap h' c = Some cl' \<and> stream_ok hist live cl'"
  using assms(1)
proof cases
  case (loop_register d cl0 history)
  have "d \<noteq> c" using loop_register(3,4) assms(4,5) by (auto simp: stream_ok_def)
  with loop_register assms(4,5) show ?thesis by (auto simp: set_client_def)
next
  case (loop_unregister d cl0)
  have "stream_ok hist live (cl\<lparr>ws_writer := Gone\<rparr>)"
    by (rule stream_ok_same [OF assms(5)]) (simp_all add: client_frames_def)
  with loop_unregister assms(4,5) show ?thesis by (auto simp: set_client_def)
next
  case (loop_remove d)
  from remove_client_heap [of "h\<lparr>hub_loop := Selecting\<rparr>" c cl d] stream_ok_closed [OF assms(5)] assms(4,5)
  show ?thesis unfolding loop_remove by auto
next
  case loop_clear
  from clear_clients_heap [OF hub_ok_returned [OF assms(2)], of c cl] stream_ok_closed [OF assms(5)] assms(4,5)
  show ?thesis unfolding loop_clear by auto
qed (use assms in \<open>auto simp: insert_client_def\<close>)

lemma client_keeps_stream:
  assumes "client_step h h'" "hub_heap h c = Some cl" "stream_ok hist live cl"
  shows "\<exists>cl'. hub_heap h' c = Some cl' \<and> stream_ok hist live cl'"
  using assms(1)
proof cases
  case (client_connect d)
  with assms(2,3) show ?thesis by (cases "d = c") (auto simp: set_client_def)
next
  case (client_history d cl0 m ms)
  show ?thesis
  proof (cases "d = c")
    case True
    with client_history assms(2) have "cl0 = cl" by simp
    with client_history True stream_ok_replay [OF assms(3)] stream_ok_crash [OF assms(3)] show ?thesis
      by (auto simp: set_client_def split: option.split)
  qed (use client_history assms in \<open>auto simp: set_client_def\<close>)
next
  case (client_read d cl0)
  with assms stream_ok_read [OF assms(3)] show ?thesis by (cases "d = c") (auto simp: set_client_def)
next
  case (writer_write d cl0 m ms)
  have "stream_ok hist live (cl\<lparr>ws_buf := ms, ws_written := ws_written cl @ [m]\<rparr>)" if "ws_buf cl = m # ms"
    by (rule stream_ok_same [OF assms(3)]) (simp_all add: client_frames_def that)
  with writer_write assms show ?thesis by (cases "d = c") (auto simp: set_client_def)
next
  case (writer_fail d cl0 m ms)
  show ?thesis
  proof (cases "d = c")
    case True
    with writer_fail assms(2) have "ws_buf cl = m # ms" "cl0 = cl" by simp_all
    with writer_fail True stream_ok_fail [OF assms(3)] show ?thesis by (auto simp: writer_leaves_def set_client_def)
  qed (use writer_fail assms in \<open>auto simp: writer_leaves_def set_client_def\<close>)
next
  case (writer_end d cl0)
  have "stream_ok hist live (cl\<lparr>ws_writer := w\<rparr>)" if "w \<noteq> Writing" for w
    by (rule stream_ok_same [OF assms(3)]) (simp_all add: client_frames_def that)
  with writer_end assms show ?thesis by (cases "d = c") (auto simp: writer_leaves_def set_client_def)
next
  case (writer_timeout d cl0)
  have "stream_ok hist live (cl\<lparr>ws_writer := Gone\<rparr>)"
    by (rule stream_ok_same [OF assms(3)]) (simp_all add: client_frames_def)
  with writer_timeout assms show ?thesis by (cases "d = c") (auto simp: set_client_def)
qed

lemma step_keeps_stream:
  assumes "hub_step h h'" "hub_ok h" "hub_loop h' = hub_loop h \<or> (\<forall>m. hub_loop h \<noteq> Delivering m)"
    and "hub_heap h c = Some cl" "stream_ok hist live cl"
  shows "\<exists>cl'. hub_heap h' c = Some cl' \<and> stream_ok hist live cl'"
  using assms(1)
proof cases
  case by_loop
  then show ?thesis by (rule loop_keeps_stream [OF _ assms(2-5)])
next
  case by_closer
  then show ?thesis
  proof cases
    case close_clear
    from clear_clients_heap [OF hub_ok_closer [OF assms(2)], of c cl] stream_ok_closed [OF assms(5)] assms(4,5)
    show ?thesis unfolding close_clear by auto
  qed (use assms(4,5) in auto)
next
  case by_sender
  then show ?thesis by cases (use assms(4,5) in \<open>auto simp: offer_broadcast_def\<close>)
next
  case by_client
  then show ?thesis by (rule client_keeps_stream [OF _ assms(4,5)])
qed

text \<open>A client that has not joined has been sent nothing.\<close>

definition joining_fresh :: "hub \<Rightarrow> bool" where
  "joining_fresh h \<longleftrightarrow> (\<forall>c cl. hub_heap h c = Some cl \<and> ws_handler cl = Joining \<longrightarrow> ws_written cl = [])"

lemma joining_fresh_set:
  "joining_fresh h \<Longrightarrow> (ws_handler cl = Joining \<Longrightarrow> ws_written cl = []) \<Longrightarrow> joining_fresh (set_client c cl h)"
  by (auto simp: joining_fresh_def set_client_def)

lemma joining_fresh_heap: "joining_fresh h \<Longrightarrow> hub_heap h' = hub_heap h \<Longrightarrow> joining_fresh h'"
  by (simp add: joining_fresh_def)

lemma joining_fresh_on_client:
  assumes "joining_fresh h" "\<And>cl cl'. f cl = Some cl' \<Longrightarrow> ws_handler cl' = ws_handler cl \<and> ws_written cl' = ws_written cl"
  shows "joining_fresh (on_client f c h)"
proof (cases "Option.bind (hub_heap h c) f")
  case (Some cl')
  then obtain cl where "hub_heap h c = Some cl" "f cl = Some cl'" by (auto simp: bind_eq_Some_conv)
  with assms(2) [of cl cl'] assms(1) have "ws_handler cl' = Joining \<Longrightarrow> ws_written cl' = []" by (auto simp: joining_fresh_def)
  with Some assms(1) show ?thesis by (simp add: on_client_def joining_fresh_set)
qed (use assms(1) in \<open>simp add: on_client_def joining_fresh_def\<close>)

lemma joining_fresh_on_clients:
  assumes "joining_fresh h" "\<And>cl cl'. f cl = Some cl' \<Longrightarrow> ws_handler cl' = ws_handler cl \<and> ws_written cl' = ws_written cl"
  shows "joining_fresh (fold (on_client f) cs h)"
  using assms(1) by (induction cs arbitrary: h) (simp_all add: joining_fresh_on_client assms(2))

lemma close_frames_keeps: "close_frames cl = Some cl' \<Longrightarrow> ws_handler cl' = ws_handler cl \<and> ws_written cl' = ws_written cl"
  by (auto simp: close_frames_def split: if_splits)

lemma offer_frame_keeps: "offer_frame m cl = Some cl' \<Longrightarrow> ws_handler cl' = ws_handler cl \<and> ws_written cl' = ws_written cl"
  by (auto dest: offer_cases)

lemma joining_fresh_clear: "joining_fresh h \<Longrightarrow> joining_fresh (clear_clients h)"
  unfolding clear_clients_def
  by (rule joining_fresh_heap [OF joining_fresh_on_clients [of h close_frames "hub_clients h"]]) (simp_all add: close_frames_keeps)

lemma joining_fresh_deliver: "joining_fresh h \<Longrightarrow> joining_fresh (deliver m h)"
  unfolding deliver_def by (rule joining_fresh_on_clients) (simp_all add: offer_frame_keeps)

lemma joining_fresh_remove: "joining_fresh h \<Longrightarrow> joining_fresh (remove_client c h)"
  unfolding remove_client_def
  by (auto intro!: joining_fresh_on_client close_frames_keeps) (simp_all add: joining_fresh_def close_frames_keeps)

lemma joining_fresh_loop: "loop_step h h' \<Longrightarrow> joining_fresh h \<Longrightarrow> joining_fresh h'"
proof (induction rule: loop_step.induct)
  case (loop_register h c cl history)
  then show ?case by (intro joining_fresh_set) (auto intro: joining_fresh_heap)
next
  case (loop_unregister h c cl)
  then show ?case by (intro joining_fresh_set) (auto intro: joining_fresh_heap simp: joining_fresh_def)
next
  case (loop_remove h c)
  then show ?case by (intro joining_fresh_remove) (auto intro: joining_fresh_heap)
next
  case (loop_deliver h m)
  then show ?case by (intro joining_fresh_deliver) (auto intro: joining_fresh_heap)
next
  case (loop_clear h)
  then show ?case by (intro joining_fresh_clear) (auto intro: joining_fresh_heap)
qed (auto simp: joining_fresh_def insert_client_def)

lemma joining_fresh_client: "client_step h h' \<Longrightarrow> hub_ok h \<Longrightarrow> joining_fresh h \<Longrightarrow> joining_fresh h'"
proof (induction rule: client_step.induct)
  case (client_connect h c)
  then show ?case by (intro joining_fresh_set) (simp_all add: new_ws_client_def)
next
  case (client_history h c cl m ms)
  then show ?case by (intro joining_fresh_set) (auto split: option.splits)
next
  case (client_read h c cl)
  then show ?case by (intro joining_fresh_set) simp_all
next
  case (writer_write h c cl m ms)
  then have "ws_handler cl \<noteq> Joining" using hub_okD(6) [of h c cl] by (auto simp: ws_ok_def)
  with writer_write show ?case by (intro joining_fresh_set) simp_all
qed (auto simp: writer_leaves_def joining_fresh_def set_client_def)

lemma joining_fresh_step:
  assumes "hub_step h h'" "hub_ok h" "joining_fresh h"
  shows "joining_fresh h'"
  using assms(1)
proof cases
  case by_loop
  then show ?thesis using assms(3) by (rule joining_fresh_loop)
next
  case by_closer
  then show ?thesis
  proof cases
    case close_clear
    show ?thesis unfolding close_clear
      by (intro joining_fresh_clear) (rule joining_fresh_heap [OF assms(3)], simp)
  next
    case close_swap
    show ?thesis unfolding close_swap by (rule joining_fresh_heap [OF assms(3)]) simp
  qed
next
  case by_sender
  then show ?thesis
    by cases (rule joining_fresh_heap [OF assms(3)], simp add: offer_broadcast_def)+
next
  case by_client
  then show ?thesis using assms(2,3) by (rule joining_fresh_client)
qed

lemma joining_fresh_reachable: "hub_reachable h \<Longrightarrow> joining_fresh h"
proof (induction rule: hub_reachable.induct)
  case hub_start
  show ?case by (simp add: joining_fresh_def new_hub_def)
next
  case (hub_next h h')
  then show ?case by (intro joining_fresh_step [OF hub_next.hyps(2) hub_ok_reachable])
qed

lemma followed_stream:
  "followed c hist live h \<Longrightarrow> \<exists>cl. hub_heap h c = Some cl \<and> stream_ok hist live cl"
proof (induction rule: followed.induct)
  case (joined h cl)
  have "ws_ok cl" "ws_written cl = []"
    using hub_okD(6) [OF hub_ok_reachable] joining_fresh_reachable joined by (auto simp: joining_fresh_def)
  with stream_ok_start joined show ?case by (auto simp: set_client_def)
next
  case (broadcast live h m)
  then obtain cl where cl: "hub_heap h c = Some cl" "stream_ok hist live cl" by blast
  have ok: "hub_ok (h\<lparr>hub_loop := Selecting\<rparr>)"
    by (intro hub_ok_selecting hub_ok_reachable followed_reachable) (rule broadcast.hyps)
  show ?case
  proof (cases "c \<in> set (hub_clients h)")
    case True
    then have "\<not> ws_closed cl" using open_clientD [OF hub_okD(3) [OF ok]] cl(1) by simp
    then obtain cl' where "offer_frame m cl = Some cl'" by (simp add: offer_frame_def)
    with True cl stream_ok_live [OF cl(2)] show ?thesis by (auto simp: deliver_ok_simp [OF ok])
  next
    case False
    with cl show ?thesis by (simp add: deliver_ok_simp [OF ok])
  qed
next
  case (meanwhile live h h')
  then obtain cl where "hub_heap h c = Some cl" "stream_ok hist live cl" by blast
  with step_keeps_stream [OF meanwhile.hyps(2) hub_ok_reachable [OF followed_reachable [OF meanwhile.hyps(1)]] meanwhile.hyps(3)]
  show ?case by blast
qed

section \<open>Properties\<close>

text \<open>
  C31: what a connected dashboard receives while traffic goes on: the frames written to it or waiting
  for it are an interleaving of frames of its history and of frames broadcast since it joined, each in
  the order they were sent; nothing is missing as long as the connection works and history and
  broadcasts together fit its buffer of 256 frames.
\<close>

theorem stream_is_history_and_broadcasts:
  assumes "followed c hist live h"
  shows "\<exists>cl hs ds. hub_heap h c = Some cl \<and> ws_written cl @ ws_buf cl \<in> shuffles hs ds \<and> subseq hs hist \<and> subseq ds live
    \<and> (ws_handler cl = Reading \<and> ws_writer cl = Writing \<and> length hist + length live \<le> 256 \<longrightarrow> hs = hist \<and> ds = live)"
proof -
  obtain cl where cl: "hub_heap h c = Some cl" "stream_ok hist live cl" using followed_stream [OF assms] by blast
  then obtain sent ts where ts: "map snd ts = client_frames cl" "subseq (tagged True ts) sent" "subseq (tagged False ts) live"
    "case ws_handler cl of Replaying p \<Rightarrow> hist = sent @ p | Reading \<Rightarrow> hist = sent | Crashed \<Rightarrow> prefix sent hist | Joining \<Rightarrow> False"
    "ws_writer cl = Writing \<and> length sent + length live \<le> send_capacity \<longrightarrow> tagged True ts = sent \<and> tagged False ts = live"
    by (auto simp: stream_ok_def)
  have "prefix sent hist" using ts(4) by (cases "ws_handler cl") auto
  with ts(2) have "subseq (tagged True ts) hist" by (blast intro: subseq_order.trans prefix_imp_subseq)
  moreover have "ws_written cl @ ws_buf cl \<in> shuffles (tagged True ts) (tagged False ts)"
    using tagged_shuffles [of ts] ts(1) by (simp add: client_frames_def)
  moreover have "ws_handler cl = Reading \<and> ws_writer cl = Writing \<and> length hist + length live \<le> 256
      \<longrightarrow> tagged True ts = hist \<and> tagged False ts = live"
    using ts(4,5) by (auto simp: send_capacity_def)
  ultimately show ?thesis using cl(1) ts(3) by blast
qed

text \<open>
  an event recorded before the history was read and broadcast after the page had joined is sent
  twice, and the page lists every frame it gets.
\<close>

theorem event_between_ring_and_queue_sent_twice:
  assumes "followed c hist live h" "hub_heap h c = Some cl" "ws_handler cl = Reading" "ws_writer cl = Writing"
    and "length hist + length live \<le> 256" "m \<in> set hist" "m \<in> set live"
  shows "2 \<le> count_list (ws_written cl @ ws_buf cl) m"
proof -
  from stream_is_history_and_broadcasts [OF assms(1)] assms(2-5)
  have "ws_written cl @ ws_buf cl \<in> shuffles hist live" by auto
  then have "mset (ws_written cl @ ws_buf cl) = mset hist + mset live" by (rule mset_shuffles)
  moreover have "2 \<le> count (mset hist) m + count (mset live) m"
    using assms(6,7) by (metis add_mono count_greater_eq_one_iff one_add_one set_mset_mset)
  ultimately have "2 \<le> count (mset (ws_written cl @ ws_buf cl)) m" by (simp only: count_union)
  then show ?thesis by (simp only: count_mset)
qed

lemma take_take_append: "take k (take k xs @ ys) = take k (xs @ ys)"
  by (simp add: min_def)

lemma replay_run:
  assumes "hub_heap h c = Some cl" "ws_handler cl = Replaying hist" "\<not> ws_closed cl" "length (ws_buf cl) \<le> 256"
  shows "\<exists>h'. hub_step\<^sup>*\<^sup>* h h'
    \<and> hub_heap h' c = Some (cl\<lparr>ws_buf := take 256 (ws_buf cl @ hist), ws_handler := Replaying []\<rparr>)"
  using assms
proof (induction hist arbitrary: h cl)
  case Nil
  have "cl\<lparr>ws_buf := take 256 (ws_buf cl @ []), ws_handler := Replaying []\<rparr> = cl" using Nil(2,4) by (cases cl) simp
  with Nil(1) show ?case by auto
next
  case (Cons m ms)
  let ?cl = "cl\<lparr>ws_buf := take 256 (ws_buf cl @ [m]), ws_handler := Replaying ms\<rparr>"
  have "hub_step h (set_client c ?cl h)"
    using client_history [OF Cons.prems(1,2)] Cons.prems(3,4)
    by (intro by_client) (simp add: offer_frame_def send_capacity_def split: if_splits)
  moreover have "hub_heap (set_client c ?cl h) c = Some ?cl" by (simp add: set_client_def)
  moreover have "ws_handler ?cl = Replaying ms" "\<not> ws_closed ?cl" "length (ws_buf ?cl) \<le> 256" using Cons.prems(3) by simp_all
  ultimately obtain h' where "hub_step h (set_client c ?cl h)" "hub_step\<^sup>*\<^sup>* (set_client c ?cl h) h'"
    "hub_heap h' c = Some (?cl\<lparr>ws_buf := take 256 (ws_buf ?cl @ ms), ws_handler := Replaying []\<rparr>)"
    using Cons.IH by blast
  moreover have "take 256 (take 256 (ws_buf cl @ [m]) @ ms) = take 256 (ws_buf cl @ m # ms)"
    using take_take_append [of 256 "ws_buf cl @ [m]" ms] by simp
  ultimately show ?case by (intro exI [of _ h']) (auto intro: converse_rtranclp_into_rtranclp)
qed

text \<open>
  C37: the ring holds more events than a connection's buffer, and its history is sent oldest first
  without waiting: if the writer does not get to run meanwhile, the page shows the oldest 256 events and
  none of the newest.
\<close>

theorem history_can_lose_newest_events:
  assumes "hub_heap h c = Some cl" "ws_handler cl = Replaying (history_frames marshal ring)" "\<not> ws_closed cl" "ws_buf cl = []"
    and "\<forall>ev. frame_message env (marshal ev) = Some (TraceMessage (view ev))"
  shows "\<exists>h' cl'. hub_step\<^sup>*\<^sup>* h h' \<and> hub_heap h' c = Some cl' \<and> ws_handler cl' = Replaying []
    \<and> pg_traces (page_run env initial_page (map FrameArrived (ws_buf cl')))
      = map view (drop (length (ring_get_all ring) - 256) (ring_get_all ring))"
proof -
  let ?evs = "take 256 (rev (ring_get_all ring))"
  obtain h' where h': "hub_step\<^sup>*\<^sup>* h h'"
    "hub_heap h' c = Some (cl\<lparr>ws_buf := take 256 (history_frames marshal ring), ws_handler := Replaying []\<rparr>)"
    using replay_run [OF assms(1-3)] assms(4) by auto
  have "map FrameArrived (take 256 (history_frames marshal ring)) = map (\<lambda>ev. FrameArrived (marshal ev)) ?evs"
    by (simp add: history_frames_def take_map)
  moreover have "pg_traces initial_page = []" "\<not> pg_paused initial_page" by (simp_all add: initial_page_def)
  ultimately have "pg_traces (page_run env initial_page (map FrameArrived (take 256 (history_frames marshal ring))))
      = take 500 (rev (map view ?evs))"
    using trace_frames [where enc = marshal and view = view, OF _ _ assms(5), of initial_page ?evs] by simp
  also have "\<dots> = map view (drop (length (ring_get_all ring) - 256) (ring_get_all ring))"
    by (simp add: rev_map take_rev)
  finally show ?thesis using h' by (intro exI [of _ h']) auto
qed

section \<open>Container output\<close>

text \<open>A log frame as the page reads it.\<close>

definition log_view_of :: "string \<Rightarrow> string \<times> string \<times> string \<Rightarrow> log_view" where
  "log_view_of now entry = \<lparr>lv_container = fst entry, lv_stream = fst (snd entry), lv_message = snd (snd entry),
     lv_timestamp = now\<rparr>"

definition timed_entries :: "string \<Rightarrow> (string \<times> int \<times> string) list \<Rightarrow> (string \<times> string \<times> string \<times> string) list" where
  "timed_entries name entries =
     List.map_filter (\<lambda>(now, chunk). map_option (Pair now) (log_entry name chunk)) entries"

definition reads_logs :: "page_env \<Rightarrow> (string \<times> string \<times> string \<times> string) list \<Rightarrow> bool" where
  "reads_logs env es \<longleftrightarrow> (\<forall>(now, e) \<in> set es. \<exists>p. pe_payload env (json_text (log_frame now e)) = Some p
     \<and> py_type p = ''log'' \<and> py_log p = log_view_of now e)"

lemma log_frames_run:
  assumes "reads_logs env es" "\<not> pg_paused pg"
  shows "pg_logs (page_run env pg (map (\<lambda>(now, e). FrameArrived (json_text (log_frame now e))) es))
    = pg_logs pg @ map (\<lambda>(now, e). log_view_of now e) es"
  using assms
proof (induction es arbitrary: pg)
  case (Cons x es)
  obtain now e where x: "x = (now, e)" by (cases x)
  obtain p where "pe_payload env (json_text (log_frame now e)) = Some p" "py_type p = ''log''" "py_log p = log_view_of now e"
    using Cons.prems(1) by (auto simp: reads_logs_def x)
  then have "frame_message env (json_text (log_frame now e)) = Some (LogMessage (log_view_of now e))"
    by (simp add: frame_message_def message_of_def)
  then have step: "fst (page_step env pg (FrameArrived (json_text (log_frame now e)))) = append_docker_log (log_view_of now e) pg"
    using Cons.prems(2) by (simp add: on_message_def)
  have "reads_logs env es" "\<not> pg_paused (append_docker_log (log_view_of now e) pg)"
    using Cons.prems by (simp_all add: append_docker_log_def reads_logs_def)
  from Cons.IH [OF this] show ?case
    by (simp add: x page_run_Cons step del: page_step.simps) (simp add: append_docker_log_def)
qed (simp add: page_run_def)

text \<open>
  what a container prints reaches the log console: every demultiplexed chunk that is more than
  line ends becomes one line, in order, with the container's name, its stream and the text without
  trailing line ends, escaped for the document.
\<close>

theorem container_output_reaches_console:
  fixes env :: page_env and name :: string and entries :: "(string \<times> int \<times> string) list"
  defines "es \<equiv> timed_entries name entries"
  assumes "reads_logs env es" "\<not> pg_paused pg" "page_ok env pg"
  defines "pg' \<equiv> page_run env pg (map (\<lambda>(now, e). FrameArrived (json_text (log_frame now e))) es)"
  shows "pg_logs pg' = pg_logs pg @ map (\<lambda>(now, e). log_view_of now e) es
    \<and> (es \<noteq> [] \<longrightarrow> pg_console pg' = map log_line (pg_logs pg'))
    \<and> (\<forall>(now, e) \<in> set es. fst e = name \<and> fst (snd e) \<in> {''stdout'', ''stderr''} \<and> snd (snd e) \<noteq> [])"
proof (intro conjI)
  show logs: "pg_logs pg' = pg_logs pg @ map (\<lambda>(now, e). log_view_of now e) es"
    unfolding pg'_def by (rule log_frames_run [OF assms(2,3)])
  have "page_ok env pg'" unfolding pg'_def by (rule page_run_ok [OF assms(4)])
  with logs show "es \<noteq> [] \<longrightarrow> pg_console pg' = map log_line (pg_logs pg')" by (auto simp: page_ok_def)
  show "\<forall>(now, e) \<in> set es. fst e = name \<and> fst (snd e) \<in> {''stdout'', ''stderr''} \<and> snd (snd e) \<noteq> []"
    by (auto simp: es_def timed_entries_def List.map_filter_def log_entry_def Let_def split: if_splits)
qed

section \<open>Witnesses\<close>

lemma sample_followed:
  "\<exists>h cl. followed 0 [''ev''] [''ev''] h \<and> hub_heap h 0 = Some cl \<and> ws_handler cl = Reading \<and> ws_writer cl = Writing"
proof -
  note defs = insert_client_def joined_hub_def joined_client_def new_ws_client_def new_hub_def
    set_client_def offer_frame_def send_capacity_def
  let ?h0 = "set_client 0 new_ws_client new_hub"
  have "hub_step new_hub ?h0" by (intro by_client client_connect) (simp_all add: new_hub_def)
  with hub_start have "hub_reachable ?h0" by (rule hub_next)
  from joined [OF this, of 0 new_ws_client "[''ev'']"]
  have f0: "followed 0 [''ev''] [] (joined_hub [''ev''])" by (simp add: defs)
  let ?h1 = "insert_client 0 ((joined_hub [''ev''])\<lparr>hub_loop := Selecting\<rparr>)"
  have "loop_step (joined_hub [''ev'']) ?h1" by (rule loop_insert) (simp add: joined_hub_def)
  from meanwhile [OF f0 by_loop [OF this]] have f1: "followed 0 [''ev''] [] ?h1" by (simp add: joined_hub_def)
  let ?h2 = "?h1\<lparr>hub_senders := [''ev'']\<rparr>"
  have "sender_step ?h1 ?h2" using sender_start [of ?h1 "''ev''"] by (simp add: defs)
  from meanwhile [OF f1 by_sender [OF this]] have f2: "followed 0 [''ev''] [] ?h2" by simp
  let ?h3 = "?h1\<lparr>hub_broadcast := [''ev'']\<rparr>"
  have "sender_step ?h2 ?h3"
    using sender_offer [of "''ev''" ?h2] by (simp add: offer_broadcast_def broadcast_capacity_def defs)
  from meanwhile [OF f2 by_sender [OF this]] have f3: "followed 0 [''ev''] [] ?h3" by simp
  let ?h4 = "?h1\<lparr>hub_loop := Delivering ''ev''\<rparr>"
  have "loop_step ?h3 ?h4" using loop_take [of ?h3 "''ev''" "[]"] by (simp add: defs)
  from meanwhile [OF f3 by_loop [OF this]] have f4: "followed 0 [''ev''] [] ?h4" by (simp add: defs)
  let ?c5 = "(joined_client [''ev''])\<lparr>ws_buf := [''ev'']\<rparr>"
  have "followed 0 [''ev''] [''ev''] (set_client 0 ?c5 ?h1)"
    using broadcast [OF f4] by (simp add: defs deliver_def on_client_def)
  moreover let ?c6 = "?c5\<lparr>ws_buf := [''ev'', ''ev''], ws_handler := Replaying []\<rparr>"
  have "client_step (set_client 0 ?c5 ?h1) (set_client 0 ?c6 ?h1)"
    using client_history [of "set_client 0 ?c5 ?h1" 0 ?c5 "''ev''" "[]"] by (simp add: defs)
  ultimately have f6: "followed 0 [''ev''] [''ev''] (set_client 0 ?c6 ?h1)"
    by (blast intro: meanwhile by_client disjI1 dest: client_loop)
  have "client_step (set_client 0 ?c6 ?h1) (set_client 0 (?c6\<lparr>ws_handler := Reading\<rparr>) ?h1)"
    using client_read [of "set_client 0 ?c6 ?h1" 0 ?c6] by (simp add: defs)
  with f6 have "followed 0 [''ev''] [''ev''] (set_client 0 (?c6\<lparr>ws_handler := Reading\<rparr>) ?h1)"
    by (blast intro: meanwhile by_client disjI1 dest: client_loop)
  then show ?thesis by (force simp: set_client_def joined_client_def)
qed

theorem stream_is_history_and_broadcasts_witness:
  "\<exists>cl :: ws_client. ws_handler cl = Reading \<and> ws_written cl @ ws_buf cl \<in> shuffles [''ev''] [''ev'']"
proof -
  obtain h cl where "followed 0 [''ev''] [''ev''] h" "hub_heap h 0 = Some cl" "ws_handler cl = Reading" "ws_writer cl = Writing"
    using sample_followed by blast
  with stream_is_history_and_broadcasts [of 0 "[''ev'']" "[''ev'']" h]
  have "ws_handler cl = Reading \<and> ws_written cl @ ws_buf cl \<in> shuffles [''ev''] [''ev'']" by (auto simp del: shuffles.simps)
  then show ?thesis ..
qed

theorem event_between_ring_and_queue_sent_twice_witness:
  "\<exists>cl :: ws_client. ws_handler cl = Reading \<and> 2 \<le> count_list (ws_written cl @ ws_buf cl) ''ev''"
proof -
  obtain h cl where "followed 0 [''ev''] [''ev''] h" "hub_heap h 0 = Some cl" "ws_handler cl = Reading" "ws_writer cl = Writing"
    using sample_followed by blast
  with event_between_ring_and_queue_sent_twice [of 0 "[''ev'']" "[''ev'']" h cl "''ev''"]
  have "ws_handler cl = Reading \<and> 2 \<le> count_list (ws_written cl @ ws_buf cl) ''ev''" by simp
  then show ?thesis ..
qed

theorem history_can_lose_newest_events_witness:
  "\<exists>h' cl'. hub_step\<^sup>*\<^sup>* (joined_hub (history_frames (\<lambda>_. []) (ring_push (new_ring_buffer 2) zero_event))) h'
    \<and> hub_heap h' 0 = Some cl' \<and> ws_handler cl' = Replaying []"
proof -
  let ?ring = "ring_push (new_ring_buffer 2) zero_event" and ?env = "sample_browser [] sample_view"
  let ?cl = "joined_client (history_frames (\<lambda>_. []) ?ring)"
  have "hub_heap (joined_hub (history_frames (\<lambda>_. []) ?ring)) 0 = Some ?cl" by (simp add: joined_hub_def)
  moreover have "ws_handler ?cl = Replaying (history_frames (\<lambda>_. []) ?ring)" "\<not> ws_closed ?cl" "ws_buf ?cl = []"
    by (simp_all add: joined_client_def new_ws_client_def)
  moreover have "\<forall>ev. frame_message ?env [] = Some (TraceMessage ((\<lambda>_. sample_view) ev))" by simp
  ultimately show ?thesis using history_can_lose_newest_events [of _ 0 ?cl "\<lambda>_. []" ?ring ?env "\<lambda>_. sample_view"] by blast
qed

theorem container_output_reaches_console_witness:
  "pg_console (page_run ((sample_browser [] sample_view)\<lparr>pe_payload := (\<lambda>_. Some ((sample_payload ''log'' (sample_health [] [] True) sample_view)
       \<lparr>py_log := log_view_of ''12:00'' (''web'', ''stdout'', ''hi'')\<rparr>))\<rparr>) initial_page
     [FrameArrived (json_text (log_frame ''12:00'' (''web'', ''stdout'', ''hi'')))])
   = [log_line (log_view_of ''12:00'' (''web'', ''stdout'', ''hi''))]"
proof -
  let ?env = "(sample_browser [] sample_view)\<lparr>pe_payload := (\<lambda>_. Some ((sample_payload ''log'' (sample_health [] [] True) sample_view)
       \<lparr>py_log := log_view_of ''12:00'' (''web'', ''stdout'', ''hi'')\<rparr>))\<rparr>"
  let ?entries = "[(''12:00'', 1 :: int, ''hi'' @ [char_of (10 :: int)])]"
  have entry: "log_entry ''web'' (1, ''hi'' @ [char_of (10 :: int)]) = Some (''web'', ''stdout'', ''hi'')" by code_simp
  then have es: "timed_entries ''web'' ?entries = [(''12:00'', ''web'', ''stdout'', ''hi'')]"
    by (simp add: timed_entries_def List.map_filter_def)
  have "reads_logs ?env [(''12:00'', ''web'', ''stdout'', ''hi'')]"
    by (simp add: reads_logs_def sample_payload_def)
  moreover have "\<not> pg_paused initial_page" "pg_logs initial_page = []" by (simp_all add: initial_page_def)
  ultimately show ?thesis
    using container_output_reaches_console [of ?env "''web''" ?entries initial_page, OF _ _ page_ok_initial, unfolded es] by simp
qed

end
