(* ===== verification/Spec2Isabelle.thy ===== *)
theory Spec2Isabelle
  imports Route_Properties Ring_Buffer Docker_Demux Waterfall Health Mock_Rules Capture Egress_Policy
    Docker_Watcher Redactor Webhook Engine_Properties Config Replay Telemetry_Queue Dashboard_Hub
    Application Dashboard Tunnel Docker_Client Discovery Startup
    Cockpit_Escaping Cockpit_Forms Cockpit_Pills Live_Stream
begin

text \<open>
  DevHub, a local development gateway: the verification library.

  \<^bold>\<open>The program.\<close> DevHub is one process with a data plane and a control plane. The data
  plane is the proxy engine (src/pkg/proxy): it matches a request's path in a copy-on-write routing trie
  (src/pkg/router), answers from mock rules (src/pkg/mock) or sends the request on, guards targets by a health
  monitor with a circuit breaker, tunnels CONNECT and WebSocket connections, forwards proxied requests under
  an egress policy, and leaves a telemetry event of every request in a ring buffer (src/pkg/buffer) and with a
  callback. Telemetry is stamped with trace contexts and redacted (src/pkg/tracing). The control plane
  (src/internal/app) reads the configuration (src/pkg/config, src/cmd), builds and starts everything, moves
  events from a bounded queue to the dashboard's WebSocket hub, and serves the dashboard API. Docker discovery
  (src/pkg/docker) mounts routes for running containers, and a tunnel client (src/pkg/tunnel) brings in
  requests from a public relay. The browser runs the third part, the dashboard page (the script in
  src/pkg/ui): it follows the hub's stream, keeps what it shows in its own variables, and calls the API.

  \<^bold>\<open>Conventions.\<close> A Go string is its bytes, an Isabelle \<open>string\<close>. A Go map is
  an association list with distinct keys that stands for one iteration order; results that hold for every
  order say so. Counters of 64 bits and frame lengths of 32 bits are words and wrap. An error is the left of a
  sum, or \<open>None\<close> where the source only tests for it; a panic is a value too
  (\<open>sr_panic\<close>, \<open>Aborted\<close>, \<open>None\<close> of \<open>offer_frame\<close>).
  Clocks, random bytes, DNS, sockets, JSON and YAML codecs, \<open>url.Parse\<close>, HMAC,
  \<open>ReverseProxy\<close>'s transport, the Docker daemon and the browser's \<open>JSON.parse\<close> are
  arguments, collected in one record per component (\<open>world\<close>, \<open>egress_env\<close>,
  \<open>config_env\<close>, \<open>replay_env\<close>, \<open>dash_env\<close>, \<open>tunnel_env\<close>,
  \<open>docker_env\<close>, \<open>page_env\<close>). A string of the page is the sequence of its UTF-8
  bytes. Other parts of the standard library are written out as far as the program uses them:
  \<open>strings\<close>, \<open>strconv.Atoi\<close>, \<open>net.SplitHostPort\<close>,
  \<open>net/netip\<close>, \<open>filepath.Match\<close>, canonical header names, query strings,
  \<open>io.ReadFull\<close>, the regular expression of the redactor.

  \<^bold>\<open>Theories and code.\<close>
  \<^item> Prelude: Go strings and numbers, hexadecimal digits, maps, and the locales
    \<open>kept_by_steps\<close> and \<open>kept_by_ops\<close> for invariants of transition systems. Http_Header, Net_Address, Net_Ip,
    Url_Query: the library parts above.
  \<^item> Route_Trie, Route_Heap, Route_Match, Route_Concurrency, Route_Properties: src/pkg/router. The trie as
    a tree and as a heap of nodes (\<open>router\<close>, \<open>add_with_timeout\<close>,
    \<open>remove_route\<close>, \<open>match_route\<close>), the refinement of one by the other, and readers
    that run while nodes are copied. The locale \<open>route_table\<close> is the contract the engine and the
    watcher rely on.
  \<^item> Ring_Buffer: src/pkg/buffer; Capture: the body capture, sniffer and response capturer of
    src/pkg/proxy/engine.go (locale \<open>bounded_sink\<close>); Health: src/pkg/proxy/health.go; Mock_Rules:
    src/pkg/mock; Egress_Policy: src/pkg/proxy/security.go; Trace_Context, Waterfall, Redactor: src/pkg/tracing;
    Webhook: src/pkg/webhook; Replay: src/pkg/proxy/replay.go.
  \<^item> Engine, Engine_Serve: \<open>ServeHTTP\<close> with all its branches on the record
    \<open>engine\<close>; Engine_Samples a concrete engine for the witnesses; Engine_Properties what a request
    leaves and contacts; Engine_Sound that serving keeps the invariants of the engine's parts.
  \<^item> Config: src/pkg/config/config.go and the overrides of src/cmd/main.go.
  \<^item> Application: \<open>New\<close>, \<open>Start\<close>, \<open>Shutdown\<close> of
    src/internal/app/app.go on the record \<open>app\<close>; Telemetry_Queue the event channel and its
    counters; Dashboard_Hub the hub as a transition system of its goroutines; Dashboard the API handlers,
    authentication, tickets and the runs of the whole app; Ticket_Store the ticket interface as the locale
    \<open>single_use_tickets\<close>; Terminal the log line.
  \<^item> Docker_Demux, Docker_Watcher, Docker_Client: src/pkg/docker; Tunnel: src/pkg/tunnel. Discovery: the
    watcher on the router of the running app, with the health targets its route callback registers.
  \<^item> Startup: a run of \<open>main\<close> (src/cmd/main.go) from the flags to the exit code, the
    addresses and routes of the banner, and the probing loop.
  \<^item> Cockpit_Markup, Cockpit: src/pkg/ui/embedded.go. The markup the script writes, with its escaping and
    JSON printing, and the page as a state machine: the record \<open>page\<close>, one definition per function
    of the script, \<open>page_step\<close> for what the network, the timer and the user do, and the requests a
    step makes. Cockpit_Escaping what reaches the document as markup or as a command; Cockpit_Properties the
    lists and the credentials; Cockpit_Forms the forms up to \<open>execute\<close> of Replay; Cockpit_Pills the
    health bar.
  \<^item> Live_Stream: one connection from the hub to the page, with the history and the broadcasts that race
    on it.

  \<^bold>\<open>What is shown.\<close> Routing: a match is the longest registered prefix, the outbound path
  is what the prefix leaves, updates change one route and no running match, and the trie keeps no dead
  branches; the router \<open>New\<close> builds equals a linear search over the configuration. Telemetry: one
  event per request but for enumerated exits, the recorded status is the one sent, the ring keeps the last
  events, the queue accounts for all of them. Egress: forbidden ranges are never dialled and what is dialled
  was validated; zoned literals and the forward proxy's policy are the exceptions. Health, mocks, capture,
  tracing, redaction, signing, replay, waterfall, demultiplexing and discovery have their functional
  specifications. Control plane: the whole app keeps its parts' invariants under every sequence of requests,
  worker steps, probes and container events; configured routes survive discovery where no container claims
  them, and a tracked container is served and probed; requests without credentials change and learn nothing; a
  ticket opens one stream; refusals have one cause each; the hub never panics; the tunnel answers every frame
  once and its connections end; the exit code says whether the start succeeded. A connection receives its
  history and the broadcasts since it joined, in order. Page: its lists are functions of what arrived, its
  requests pass the server's authentication, escaped fields add no markup, a replayed request is the recorded
  one, and pills follow their targets. Where the code does not do what it means to, the theorem states what it
  does (kind error) and the manifest's findings say so.

  \<^bold>\<open>Bounds and termination.\<close> There is no fuel: loops are structural recursion, folds, or
  \<open>function\<close>s with a measure (\<open>match_loop\<close>, \<open>skip_slashes\<close>,
  \<open>demux_stream\<close>). Endless loops (the hub, the tunnel, the event loop) are step relations or
  lists of rounds of any length. Capacities are the source's: 64 KB captures, 4096 queued events, 2048
  broadcasts, 256 frames per client, 1000 tickets, 1 MB replays.

  \<^bold>\<open>Not modelled.\<close> Of the page its style sheet, its static markup, the constant class
  names of created elements and scrolling; of the banner its logo and rules. Timeouts of transports and
  servers, connection pooling and the pauses between reconnections have no effect on the modelled state.
  \<open>ServeMux\<close> redirects unclean dashboard paths before a handler runs; handlers are modelled on
  clean paths. The page computes bar widths in doubles; here they are exact.

  \<^bold>\<open>Plan.\<close> Next: probes interleaved with requests and registrations inside one round; the
  event loop's path from the ring through the queue to a connection as one run.
\<close>

end
